(* ===== verification/Voices_Prelude.thy ===== *)
theory Voices_Prelude
  imports Main "HOL-Library.Word" "HOL-Library.AList"
begin

text \<open>
  Shared vocabulary of the development: the machine integer types the Rust code uses, the
  two map types of the standard library it uses (\<open>BTreeMap\<close> with its ordered iteration and
  \<open>HashMap\<close>), the interface both share as a locale, and the collections of simplification
  rules the component theories fill.
\<close>

section \<open>Types\<close>

type_synonym u8 = "8 word"
type_synonym u16 = "16 word"
type_synonym u32 = "32 word"
type_synonym u64 = "64 word"

lemma unat_u16_less: "unat (w :: u16) < 2 ^ 16"
  by (rule order_less_le_trans [OF unsigned_less]) simp

text \<open>A UUID is 16 bytes compared bytewise, which is the unsigned order of its 128-bit value.\<close>

type_synonym uuid = "128 word"

text \<open>Points in time and durations are in milliseconds.\<close>

type_synonym instant = nat

text \<open>What a Rust expression that may panic evaluates to.\<close>

datatype 'a outcome = Done 'a | Panicked

section \<open>Rule collections\<close>

named_theorems conn_simps
  \<open>what one event does to a voice connection task\<close>
named_theorems fwd_simps
  \<open>field equations of the forwarder's operations\<close>
named_theorems presence_simps
  \<open>membership after joins and leaves\<close>

section \<open>Association lists as finite maps\<close>

text \<open>\<open>BTreeMap\<close>: the entries in ascending key order.\<close>

type_synonym ('k, 'v) btree_map = "('k \<times> 'v) list"

fun bt_insert :: "'k::linorder \<Rightarrow> 'v \<Rightarrow> ('k, 'v) btree_map \<Rightarrow> ('k, 'v) btree_map" where
  "bt_insert k v [] = [(k, v)]"
| "bt_insert k v ((k', v') # m) =
     (if k < k' then (k, v) # (k', v') # m
      else if k = k' then (k, v) # m
      else (k', v') # bt_insert k v m)"

definition bt_remove :: "'k \<Rightarrow> ('k, 'v) btree_map \<Rightarrow> ('k, 'v) btree_map" where
  "bt_remove k m = filter (\<lambda>e. fst e \<noteq> k) m"

definition bt_ok :: "('k::linorder, 'v) btree_map \<Rightarrow> bool" where
  "bt_ok m = sorted_wrt (<) (map fst m)"

lemma bt_lookup_insert [simp]: "map_of (bt_insert k v m) = (map_of m)(k \<mapsto> v)"
  by (induction k v m rule: bt_insert.induct) (auto simp: fun_eq_iff)

lemma bt_lookup_remove [simp]: "map_of (bt_remove k m) = (map_of m)(k := None)"
  by (induction m) (auto simp: bt_remove_def fun_eq_iff)

lemma bt_keys_insert: "set (map fst (bt_insert k v m)) = insert k (set (map fst m))"
  by (induction k v m rule: bt_insert.induct) auto

lemma bt_ok_empty [simp]: "bt_ok []"
  by (simp add: bt_ok_def)

lemma bt_ok_insert: "bt_ok m \<Longrightarrow> bt_ok (bt_insert k v m)"
proof (induction k v m rule: bt_insert.induct)
  case (2 k v k' v' m)
  have keys: "fst ` set (bt_insert k v m) = insert k (fst ` set m)"
    using bt_keys_insert [of k v m] by simp
  show ?case using 2 keys unfolding bt_ok_def by auto
qed (simp add: bt_ok_def)

lemma bt_ok_remove: "bt_ok m \<Longrightarrow> bt_ok (bt_remove k m)"
  by (induction m) (auto simp: bt_ok_def bt_remove_def)

lemma bt_ok_distinct: "bt_ok m \<Longrightarrow> distinct (map fst m)"
  unfolding bt_ok_def using strict_sorted_iff by blast

text \<open>\<open>HashMap\<close>: an association list with distinct keys; its order means nothing.\<close>

type_synonym ('k, 'v) hash_map = "('k \<times> 'v) list"

abbreviation hm_insert :: "'k \<Rightarrow> 'v \<Rightarrow> ('k, 'v) hash_map \<Rightarrow> ('k, 'v) hash_map" where
  "hm_insert \<equiv> AList.update"

abbreviation hm_remove :: "'k \<Rightarrow> ('k, 'v) hash_map \<Rightarrow> ('k, 'v) hash_map" where
  "hm_remove \<equiv> AList.delete"

abbreviation hm_ok :: "('k, 'v) hash_map \<Rightarrow> bool" where
  "hm_ok m \<equiv> distinct (map fst m)"

section \<open>The map interface\<close>

text \<open>What the components rely on: lookups after insertions and removals, and iteration.\<close>

locale finite_map =
  fixes ok :: "'m \<Rightarrow> bool"
    and none :: 'm
    and get :: "'m \<Rightarrow> 'k \<Rightarrow> 'v option"
    and put :: "'k \<Rightarrow> 'v \<Rightarrow> 'm \<Rightarrow> 'm"
    and del :: "'k \<Rightarrow> 'm \<Rightarrow> 'm"
    and entries :: "'m \<Rightarrow> ('k \<times> 'v) list"
  assumes ok_none: "ok none"
    and get_none: "get none k = None"
    and ok_put: "ok m \<Longrightarrow> ok (put k v m)"
    and get_put: "ok m \<Longrightarrow> get (put k v m) = (get m)(k \<mapsto> v)"
    and ok_del: "ok m \<Longrightarrow> ok (del k m)"
    and get_del: "ok m \<Longrightarrow> get (del k m) = (get m)(k := None)"
    and entries_get: "ok m \<Longrightarrow> (k, v) \<in> set (entries m) \<longleftrightarrow> get m k = Some v"
    and entries_distinct: "ok m \<Longrightarrow> distinct (map fst (entries m))"
begin

lemma keys_dom: "ok m \<Longrightarrow> fst ` set (entries m) = dom (get m)"
  using entries_get by force

lemma value_iff: "ok m \<Longrightarrow> x \<in> snd ` set (entries m) \<longleftrightarrow> (\<exists>j. get m j = Some x)"
  using entries_get [of m] by force

lemma values_put:
  "ok m \<Longrightarrow> x \<in> snd ` set (entries (put k v m)) \<longleftrightarrow>
     x = v \<or> (\<exists>j. j \<noteq> k \<and> get m j = Some x)"
  using value_iff [OF ok_put] by (auto simp: get_put)

lemma values_del:
  "ok m \<Longrightarrow> x \<in> snd ` set (entries (del k m)) \<longleftrightarrow> (\<exists>j. j \<noteq> k \<and> get m j = Some x)"
  using value_iff [OF ok_del] by (auto simp: get_del)

lemma card_entries: "ok m \<Longrightarrow> length (entries m) = card (dom (get m))"
  using entries_distinct [of m] keys_dom [of m] distinct_card by fastforce

lemma no_entries: "ok m \<Longrightarrow> entries m = [] \<longleftrightarrow> get m = Map.empty"
  using keys_dom [of m] by (metis dom_eq_empty_conv image_is_empty set_empty)

lemma del_put: "ok m \<Longrightarrow> get m k = None \<Longrightarrow> get (del k (put k v m)) = get m"
  by (auto simp: get_del get_put ok_put)

end

interpretation bt: finite_map bt_ok "[]" map_of bt_insert bt_remove "\<lambda>m. m"
  by unfold_locales
    (auto simp: bt_ok_insert bt_ok_remove bt_ok_distinct)

interpretation hm: finite_map "\<lambda>m. hm_ok m" "[]" map_of hm_insert hm_remove "\<lambda>m. m"
  by unfold_locales
    (auto simp: update_conv' delete_conv' distinct_update distinct_delete)

end
