(* ===== verification/Presence.thy ===== *)
theory Presence
  imports Voices_Prelude
begin

text \<open>
  Who is in a channel, as the gateway sees it: \<open>ClientInfo\<close>, \<open>LocallyPresent\<close>, \<open>ChannelEvent\<close> and
  \<open>ChatRoomJoined\<close> of \<open>server/gateway/src/server/channels/mod.rs\<close>, and the channel state of the
  standalone set-up, \<open>server/gateway/src/server/channels/state/local.rs\<close>. The broadcast channel
  of events is the list of everything sent on it; a subscriber is a position in it.
\<close>

section \<open>Clients and members\<close>

record client_info =
  ci_client_id :: uuid
  ci_source_id :: u32
  ci_name :: string

record locally_present =
  inner :: "(uuid, client_info) hash_map"
  live :: bool

definition locally_present_new :: locally_present where
  "locally_present_new = \<lparr>inner = [], live = True\<rparr>"

definition present_join :: "client_info \<Rightarrow> locally_present \<Rightarrow> locally_present \<times> bool" where
  "present_join info p =
     (if \<not> live p then (p, False)
      else (p\<lparr>inner := hm_insert (ci_client_id info) info (inner p)\<rparr>, True))"

definition present_leave :: "uuid \<Rightarrow> locally_present \<Rightarrow> locally_present \<times> bool" where
  "present_leave client_id p =
     (let m = hm_remove client_id (inner p);
          p' = p\<lparr>inner := m, live := (m \<noteq> [])\<rparr>
      in (p', \<not> live p'))"

definition present_list :: "locally_present \<Rightarrow> client_info list" where
  "present_list p = map snd (inner p)"

section \<open>Events\<close>

datatype channel_event_kind = Joined string | Left string

record channel_event =
  ev_source :: uuid
  ev_source_id :: u32
  ev_kind :: channel_event_kind

definition event_joined :: "uuid \<Rightarrow> string \<Rightarrow> u32 \<Rightarrow> channel_event" where
  "event_joined src name sid = \<lparr>ev_source = src, ev_source_id = sid, ev_kind = Joined name\<rparr>"

definition event_left :: "uuid \<Rightarrow> string \<Rightarrow> u32 \<Rightarrow> channel_event" where
  "event_left src name sid = \<lparr>ev_source = src, ev_source_id = sid, ev_kind = Left name\<rparr>"

text \<open>\<open>ChatRoomJoined\<close>: a receiver of events; dropping it lets the spawned task leave.\<close>

record chat_room_joined =
  updates :: nat
  jr_info :: client_info

definition room_recv ::
  "channel_event list \<Rightarrow> chat_room_joined \<Rightarrow> (chat_room_joined \<times> channel_event) option" where
  "room_recv log j =
     (if updates j < length log
      then Some (j\<lparr>updates := Suc (updates j)\<rparr>, log ! updates j) else None)"

section \<open>The state of one channel\<close>

text \<open>
  \<open>leaving\<close> holds the spawned tasks whose handle has been dropped and which have not yet called
  \<open>leave\<close>; \<open>closed\<close> says whether \<open>ChannelMap::close\<close> was called for the channel.
\<close>

record local_channel =
  lc_id :: uuid
  lc_log :: "channel_event list"
  lc_present :: locally_present
  lc_handles :: "chat_room_joined list"
  lc_leaving :: "client_info list"
  lc_closed :: bool

definition local_channel_new :: "uuid \<Rightarrow> local_channel" where
  "local_channel_new id_arg = \<lparr>lc_id = id_arg, lc_log = [], lc_present = locally_present_new,
     lc_handles = [], lc_leaving = [], lc_closed = False\<rparr>"

definition local_join ::
  "client_info \<Rightarrow> local_channel \<Rightarrow> local_channel \<times> chat_room_joined option" where
  "local_join info c =
     (case present_join info (lc_present c) of
        (p, False) \<Rightarrow> (c, None)
      | (p, True) \<Rightarrow>
          (let joined = \<lparr>updates = length (lc_log c), jr_info = info\<rparr>;
               event = event_joined (ci_client_id info) (ci_name info) (ci_source_id info)
           in (c\<lparr>lc_present := p, lc_log := lc_log c @ [event],
                 lc_handles := joined # lc_handles c\<rparr>, Some joined)))"

definition local_leave :: "client_info \<Rightarrow> local_channel \<Rightarrow> local_channel" where
  "local_leave info c =
     (let (p, empty) = present_leave (ci_client_id info) (lc_present c);
          event = event_left (ci_client_id info) (ci_name info) (ci_source_id info)
      in c\<lparr>lc_present := p, lc_closed := (lc_closed c \<or> empty), lc_log := lc_log c @ [event]\<rparr>)"

definition local_members :: "local_channel \<Rightarrow> client_info list" where
  "local_members c = present_list (lc_present c)"

text \<open>Dropping a handle, and the spawned task that then leaves.\<close>

definition drop_handle :: "chat_room_joined \<Rightarrow> local_channel \<Rightarrow> local_channel" where
  "drop_handle j c =
     c\<lparr>lc_handles := remove1 j (lc_handles c), lc_leaving := jr_info j # lc_leaving c\<rparr>"

definition run_leaving :: "client_info \<Rightarrow> local_channel \<Rightarrow> local_channel" where
  "run_leaving info c = local_leave info (c\<lparr>lc_leaving := remove1 info (lc_leaving c)\<rparr>)"

section \<open>Histories\<close>

text \<open>
  A channel and everything that can happen to it. The history is \<^emph>\<open>single\<close> when no client joins
  while an earlier handle of it, or the task of one, is still around.
\<close>

definition around :: "local_channel \<Rightarrow> uuid set" where
  "around c = ci_client_id ` (jr_info ` set (lc_handles c) \<union> set (lc_leaving c))"

inductive chan_step :: "local_channel \<Rightarrow> local_channel \<Rightarrow> bool" where
  join: "chan_step c (fst (local_join info c))"
| drop: "j \<in> set (lc_handles c) \<Longrightarrow> chan_step c (drop_handle j c)"
| leave: "info \<in> set (lc_leaving c) \<Longrightarrow> chan_step c (run_leaving info c)"

inductive chan_single :: "local_channel \<Rightarrow> bool" where
  new: "chan_single (local_channel_new i)"
| join: "chan_single c \<Longrightarrow> ci_client_id info \<notin> around c \<Longrightarrow> chan_single (fst (local_join info c))"
| drop: "chan_single c \<Longrightarrow> j \<in> set (lc_handles c) \<Longrightarrow> chan_single (drop_handle j c)"
| leave: "chan_single c \<Longrightarrow> info \<in> set (lc_leaving c) \<Longrightarrow> chan_single (run_leaving info c)"

inductive_cases chan_stepE: "chan_step c c'"

section \<open>The interface of a channel state\<close>

text \<open>
  What a session relies on of a \<open>ChannelState\<close>: a successful join makes the client a member and
  delivers to the handle its own join and everything after it; leaving removes the client and
  nobody else; a channel once closed admits nobody.
\<close>

locale channel_state =
  fixes ok :: "'c \<Rightarrow> bool"
    and join :: "client_info \<Rightarrow> 'c \<Rightarrow> 'c \<times> chat_room_joined option"
    and leave :: "client_info \<Rightarrow> 'c \<Rightarrow> 'c"
    and members :: "'c \<Rightarrow> client_info list"
    and log :: "'c \<Rightarrow> channel_event list"
    and shut :: "'c \<Rightarrow> bool"
  assumes ok_join: "ok c \<Longrightarrow> ok (fst (join info c))"
    and ok_leave: "ok c \<Longrightarrow> ok (leave info c)"
    and join_refused: "ok c \<Longrightarrow> snd (join info c) = None \<longleftrightarrow> shut c"
    and join_kept: "shut c \<Longrightarrow> ok c \<Longrightarrow> fst (join info c) = c"
    and join_members: "ok c \<Longrightarrow> \<not> shut c \<Longrightarrow> set (members (fst (join info c))) =
      insert info {i \<in> set (members c). ci_client_id i \<noteq> ci_client_id info}"
    and join_log: "ok c \<Longrightarrow> \<not> shut c \<Longrightarrow> log (fst (join info c)) =
      log c @ [event_joined (ci_client_id info) (ci_name info) (ci_source_id info)]"
    and join_updates: "ok c \<Longrightarrow> snd (join info c) = Some j \<Longrightarrow>
      updates j = length (log c) \<and> jr_info j = info"
    and join_open: "ok c \<Longrightarrow> \<not> shut c \<Longrightarrow> \<not> shut (fst (join info c))"
    and leave_members: "ok c \<Longrightarrow> set (members (leave info c)) =
      {i \<in> set (members c). ci_client_id i \<noteq> ci_client_id info}"
    and leave_log: "ok c \<Longrightarrow> log (leave info c) =
      log c @ [event_left (ci_client_id info) (ci_name info) (ci_source_id info)]"
    and leave_shut: "ok c \<Longrightarrow> shut (leave info c) \<longleftrightarrow> members (leave info c) = []"
    and shut_empty: "ok c \<Longrightarrow> shut c \<Longrightarrow> members c = []"
begin

lemma shut_stays_join: "ok c \<Longrightarrow> shut c \<Longrightarrow> shut (fst (join info c))"
  by (simp add: join_kept)

lemma shut_stays_leave: "ok c \<Longrightarrow> shut c \<Longrightarrow> shut (leave info c)"
  using leave_members [of c info] by (simp add: leave_shut shut_empty)

lemma joined_is_member:
  "ok c \<Longrightarrow> snd (join info c) = Some j \<Longrightarrow> info \<in> set (members (fst (join info c)))"
  using join_refused [of c info] by (auto simp: join_members)

lemma left_is_gone:
  "ok c \<Longrightarrow> i \<in> set (members (leave info c)) \<Longrightarrow> ci_client_id i \<noteq> ci_client_id info"
  by (simp add: leave_members)

text \<open>The first event a new handle receives is its own join.\<close>

lemma first_update:
  "ok c \<Longrightarrow> snd (join info c) = Some j \<Longrightarrow>
     log (fst (join info c)) ! updates j =
       event_joined (ci_client_id info) (ci_name info) (ci_source_id info)"
  using join_refused [of c info] join_updates [of c info j] by (auto simp: join_log)

end

definition local_ok :: "local_channel \<Rightarrow> bool" where
  "local_ok c \<longleftrightarrow> hm_ok (inner (lc_present c)) \<and>
     (\<forall>k i. map_of (inner (lc_present c)) k = Some i \<longrightarrow> ci_client_id i = k) \<and>
     (\<not> live (lc_present c) \<longrightarrow> inner (lc_present c) = [])"

lemma members_iff:
  "local_ok c \<Longrightarrow>
     i \<in> set (local_members c) \<longleftrightarrow> map_of (inner (lc_present c)) (ci_client_id i) = Some i"
  using hm.value_iff [of "inner (lc_present c)" i]
  by (auto simp: local_members_def present_list_def local_ok_def)

lemma local_join_eq:
  "local_join info c =
     (if live (lc_present c)
      then (c\<lparr>lc_present := (lc_present c)
                \<lparr>inner := hm_insert (ci_client_id info) info (inner (lc_present c))\<rparr>,
              lc_log := lc_log c @
                [event_joined (ci_client_id info) (ci_name info) (ci_source_id info)],
              lc_handles := \<lparr>updates = length (lc_log c), jr_info = info\<rparr> # lc_handles c\<rparr>,
            Some \<lparr>updates = length (lc_log c), jr_info = info\<rparr>)
      else (c, None))"
  by (simp add: local_join_def present_join_def Let_def)

lemma local_leave_eq:
  "local_leave info c =
     (let m = hm_remove (ci_client_id info) (inner (lc_present c))
      in c\<lparr>lc_present := (lc_present c)\<lparr>inner := m, live := (m \<noteq> [])\<rparr>,
           lc_closed := (lc_closed c \<or> m = []),
           lc_log := lc_log c @
             [event_left (ci_client_id info) (ci_name info) (ci_source_id info)]\<rparr>)"
  by (simp add: local_leave_def present_leave_def Let_def)

lemma local_ok_join: "local_ok c \<Longrightarrow> local_ok (fst (local_join info c))"
  by (auto simp: local_join_eq local_ok_def distinct_update update_conv'
      simp del: map_of_eq_Some_iff split: if_splits)

lemma local_ok_leave: "local_ok c \<Longrightarrow> local_ok (local_leave info c)"
  by (auto simp: local_leave_eq Let_def local_ok_def distinct_delete delete_conv'
      simp del: map_of_eq_Some_iff split: if_splits)

interpretation lc: channel_state local_ok local_join local_leave local_members lc_log
  "\<lambda>c. \<not> live (lc_present c)"
proof unfold_locales
  fix c info j
  assume ok: "local_ok c"
  show "local_ok (fst (local_join info c))" using ok by (rule local_ok_join)
  show "local_ok (local_leave info c)" using ok by (rule local_ok_leave)
  show "snd (local_join info c) = None \<longleftrightarrow> \<not> live (lc_present c)"
    by (simp add: local_join_eq)
  show "\<not> live (lc_present c) \<Longrightarrow> fst (local_join info c) = c"
    by (simp add: local_join_eq)
  show "\<not> \<not> live (lc_present c) \<Longrightarrow> set (local_members (fst (local_join info c))) =
      insert info {i \<in> set (local_members c). ci_client_id i \<noteq> ci_client_id info}"
    using members_iff [OF ok] members_iff [OF local_ok_join [OF ok, of info]]
    by (auto simp: local_join_eq update_conv' set_eq_iff split: if_splits)
  show "\<not> \<not> live (lc_present c) \<Longrightarrow> lc_log (fst (local_join info c)) =
      lc_log c @ [event_joined (ci_client_id info) (ci_name info) (ci_source_id info)]"
    by (simp add: local_join_eq)
  show "snd (local_join info c) = Some j \<Longrightarrow> updates j = length (lc_log c) \<and> jr_info j = info"
    by (auto simp: local_join_eq split: if_splits)
  show "\<not> \<not> live (lc_present c) \<Longrightarrow> \<not> \<not> live (lc_present (fst (local_join info c)))"
    by (simp add: local_join_eq)
  show "set (local_members (local_leave info c)) =
      {i \<in> set (local_members c). ci_client_id i \<noteq> ci_client_id info}"
    using members_iff [OF ok] members_iff [OF local_ok_leave [OF ok, of info]]
    by (auto simp: local_leave_eq Let_def delete_conv' set_eq_iff)
  show "lc_log (local_leave info c) =
      lc_log c @ [event_left (ci_client_id info) (ci_name info) (ci_source_id info)]"
    by (simp add: local_leave_eq Let_def)
  show "(\<not> live (lc_present (local_leave info c))) = (local_members (local_leave info c) = [])"
    by (simp add: local_leave_eq Let_def local_members_def present_list_def)
  show "\<not> live (lc_present c) \<Longrightarrow> local_members c = []"
    using ok by (simp add: local_ok_def local_members_def present_list_def)
qed

section \<open>Histories keep the invariant\<close>

lemma local_ok_new [simp]: "local_ok (local_channel_new i)"
  by (simp add: local_ok_def local_channel_new_def locally_present_new_def)

lemma local_ok_handles [simp]:
  "local_ok (c\<lparr>lc_leaving := l\<rparr>) = local_ok c" "local_ok (c\<lparr>lc_handles := h\<rparr>) = local_ok c"
  by (simp_all add: local_ok_def)

lemma local_ok_step: "chan_step c c' \<Longrightarrow> local_ok c \<Longrightarrow> local_ok c'"
  by (erule chan_stepE)
    (auto simp: drop_handle_def run_leaving_def intro: local_ok_join local_ok_leave)

lemma members_leaving [simp]:
  "local_members (c\<lparr>lc_leaving := l\<rparr>) = local_members c"
  "local_members (c\<lparr>lc_handles := h\<rparr>) = local_members c"
  by (simp_all add: local_members_def)

lemma handles_kept [simp]:
  "lc_handles (local_leave info c) = lc_handles c" "lc_leaving (local_leave info c) = lc_leaving c"
  "lc_leaving (fst (local_join info c)) = lc_leaving c"
  by (simp_all add: local_leave_eq local_join_eq Let_def)

lemma log_grows: "chan_step c c' \<Longrightarrow> \<exists>evs. lc_log c' = lc_log c @ evs"
  by (erule chan_stepE)
    (auto simp: local_join_eq drop_handle_def run_leaving_def local_leave_eq Let_def)

lemma dead_stays:
  assumes "chan_step c c'" and "local_ok c" and "\<not> live (lc_present c)"
  shows "\<not> live (lc_present c')"
  using assms(1)
proof (rule chan_stepE)
  fix info assume "c' = fst (local_join info c)"
  then show ?thesis using lc.shut_stays_join assms(2,3) by blast
next
  fix j assume "c' = drop_handle j c"
  then show ?thesis using assms(3) by (simp add: drop_handle_def)
next
  fix info assume "c' = run_leaving info c"
  then show ?thesis
    using lc.shut_stays_leave [of "c\<lparr>lc_leaving := remove1 info (lc_leaving c)\<rparr>" info] assms(2,3)
    by (simp add: run_leaving_def)
qed

lemma dead_stays_long:
  "chan_step\<^sup>*\<^sup>* c c' \<Longrightarrow> local_ok c \<Longrightarrow> \<not> live (lc_present c) \<Longrightarrow>
     local_ok c' \<and> \<not> live (lc_present c')"
  by (induction rule: rtranclp_induct) (auto intro: local_ok_step dest: dead_stays)

text \<open>Where no client is there twice, the members are the clients of the handles still around.\<close>

lemma single_members:
  "chan_single c \<Longrightarrow> local_ok c \<and>
     distinct (map ci_client_id (map jr_info (lc_handles c) @ lc_leaving c)) \<and>
     set (local_members c) = jr_info ` set (lc_handles c) \<union> set (lc_leaving c) \<and>
     (lc_closed c \<longleftrightarrow> \<not> live (lc_present c))"
proof (induction rule: chan_single.induct)
  case (new i)
  then show ?case
    by (simp add: local_channel_new_def locally_present_new_def local_members_def
        present_list_def local_ok_def)
next
  case (join c info)
  show ?case
  proof (cases "live (lc_present c)")
    case True
    have "set (local_members (fst (local_join info c))) =
        insert info {i \<in> set (local_members c). ci_client_id i \<noteq> ci_client_id info}"
      using lc.join_members [of c info] join.IH True by simp
    also have "{i \<in> set (local_members c). ci_client_id i \<noteq> ci_client_id info} = set (local_members c)"
    proof -
      have "ci_client_id i \<noteq> ci_client_id info" if "i \<in> set (local_members c)" for i
        using join.hyps(2) join.IH that unfolding around_def by (metis image_eqI)
      then show ?thesis by blast
    qed
    finally show ?thesis
      using join True local_ok_join [of c info] by (auto simp: local_join_eq around_def)
  next
    case False
    then show ?thesis using join.IH by (simp add: local_join_eq)
  qed
next
  case (drop c j)
  obtain xs ys where hs: "lc_handles c = xs @ j # ys" "j \<notin> set xs"
    using split_list_first [OF drop.hyps(2)] by blast
  then have "lc_handles (drop_handle j c) = xs @ ys" "lc_leaving (drop_handle j c) = jr_info j # lc_leaving c"
    by (simp_all add: drop_handle_def remove1_append)
  then show ?case
    using drop.IH hs(1) by (auto simp: drop_handle_def)
next
  case (leave c info)
  let ?c = "c\<lparr>lc_leaving := remove1 info (lc_leaving c)\<rparr>"
  obtain xs ys where ls: "lc_leaving c = xs @ info # ys" "info \<notin> set xs"
    using split_list_first [OF leave.hyps(2)] by blast
  have lists: "lc_handles (run_leaving info c) = lc_handles c" "lc_leaving (run_leaving info c) = xs @ ys"
    using ls by (simp_all add: run_leaving_def remove1_append)
  have ok: "local_ok (run_leaving info c)"
    using leave.IH local_ok_leave [of ?c info] by (simp add: run_leaving_def)
  have closed: "lc_closed (run_leaving info c) \<longleftrightarrow> \<not> live (lc_present (run_leaving info c))"
    using leave.IH by (auto simp: run_leaving_def local_leave_eq Let_def local_ok_def)
  have "set (local_members (run_leaving info c)) =
      {i \<in> set (local_members c). ci_client_id i \<noteq> ci_client_id info}"
    using lc.leave_members [of ?c info] leave.IH by (simp add: run_leaving_def)
  also have "set (local_members c) = jr_info ` set (lc_handles c) \<union> set (xs @ info # ys)"
    using leave.IH ls by simp
  also have "{i \<in> jr_info ` set (lc_handles c) \<union> set (xs @ info # ys).
      ci_client_id i \<noteq> ci_client_id info} = jr_info ` set (lc_handles c) \<union> set (xs @ ys)"
  proof -
    have "distinct (map ci_client_id (map jr_info (lc_handles c) @ xs @ info # ys))"
      using leave.IH ls(1) by metis
    then have "ci_client_id info \<notin> ci_client_id ` (jr_info ` set (lc_handles c) \<union> set (xs @ ys))"
      by (auto simp: image_iff)
    then have "ci_client_id i \<noteq> ci_client_id info"
      if "i \<in> jr_info ` set (lc_handles c) \<union> set (xs @ ys)" for i
      using that by (metis image_eqI)
    then show ?thesis by auto
  qed
  finally have "set (local_members (run_leaving info c)) =
      jr_info ` set (lc_handles c) \<union> set (xs @ ys)" .
  moreover have "distinct (map ci_client_id (map jr_info (lc_handles c) @ xs @ ys))"
    using leave.IH ls(1) by auto
  ultimately show ?case
    using ok closed lists by simp
qed

section \<open>Properties\<close>

text \<open>
  C25: Membership. As long as no client joins again while an earlier handle of it is around, the
  member list of a channel is exactly the clients whose handles have not yet been left, and the
  channel is closed exactly when its last member has left.
\<close>

theorem members_are_open_handles:
  assumes "chan_single c"
  shows "set (local_members c) = jr_info ` set (lc_handles c) \<union> set (lc_leaving c) \<and>
    (lc_closed c \<longleftrightarrow> \<not> live (lc_present c)) \<and>
    (snd (local_join info c) = None \<longleftrightarrow> lc_closed c)"
  using single_members [OF assms] lc.join_refused [of c info] by blast

definition demo_ann :: client_info where
  "demo_ann = \<lparr>ci_client_id = 1, ci_source_id = 9, ci_name = ''ann''\<rparr>"

definition demo_chan :: local_channel where
  "demo_chan = fst (local_join demo_ann (local_channel_new 3))"

lemma demo_chan_single: "chan_single demo_chan"
  unfolding demo_chan_def
  by (rule chan_single.join [OF chan_single.new]) (simp add: around_def local_channel_new_def)

theorem members_are_open_handles_witness:
  "set (local_members demo_chan) =
      jr_info ` set (lc_handles demo_chan) \<union> set (lc_leaving demo_chan) \<and>
    (lc_closed demo_chan \<longleftrightarrow> \<not> live (lc_present demo_chan)) \<and>
    (snd (local_join demo_ann demo_chan) = None \<longleftrightarrow> lc_closed demo_chan)"
  by (rule members_are_open_handles [OF demo_chan_single])

text \<open>
  Closing is final. Once the last member has left a channel, whatever happens to it later, it
  has no members and every join is refused.
\<close>

theorem closed_channel_refuses_joins:
  assumes "local_ok c" and "\<not> live (lc_present c)" and "chan_step\<^sup>*\<^sup>* c c'"
  shows "local_members c' = [] \<and> local_join info c' = (c', None)"
  using dead_stays_long [OF assms(3,1,2)] lc.shut_empty [of c'] by (simp add: local_join_eq)

lemma demo_dead:
  "local_ok (local_leave demo_ann demo_chan)"
  "\<not> live (lc_present (local_leave demo_ann demo_chan))"
  unfolding demo_chan_def
  by (intro local_ok_leave local_ok_join local_ok_new)
    (simp add: local_leave_eq local_join_eq local_channel_new_def locally_present_new_def
      demo_ann_def Let_def)

theorem closed_channel_refuses_joins_witness:
  "local_members (local_leave demo_ann demo_chan) = [] \<and>
   local_join demo_ann (local_leave demo_ann demo_chan) = (local_leave demo_ann demo_chan, None)"
  by (rule closed_channel_refuses_joins [OF demo_dead]) simp

text \<open>
  Event delivery. A client that has joined sees, from then on and in order, every event of the
  channel, beginning with its own join and with nothing that happened before.
\<close>

theorem subscriber_sees_own_join_first:
  assumes "local_ok c" and "local_join info c = (c1, Some j)" and "chan_step\<^sup>*\<^sup>* c1 c2"
  shows "\<exists>evs. lc_log c2 = lc_log c @
      event_joined (ci_client_id info) (ci_name info) (ci_source_id info) # evs \<and>
    updates j = length (lc_log c) \<and>
    room_recv (lc_log c2) j = Some (j\<lparr>updates := Suc (updates j)\<rparr>,
      event_joined (ci_client_id info) (ci_name info) (ci_source_id info))"
proof -
  have "\<exists>evs. lc_log c2 = lc_log c1 @ evs"
    using assms(3) by (induction rule: rtranclp_induct) (auto dest: log_grows)
  then obtain evs where "lc_log c2 = lc_log c1 @ evs" by blast
  moreover have "lc_log c1 =
      lc_log c @ [event_joined (ci_client_id info) (ci_name info) (ci_source_id info)]"
    using assms(2) by (auto simp: local_join_eq split: if_splits)
  moreover have "updates j = length (lc_log c)"
    using lc.join_updates [OF assms(1), of info j] assms(2) by simp
  ultimately show ?thesis by (simp add: room_recv_def nth_append)
qed

theorem subscriber_sees_own_join_first_witness:
  "\<exists>evs. lc_log demo_chan = lc_log (local_channel_new 3) @ event_joined 1 ''ann'' 9 # evs \<and>
    0 = length (lc_log (local_channel_new 3)) \<and>
    room_recv (lc_log demo_chan) \<lparr>updates = 0, jr_info = demo_ann\<rparr> =
      Some (\<lparr>updates = 1, jr_info = demo_ann\<rparr>, event_joined 1 ''ann'' 9)"
proof -
  have "local_join demo_ann (local_channel_new 3) = (demo_chan, Some \<lparr>updates = 0, jr_info = demo_ann\<rparr>)"
    by (simp add: demo_chan_def local_join_eq local_channel_new_def locally_present_new_def)
  from subscriber_sees_own_join_first [OF local_ok_new this rtranclp.rtrancl_refl]
  show ?thesis by (simp add: demo_ann_def local_channel_new_def)
qed

text \<open>A client that joins a second time before its first handle has been left.\<close>

definition rejoined :: local_channel where
  "rejoined = (let c = fst (local_join demo_ann (local_channel_new 3));
                   c = fst (local_join demo_ann c);
                   c = drop_handle \<lparr>updates = 0, jr_info = demo_ann\<rparr> c
               in run_leaving demo_ann c)"

text \<open>
  Rejoining. When a client joins again before the task of its earlier handle has left, that
  task removes the new membership: the client still holds the new handle, but it is no member,
  and with no other member the channel is closed under it.
\<close>

theorem rejoin_is_undone_by_late_leave:
  "lc_handles rejoined = [\<lparr>updates = 1, jr_info = demo_ann\<rparr>] \<and> local_members rejoined = [] \<and>
   lc_closed rejoined"
  by (simp add: rejoined_def Let_def local_join_eq local_channel_new_def locally_present_new_def
      drop_handle_def run_leaving_def local_leave_eq local_members_def present_list_def demo_ann_def)

end
