(* ===== verification/Net_Addr.thy ===== *)
theory Net_Addr
  imports Voices_Prelude
begin

unbundle bit_operations_syntax

text \<open>
  Socket addresses as the standard library has them, and the address comparison of
  \<open>Conn::same_addr\<close> (\<open>server/voice/core/src/channel/mod.rs\<close>) that guards every datagram.
\<close>

section \<open>Addresses\<close>

datatype ip_addr = V4 "32 word" | V6 "128 word"

text \<open>A \<open>SocketAddrV6\<close> also has a flow label and a scope id, which a comparison of \<open>ip()\<close> ignores.\<close>

datatype socket_addr =
    SocketV4 "32 word" u16
  | SocketV6 "128 word" u16 u32 u32

fun sa_ip :: "socket_addr \<Rightarrow> ip_addr" where
  "sa_ip (SocketV4 a p) = V4 a"
| "sa_ip (SocketV6 a p fl sc) = V6 a"

fun sa_port :: "socket_addr \<Rightarrow> u16" where
  "sa_port (SocketV4 a p) = p"
| "sa_port (SocketV6 a p fl sc) = p"

text \<open>\<open>SocketAddr::from((ip, port))\<close>.\<close>

fun sa_from :: "ip_addr \<Rightarrow> u16 \<Rightarrow> socket_addr" where
  "sa_from (V4 a) p = SocketV4 a p"
| "sa_from (V6 a) p = SocketV6 a p 0 0"

fun is_unspecified :: "ip_addr \<Rightarrow> bool" where
  "is_unspecified (V4 a) = (a = 0)"
| "is_unspecified (V6 a) = (a = 0)"

text \<open>\<open>Ipv4Addr::to_ipv6_mapped\<close>: \<open>::ffff:a.b.c.d\<close>.\<close>

definition to_ipv6_mapped :: "32 word \<Rightarrow> 128 word" where
  "to_ipv6_mapped a = push_bit 32 0xFFFF OR ucast a"

section \<open>The comparison of the forwarder\<close>

definition same_addr :: "socket_addr \<Rightarrow> socket_addr \<Rightarrow> bool" where
  "same_addr l r \<longleftrightarrow> sa_port l = sa_port r \<and>
     (case (sa_ip l, sa_ip r) of
        (V4 a, V4 b) \<Rightarrow> a = b
      | (V4 a, V6 b) \<Rightarrow> to_ipv6_mapped a = b
      | (V6 a, V4 b) \<Rightarrow> a = to_ipv6_mapped b
      | (V6 a, V6 b) \<Rightarrow> a = b)"

text \<open>The address every representation of one endpoint normalises to.\<close>

fun canonical_ip :: "ip_addr \<Rightarrow> 128 word" where
  "canonical_ip (V4 a) = to_ipv6_mapped a"
| "canonical_ip (V6 a) = a"

lemma to_ipv6_mapped_inj: "to_ipv6_mapped a = to_ipv6_mapped b \<longleftrightarrow> a = b"
proof
  assume eq: "to_ipv6_mapped a = to_ipv6_mapped b"
  have "bit a n = bit b n" if "n < 32" for n
  proof -
    have "bit (to_ipv6_mapped a) n = bit (to_ipv6_mapped b) n" using eq by simp
    moreover have "\<not> bit (push_bit 32 (0xFFFF :: 128 word)) n"
      using that by (simp only: bit_push_bit_iff) simp
    ultimately show ?thesis
      using that by (simp only: to_ipv6_mapped_def bit_or_iff) (simp add: bit_simps)
  qed
  then show "a = b" by (intro bit_word_eqI) simp
qed simp

lemma same_addr_canonical:
  "same_addr l r \<longleftrightarrow>
     sa_port l = sa_port r \<and> canonical_ip (sa_ip l) = canonical_ip (sa_ip r)"
  by (auto simp: same_addr_def to_ipv6_mapped_inj split: ip_addr.splits)

lemma same_addr_refl [simp]: "same_addr a a"
  by (simp add: same_addr_canonical)

lemma sa_from_ip [simp]: "sa_ip (sa_from ip p) = ip"
  by (cases ip) auto

lemma sa_from_port [simp]: "sa_port (sa_from ip p) = p"
  by (cases ip) auto

end
