(* ===== verification/Ws_Stream.thy ===== *)
theory Ws_Stream
  imports Net_Addr
begin

text \<open>
  The control connection between client and gateway: the messages of
  \<open>server/ws-proto/src/lib.rs\<close>, the task that serves a WebSocket in the gateway
  (\<open>ControlStreamPriv\<close> in \<open>server/gateway/src/server/ws.rs\<close>) and its counterpart in the client
  (\<open>server/ws-proto/src/client.rs\<close>). JSON decoding and encoding are serde's: decoding is a
  parameter, and what is sent is kept as the event itself.
\<close>

section \<open>Messages\<close>

record init_msg =
  user_id :: uuid
  init_name :: string

record server_announce =
  sa_msg_ip :: ip_addr
  sa_msg_port :: u16
  sa_source_id :: u32

record client_announce =
  ca_ip :: ip_addr
  ca_port :: u16

record keepalive =
  sent_at :: u64

record present_msg =
  pm_user :: string
  pm_source_id :: u32

record ready_msg =
  rd_id :: uuid
  rd_src_id :: u32
  rd_present :: "present_msg list"
  rd_crypt_key :: string

datatype client_event =
    CeInit init_msg
  | CeKeepalive keepalive
  | CeJoin uuid
  | CeUdpAnnounce client_announce
  | CeLeave
  | CeDisconnect

datatype server_event =
    SeInit uuid
  | SeKeepalive keepalive
  | SeReady ready_msg
  | SeJoined present_msg
  | SeDisconnected
  | SeLeft present_msg
  | SeUdpAnnounce server_announce
  | SeJoinError uuid

text \<open>A WebSocket message; text is kept as its UTF-8 bytes, a close frame as its reason.\<close>

datatype ws_message =
    WsText "u8 list"
  | WsBinary "u8 list"
  | WsPing "u8 list"
  | WsPong "u8 list"
  | WsClose "u8 list option"

fun ws_bytes :: "ws_message \<Rightarrow> u8 list" where
  "ws_bytes (WsText s) = s"
| "ws_bytes (WsBinary d) = d"
| "ws_bytes (WsPing d) = d"
| "ws_bytes (WsPong d) = d"
| "ws_bytes (WsClose None) = []"
| "ws_bytes (WsClose (Some reason)) = reason"

definition decode_json :: "(u8 list \<Rightarrow> 'e option) \<Rightarrow> ws_message \<Rightarrow> 'e option" where
  "decode_json from_slice m = from_slice (ws_bytes m)"

section \<open>The gateway's task\<close>

datatype send_result = SendOk | SendTimeout | SendError

datatype ws_error =
    WsSendTimeout
  | StreamClosed
  | StreamError
  | DeserError ws_message
  | NoReceiver

datatype ws_status = WsRunning | WsClosed | WsFailed ws_error

text \<open>
  \<open>wt_fwd\<close> is everything passed on to the session, \<open>wt_back\<close> the queue of the session's events,
  \<open>wt_sent\<close> everything sent on the WebSocket; \<open>wt_session\<close> says that the session still holds
  its ends of both channels.
\<close>

record ws_task =
  wt_last :: instant
  wt_fwd :: "client_event list"
  wt_back :: "server_event list"
  wt_sent :: "server_event list"
  wt_session :: bool
  wt_status :: ws_status

definition WS_KEEPALIVE :: instant where
  "WS_KEEPALIVE = 2500"

definition ws_task_new :: "instant \<Rightarrow> ws_task" where
  "ws_task_new now = \<lparr>wt_last = now, wt_fwd = [], wt_back = [], wt_sent = [],
     wt_session = True, wt_status = WsRunning\<rparr>"

definition send_json :: "send_result \<Rightarrow> server_event \<Rightarrow> ws_task \<Rightarrow> ws_task" where
  "send_json sr e t =
     (case sr of
        SendOk \<Rightarrow> t\<lparr>wt_sent := wt_sent t @ [e]\<rparr>
      | SendTimeout \<Rightarrow> t\<lparr>wt_status := WsFailed WsSendTimeout\<rparr>
      | SendError \<Rightarrow> t\<lparr>wt_status := WsFailed StreamError\<rparr>)"

text \<open>\<open>None\<close> is \<open>ControlFlow::Stop\<close>; an error shows in the status.\<close>

definition handle_incoming_message ::
  "(u8 list \<Rightarrow> client_event option) \<Rightarrow> send_result \<Rightarrow> ws_message \<Rightarrow> ws_task \<Rightarrow> ws_task option" where
  "handle_incoming_message from_slice sr m t =
     (case m of
        WsClose reason \<Rightarrow> None
      | _ \<Rightarrow>
          (case decode_json from_slice m of
             None \<Rightarrow> Some (t\<lparr>wt_status := WsFailed (DeserError m)\<rparr>)
           | Some (CeKeepalive ka) \<Rightarrow> Some (send_json sr (SeKeepalive ka) t)
           | Some evt \<Rightarrow>
               Some (if wt_session t then t\<lparr>wt_fwd := wt_fwd t @ [evt]\<rparr>
                     else t\<lparr>wt_status := WsFailed NoReceiver\<rparr>)))"

datatype ws_event =
    WsRecv "ws_message option"       \<comment> \<open>\<open>None\<close> is the end of the stream\<close>
  | WsRecvError
  | WsBackMsg                        \<comment> \<open>\<open>back.recv()\<close>\<close>
  | WsDeadline
  | WsSessionSends server_event      \<comment> \<open>the session puts an event in the queue\<close>
  | WsSessionDrops                   \<comment> \<open>the session ends\<close>

text \<open>Whether the branch of the task's \<open>select!\<close> that an event stands for can run.\<close>

fun ws_ready :: "instant \<Rightarrow> ws_event \<Rightarrow> ws_task \<Rightarrow> bool" where
  "ws_ready now WsBackMsg t = (wt_back t \<noteq> [] \<or> \<not> wt_session t)"
| "ws_ready now WsDeadline t = (wt_last t + WS_KEEPALIVE \<le> now)"
| "ws_ready now (WsSessionSends e) t = wt_session t"
| "ws_ready now _ t = True"

definition ws_recv ::
  "(u8 list \<Rightarrow> client_event option) \<Rightarrow> instant \<Rightarrow> send_result \<Rightarrow> ws_message \<Rightarrow> ws_task \<Rightarrow> ws_task"
  where
  "ws_recv from_slice now sr m t =
     (case handle_incoming_message from_slice sr m t of
        None \<Rightarrow> t\<lparr>wt_status := WsClosed\<rparr>
      | Some t' \<Rightarrow> (if wt_status t' = WsRunning then t'\<lparr>wt_last := now\<rparr> else t'))"

text \<open>One iteration of \<open>run\<close>, and the session's own steps.\<close>

definition ws_step ::
  "(u8 list \<Rightarrow> client_event option) \<Rightarrow> instant \<Rightarrow> send_result \<Rightarrow> ws_event \<Rightarrow> ws_task \<Rightarrow> ws_task"
  where
  "ws_step from_slice now sr ev t =
     (if wt_status t \<noteq> WsRunning \<or> \<not> ws_ready now ev t then t
      else
        (case ev of
           WsRecv None \<Rightarrow> t\<lparr>wt_status := WsFailed StreamClosed\<rparr>
         | WsRecv (Some m) \<Rightarrow> ws_recv from_slice now sr m t
         | WsRecvError \<Rightarrow> t\<lparr>wt_status := WsFailed StreamError\<rparr>
         | WsBackMsg \<Rightarrow>
             (case wt_back t of
                [] \<Rightarrow> t
              | e # es \<Rightarrow> send_json sr e (t\<lparr>wt_back := es\<rparr>))
         | WsDeadline \<Rightarrow> t\<lparr>wt_status := WsClosed\<rparr>
         | WsSessionSends e \<Rightarrow> t\<lparr>wt_back := wt_back t @ [e]\<rparr>
         | WsSessionDrops \<Rightarrow> t\<lparr>wt_session := False\<rparr>))"

type_synonym ws_trace = "(instant \<times> send_result \<times> ws_event) list"

fun ws_run :: "(u8 list \<Rightarrow> client_event option) \<Rightarrow> ws_task \<Rightarrow> ws_trace \<Rightarrow> ws_task" where
  "ws_run from_slice t [] = t"
| "ws_run from_slice t ((now, sr, ev) # es) = ws_run from_slice (ws_step from_slice now sr ev t) es"

section \<open>The client's task\<close>

datatype client_ws_status = CwRunning | CwDone | CwFailed ws_error | CwPanicked

record client_ws =
  cw_last :: instant
  cw_fwd :: "server_event list"
  cw_back :: "client_event list"
  cw_sent :: "(instant \<times> client_event) list"
  cw_owner :: bool
  cw_status :: client_ws_status

definition CLIENT_KEEPALIVE :: instant where
  "CLIENT_KEEPALIVE = 2000"

definition client_ws_new :: "instant \<Rightarrow> client_ws" where
  "client_ws_new now = \<lparr>cw_last = now, cw_fwd = [], cw_back = [], cw_sent = [],
     cw_owner = True, cw_status = CwRunning\<rparr>"

text \<open>\<open>Keepalive::diff\<close>: subtracting a time that lies ahead panics.\<close>

definition keepalive_diff :: "instant \<Rightarrow> keepalive \<Rightarrow> instant outcome" where
  "keepalive_diff now ka =
     (if unat (sent_at ka) \<le> now then Done (now - unat (sent_at ka)) else Panicked)"

definition client_send :: "send_result \<Rightarrow> instant \<Rightarrow> client_event \<Rightarrow> client_ws \<Rightarrow> client_ws" where
  "client_send sr now e t =
     (case sr of
        SendOk \<Rightarrow> t\<lparr>cw_sent := cw_sent t @ [(now, e)], cw_last := now\<rparr>
      | SendTimeout \<Rightarrow> t\<lparr>cw_status := CwFailed WsSendTimeout\<rparr>
      | SendError \<Rightarrow> t\<lparr>cw_status := CwFailed StreamError\<rparr>)"

definition client_close :: "send_result \<Rightarrow> client_ws \<Rightarrow> client_ws" where
  "client_close sr t =
     (case sr of
        SendOk \<Rightarrow> t\<lparr>cw_status := CwDone\<rparr>
      | SendTimeout \<Rightarrow> t\<lparr>cw_status := CwFailed WsSendTimeout\<rparr>
      | SendError \<Rightarrow> t\<lparr>cw_status := CwFailed StreamError\<rparr>)"

definition client_recv ::
  "(u8 list \<Rightarrow> server_event option) \<Rightarrow> instant \<Rightarrow> send_result \<Rightarrow> ws_message \<Rightarrow> client_ws \<Rightarrow> client_ws"
  where
  "client_recv from_slice now sr m t =
     (case m of
        WsClose reason \<Rightarrow> client_close sr t
      | _ \<Rightarrow>
          (case decode_json from_slice m of
             None \<Rightarrow> t\<lparr>cw_status := CwFailed (DeserError m)\<rparr>
           | Some (SeKeepalive ka) \<Rightarrow>
               (case keepalive_diff now ka of Done d \<Rightarrow> t | Panicked \<Rightarrow> t\<lparr>cw_status := CwPanicked\<rparr>)
           | Some evt \<Rightarrow>
               (if cw_owner t then t\<lparr>cw_fwd := cw_fwd t @ [evt]\<rparr>
                else t\<lparr>cw_status := CwFailed NoReceiver\<rparr>)))"

datatype client_ws_event =
    CwRecv "ws_message option"
  | CwRecvError
  | CwBack
  | CwStop
  | CwDeadline
  | CwOwnerSends client_event
  | CwOwnerDrops

fun client_ready :: "instant \<Rightarrow> client_ws_event \<Rightarrow> client_ws \<Rightarrow> bool" where
  "client_ready now CwBack t = (cw_back t \<noteq> [] \<or> \<not> cw_owner t)"
| "client_ready now CwDeadline t = (cw_last t + CLIENT_KEEPALIVE \<le> now)"
| "client_ready now (CwOwnerSends e) t = cw_owner t"
| "client_ready now _ t = True"

definition client_step ::
  "(u8 list \<Rightarrow> server_event option) \<Rightarrow> instant \<Rightarrow> send_result \<Rightarrow> client_ws_event \<Rightarrow> client_ws \<Rightarrow> client_ws"
  where
  "client_step from_slice now sr ev t =
     (if cw_status t \<noteq> CwRunning \<or> \<not> client_ready now ev t then t
      else
        (case ev of
           CwRecv None \<Rightarrow> t\<lparr>cw_status := CwFailed StreamClosed\<rparr>
         | CwRecv (Some m) \<Rightarrow> client_recv from_slice now sr m t
         | CwRecvError \<Rightarrow> t\<lparr>cw_status := CwFailed StreamError\<rparr>
         | CwBack \<Rightarrow>
             (case cw_back t of
                [] \<Rightarrow> client_close sr t
              | e # es \<Rightarrow> client_send sr now e (t\<lparr>cw_back := es\<rparr>))
         | CwStop \<Rightarrow> client_close sr t
         | CwDeadline \<Rightarrow> client_send sr now (CeKeepalive \<lparr>sent_at = of_nat now\<rparr>) t
         | CwOwnerSends e \<Rightarrow> t\<lparr>cw_back := cw_back t @ [e]\<rparr>
         | CwOwnerDrops \<Rightarrow> t\<lparr>cw_owner := False\<rparr>))"

fun client_run :: "(u8 list \<Rightarrow> server_event option) \<Rightarrow> client_ws \<Rightarrow>
    (instant \<times> send_result \<times> client_ws_event) list \<Rightarrow> client_ws" where
  "client_run from_slice t [] = t"
| "client_run from_slice t ((now, sr, ev) # es) =
     client_run from_slice (client_step from_slice now sr ev t) es"

section \<open>What a trace carries\<close>

fun is_keepalive :: "client_event \<Rightarrow> bool" where
  "is_keepalive (CeKeepalive ka) = True"
| "is_keepalive _ = False"

fun is_answer :: "server_event \<Rightarrow> bool" where
  "is_answer (SeKeepalive ka) = True"
| "is_answer _ = False"

text \<open>The events the client sent in a trace, and those the session did.\<close>

definition received :: "(u8 list \<Rightarrow> client_event option) \<Rightarrow> ws_trace \<Rightarrow> client_event list" where
  "received from_slice es = List.map_filter
     (\<lambda>e. case snd (snd e) of WsRecv (Some m) \<Rightarrow> decode_json from_slice m | _ \<Rightarrow> None) es"

definition pushed :: "ws_trace \<Rightarrow> server_event list" where
  "pushed es = List.map_filter
     (\<lambda>e. case snd (snd e) of WsSessionSends v \<Rightarrow> Some v | _ \<Rightarrow> None) es"

definition answers :: "client_event list \<Rightarrow> server_event list" where
  "answers ces = List.map_filter
     (\<lambda>c. case c of CeKeepalive ka \<Rightarrow> Some (SeKeepalive ka) | _ \<Rightarrow> None) ces"

lemma received_simps [simp]:
  "received from_slice [] = []"
  "received from_slice ((now, sr, ev) # es) =
     (case ev of WsRecv (Some m) \<Rightarrow>
        (case decode_json from_slice m of Some c \<Rightarrow> [c] | None \<Rightarrow> []) | _ \<Rightarrow> []) @ received from_slice es"
  by (auto simp: received_def map_filter_def split: ws_event.splits option.splits)

lemma pushed_simps [simp]:
  "pushed [] = []"
  "pushed ((now, sr, ev) # es) = (case ev of WsSessionSends v \<Rightarrow> [v] | _ \<Rightarrow> []) @ pushed es"
  by (auto simp: pushed_def map_filter_def split: ws_event.splits)

lemma answers_simps [simp]:
  "answers [] = []" "answers (c # cs) = (case c of CeKeepalive ka \<Rightarrow> [SeKeepalive ka] | _ \<Rightarrow> []) @ answers cs"
  "answers (xs @ ys) = answers xs @ answers ys"
  by (auto simp: answers_def map_filter_def split: client_event.splits)

lemma ws_stopped: "wt_status t \<noteq> WsRunning \<Longrightarrow> ws_run from_slice t es = t"
  by (induction from_slice t es rule: ws_run.induct) (auto simp: ws_step_def)

lemma run_running: "wt_status (ws_run from_slice t es) = WsRunning \<Longrightarrow> wt_status t = WsRunning"
  using ws_stopped [of t from_slice es] by fastforce

lemma step_running:
  "wt_status (ws_step from_slice now sr ev t) = WsRunning \<Longrightarrow> wt_status t = WsRunning"
  using run_running [of from_slice t "[(now, sr, ev)]"] by simp

lemma session_gone: "\<not> wt_session t \<Longrightarrow> \<not> wt_session (ws_step from_slice now sr ev t)"
  by (auto simp: ws_step_def ws_recv_def handle_incoming_message_def send_json_def
      split: ws_event.splits option.splits ws_message.splits client_event.splits
        send_result.splits list.splits)

lemma session_gone_run: "\<not> wt_session t \<Longrightarrow> \<not> wt_session (ws_run from_slice t es)"
  by (induction from_slice t es rule: ws_run.induct) (auto simp: session_gone)

text \<open>One step of a task that is still running with its session afterwards.\<close>

lemma recv_relays:
  assumes "wt_status t = WsRunning" and "wt_status (ws_recv from_slice now sr m t) = WsRunning"
    and "wt_session t"
  shows "\<exists>c. decode_json from_slice m = Some c \<and>
    wt_fwd (ws_recv from_slice now sr m t) = wt_fwd t @ (if is_keepalive c then [] else [c]) \<and>
    wt_sent (ws_recv from_slice now sr m t) = wt_sent t @ answers [c] \<and>
    wt_back (ws_recv from_slice now sr m t) = wt_back t \<and>
    wt_last (ws_recv from_slice now sr m t) = now"
proof -
  obtain t' where t': "handle_incoming_message from_slice sr m t = Some t'" "wt_status t' = WsRunning"
    using assms(2) by (auto simp: ws_recv_def split: option.splits if_splits)
  then obtain c where c: "decode_json from_slice m = Some c"
    by (auto simp: handle_incoming_message_def split: ws_message.splits option.splits)
  show ?thesis
    using t' c assms
    by (cases m; cases c; cases sr)
      (auto simp: ws_recv_def handle_incoming_message_def send_json_def split: if_splits)
qed

lemma step_relays:
  assumes "wt_status (ws_step from_slice now sr ev t) = WsRunning"
    and "wt_session (ws_step from_slice now sr ev t)" and "wt_status t = WsRunning"
  shows "wt_fwd (ws_step from_slice now sr ev t) =
       wt_fwd t @ filter (Not \<circ> is_keepalive) (received from_slice [(now, sr, ev)]) \<and>
     filter is_answer (wt_sent (ws_step from_slice now sr ev t) @ wt_back (ws_step from_slice now sr ev t)) =
       filter is_answer (wt_sent t) @ answers (received from_slice [(now, sr, ev)]) @
       filter is_answer (wt_back t @ pushed [(now, sr, ev)]) \<and>
     filter (Not \<circ> is_answer) (wt_sent (ws_step from_slice now sr ev t) @ wt_back (ws_step from_slice now sr ev t)) =
       filter (Not \<circ> is_answer) (wt_sent t @ wt_back t @ pushed [(now, sr, ev)])"
proof -
  have sess: "wt_session t" using assms(2) session_gone by blast
  show ?thesis
  proof (cases ev)
    case (WsRecv m)
    show ?thesis
    proof (cases m)
      case None
      then show ?thesis using assms WsRecv by (simp add: ws_step_def)
    next
      case (Some msg)
      then have step: "ws_step from_slice now sr ev t = ws_recv from_slice now sr msg t"
        using assms(3) WsRecv by (simp add: ws_step_def)
      from recv_relays [OF assms(3) _ sess, of from_slice now sr msg] assms(1) step
      obtain c where "decode_json from_slice msg = Some c"
          "wt_fwd (ws_recv from_slice now sr msg t) = wt_fwd t @ (if is_keepalive c then [] else [c])"
          "wt_sent (ws_recv from_slice now sr msg t) = wt_sent t @ answers [c]"
          "wt_back (ws_recv from_slice now sr msg t) = wt_back t" by auto
      then show ?thesis using WsRecv Some step by (cases c) auto
    qed
  next
    case WsBackMsg
    then show ?thesis
      using assms by (cases "wt_back t"; cases sr) (auto simp: ws_step_def send_json_def)
  qed (use assms sess in \<open>auto simp: ws_step_def split: if_splits\<close>)
qed

lemma received_Cons:
  "received from_slice (e # es) = received from_slice [e] @ received from_slice es"
  by (cases e) simp

lemma pushed_Cons: "pushed (e # es) = pushed [e] @ pushed es"
  by (cases e) simp

lemma answers_filter: "filter is_answer (answers cs) = answers cs"
  by (induction cs) (auto split: client_event.splits)

lemma run_relays:
  "wt_status (ws_run from_slice t es) = WsRunning \<Longrightarrow> wt_session (ws_run from_slice t es) \<Longrightarrow>
     filter is_answer (wt_back t @ pushed es) = [] \<Longrightarrow>
     wt_fwd (ws_run from_slice t es) =
       wt_fwd t @ filter (Not \<circ> is_keepalive) (received from_slice es) \<and>
     filter is_answer (wt_sent (ws_run from_slice t es)) =
       filter is_answer (wt_sent t) @ answers (received from_slice es) \<and>
     filter (Not \<circ> is_answer) (wt_sent (ws_run from_slice t es) @ wt_back (ws_run from_slice t es)) =
       filter (Not \<circ> is_answer) (wt_sent t @ wt_back t @ pushed es)"
proof (induction from_slice t es rule: ws_run.induct)
  case (2 from_slice t now sr ev es)
  let ?t = "ws_step from_slice now sr ev t"
  have run: "wt_status t = WsRunning" "wt_status ?t = WsRunning" "wt_session ?t"
    using 2(2,3) run_running [of from_slice ?t es] session_gone_run [of ?t from_slice es]
      step_running [of from_slice now sr ev t] by auto
  note step = step_relays [OF run(2,3,1)]
  have none: "filter is_answer (wt_back t) = []" "filter is_answer (pushed [(now, sr, ev)]) = []"
    "filter is_answer (pushed es) = []"
    using 2(4) by (auto simp: pushed_Cons [of "(now, sr, ev)" es] simp del: pushed_simps)
  have "filter is_answer (wt_back ?t) = []"
  proof -
    have "set (wt_back ?t) \<subseteq> set (wt_back t) \<union> set (pushed [(now, sr, ev)])"
      using run(1) by (cases ev)
        (auto simp: ws_step_def ws_recv_def handle_incoming_message_def send_json_def
          split: option.splits ws_message.splits client_event.splits send_result.splits
            list.splits if_splits)
    then show ?thesis using none(1,2) by (auto simp: filter_empty_conv)
  qed
  then have IH: "wt_fwd (ws_run from_slice ?t es) =
        wt_fwd ?t @ filter (Not \<circ> is_keepalive) (received from_slice es)"
      "filter is_answer (wt_sent (ws_run from_slice ?t es)) =
        filter is_answer (wt_sent ?t) @ answers (received from_slice es)"
      "filter (Not \<circ> is_answer) (wt_sent (ws_run from_slice ?t es) @ wt_back (ws_run from_slice ?t es)) =
        filter (Not \<circ> is_answer) (wt_sent ?t @ wt_back ?t) @ filter (Not \<circ> is_answer) (pushed es)"
    and bk: "filter is_answer (wt_back ?t) = []"
    using 2 none(3) by (simp_all add: o_def)
  have "filter is_answer (wt_sent ?t) =
      filter is_answer (wt_sent t) @ answers (received from_slice [(now, sr, ev)])"
    using step none(1,2) bk unfolding filter_append by simp
  moreover have "wt_fwd ?t = wt_fwd t @ filter (Not \<circ> is_keepalive) (received from_slice [(now, sr, ev)])"
    "filter (Not \<circ> is_answer) (wt_sent ?t @ wt_back ?t) =
       filter (Not \<circ> is_answer) (wt_sent t @ wt_back t @ pushed [(now, sr, ev)])"
    using step by blast+
  ultimately show ?case
    unfolding ws_run.simps received_Cons [of from_slice "(now, sr, ev)" es]
      pushed_Cons [of "(now, sr, ev)" es] IH
    by (simp add: o_def)
qed simp

text \<open>The time of the last message the gateway took from the client.\<close>

fun last_message :: "instant \<Rightarrow> ws_trace \<Rightarrow> instant" where
  "last_message at [] = at"
| "last_message at ((now, sr, WsRecv (Some m)) # es) = last_message now es"
| "last_message at (e # es) = last_message at es"

lemma step_last:
  "wt_status t = WsRunning \<Longrightarrow> wt_status (ws_step from_slice now sr ev t) = WsRunning \<Longrightarrow>
     wt_last (ws_step from_slice now sr ev t) = (case ev of WsRecv (Some m) \<Rightarrow> now | _ \<Rightarrow> wt_last t)"
  by (cases ev)
    (auto simp: ws_step_def ws_recv_def send_json_def split: option.splits list.splits send_result.splits
      if_splits)

lemma last_message_Cons:
  "last_message at ((now, sr, ev) # es) =
     last_message (case ev of WsRecv (Some m) \<Rightarrow> now | _ \<Rightarrow> at) es"
  by (cases "(at, (now, sr, ev) # es)" rule: last_message.cases) (auto split: option.splits)

lemma run_last:
  "wt_status (ws_run from_slice t es) = WsRunning \<Longrightarrow>
     wt_last (ws_run from_slice t es) = last_message (wt_last t) es"
proof (induction from_slice t es rule: ws_run.induct)
  case (2 from_slice t now sr ev es)
  let ?t = "ws_step from_slice now sr ev t"
  have run: "wt_status t = WsRunning" "wt_status ?t = WsRunning"
    using 2(2) run_running [of from_slice ?t es] step_running [of from_slice now sr ev t] by auto
  show ?case using 2 step_last [OF run] by (simp add: last_message_Cons del: last_message.simps)
qed simp

section \<open>The client's side\<close>

text \<open>
  A trace in which the timer of the client is served with little delay: nothing happens, and the time
  considered has not come, more than \<open>late\<close> after the timer has become due, or after the task last
  took the timer's branch, at \<open>q\<close>, when that was later.
\<close>

fun served :: "(u8 list \<Rightarrow> server_event option) \<Rightarrow> nat \<Rightarrow> instant \<Rightarrow> client_ws \<Rightarrow>
    (instant \<times> send_result \<times> client_ws_event) list \<Rightarrow> instant \<Rightarrow> bool" where
  "served from_slice late q t [] until = (until \<le> max (cw_last t + CLIENT_KEEPALIVE) q + late)"
| "served from_slice late q t ((now, sr, ev) # es) until =
     (now \<le> max (cw_last t + CLIENT_KEEPALIVE) q + late \<and>
      served from_slice late (if ev = CwDeadline then now else q)
        (client_step from_slice now sr ev t) es until)"

fun gaps_ok :: "nat \<Rightarrow> instant \<Rightarrow> instant list \<Rightarrow> bool" where
  "gaps_ok gap from [] = True"
| "gaps_ok gap from (x # xs) = (x \<le> from + gap \<and> gaps_ok gap x xs)"

lemma gaps_ok_snoc: "gaps_ok gap a (xs @ [x]) \<longleftrightarrow> gaps_ok gap a xs \<and> x \<le> last (a # xs) + gap"
  by (induction gap a xs rule: gaps_ok.induct) auto

lemma gaps_ok_nth:
  "gaps_ok gap a xs \<Longrightarrow> i < length xs \<Longrightarrow> xs ! i \<le> (a # xs) ! i + gap"
  by (induction gap a xs arbitrary: i rule: gaps_ok.induct) (auto simp: less_Suc_eq_0_disj)

lemma client_step_sent:
  assumes "cw_last t = last (at # map fst (cw_sent t))"
  shows "cw_last (client_step from_slice now sr ev t) =
      last (at # map fst (cw_sent (client_step from_slice now sr ev t))) \<and>
    (cw_sent (client_step from_slice now sr ev t) = cw_sent t \<or>
     (\<exists>e. cw_sent (client_step from_slice now sr ev t) = cw_sent t @ [(now, e)]))"
  using assms
  by (auto simp: client_step_def client_recv_def client_send_def client_close_def
      split: client_ws_event.splits option.splits ws_message.splits server_event.splits
        send_result.splits list.splits outcome.splits)

lemma client_stopped: "cw_status t \<noteq> CwRunning \<Longrightarrow> client_run from_slice t es = t"
  by (induction from_slice t es rule: client_run.induct) (auto simp: client_step_def)

lemma client_run_running: "cw_status (client_run from_slice t es) = CwRunning \<Longrightarrow> cw_status t = CwRunning"
  using client_stopped [of t from_slice es] by fastforce

text \<open>A client that goes on has sent a keep-alive when its timer was due and its branch was taken.\<close>

lemma client_deadline_sends:
  assumes "cw_status t = CwRunning" and "cw_status (client_step from_slice now sr CwDeadline t) = CwRunning"
  shows "now < cw_last (client_step from_slice now sr CwDeadline t) + CLIENT_KEEPALIVE"
  using assms
  by (cases sr) (auto simp: client_step_def client_send_def CLIENT_KEEPALIVE_def)

lemma client_run_gaps:
  "cw_status (client_run from_slice t es) = CwRunning \<Longrightarrow> served from_slice late q t es until \<Longrightarrow>
     sorted (b # map fst es) \<Longrightarrow> cw_last t \<le> b \<Longrightarrow> q \<le> cw_last t + CLIENT_KEEPALIVE \<Longrightarrow>
     cw_last t = last (at # map fst (cw_sent t)) \<Longrightarrow>
     gaps_ok (CLIENT_KEEPALIVE + late) at (map fst (cw_sent t)) \<Longrightarrow>
     gaps_ok (CLIENT_KEEPALIVE + late) at (map fst (cw_sent (client_run from_slice t es))) \<and>
     cw_last (client_run from_slice t es) = last (at # map fst (cw_sent (client_run from_slice t es))) \<and>
     until \<le> cw_last (client_run from_slice t es) + CLIENT_KEEPALIVE + late"
proof (induction from_slice t es arbitrary: q b rule: client_run.induct)
  case (2 from_slice t now sr ev es)
  let ?t = "client_step from_slice now sr ev t" and ?q = "if ev = CwDeadline then now else q"
  have live: "cw_status t = CwRunning" "cw_status ?t = CwRunning"
    using 2(2) client_run_running [of from_slice ?t es]
      client_run_running [of from_slice t "[(now, sr, ev)]"] by simp_all
  note st = client_step_sent [OF 2(7), of from_slice now sr ev]
  have now: "cw_last t \<le> now" "now \<le> cw_last t + CLIENT_KEEPALIVE + late" using 2(3-6) by auto
  have gaps: "gaps_ok (CLIENT_KEEPALIVE + late) at (map fst (cw_sent ?t))"
    using st now 2(7,8) gaps_ok_snoc [of "CLIENT_KEEPALIVE + late" at "map fst (cw_sent t)" now]
    by (auto simp: add.assoc)
  have later: "cw_last t \<le> cw_last ?t" "cw_last ?t \<le> now" using st now 2(7) by auto
  have "?q \<le> cw_last ?t + CLIENT_KEEPALIVE"
    using client_deadline_sends [OF live(1), of from_slice now sr] live(2) later(1) 2(6)
    by (cases "ev = CwDeadline") auto
  then show ?case
    using "2.IH" [of ?q now] 2(2-4) st later gaps by simp
qed simp

text \<open>What the gateway hears, and when; and how it comes about from what the client has sent.\<close>

definition heard_at :: "ws_trace \<Rightarrow> (instant \<times> ws_message) list" where
  "heard_at es = List.map_filter
     (\<lambda>e. case snd (snd e) of WsRecv (Some m) \<Rightarrow> Some (fst e, m) | _ \<Rightarrow> None) es"

lemma heard_at_simps [simp]:
  "heard_at [] = []"
  "heard_at ((now, sr, ev) # es) = (case ev of WsRecv (Some m) \<Rightarrow> [(now, m)] | _ \<Rightarrow> []) @ heard_at es"
  by (auto simp: heard_at_def map_filter_def split: ws_event.splits option.splits)

lemma last_message_heard: "last_message at es = last (at # map fst (heard_at es))"
  by (induction at es rule: last_message.induct) auto

definition delivered_within ::
  "(u8 list \<Rightarrow> client_event option) \<Rightarrow> nat \<Rightarrow> instant \<Rightarrow> (instant \<times> client_event) list \<Rightarrow>
     (instant \<times> ws_message) list \<Rightarrow> bool" where
  "delivered_within from_slice delay now sent heard \<longleftrightarrow> length heard \<le> length sent \<and>
     (\<forall>i < length heard. fst (sent ! i) \<le> fst (heard ! i) \<and>
        decode_json from_slice (snd (heard ! i)) = Some (snd (sent ! i))) \<and>
     (\<forall>i < length sent. length heard \<le> i \<longrightarrow> now \<le> fst (sent ! i) + delay)"

lemma last_heard_is_recent:
  assumes gaps: "gaps_ok gap ct (map fst sent)" and now: "now \<le> last (ct # map fst sent) + gap"
    and net: "delivered_within from_slice delay now sent heard" and ct: "ct \<le> at + ahead"
  shows "now \<le> last (at # map fst heard) + gap + delay + ahead"
proof -
  let ?k = "length heard"
  have k: "?k \<le> length sent" using net by (simp add: delivered_within_def)
  have before: "(ct # map fst sent) ! ?k \<le> last (at # map fst heard) + ahead"
  proof (cases heard rule: rev_cases)
    case Nil
    then show ?thesis using ct by simp
  next
    case (snoc xs x)
    then have "fst (sent ! length xs) \<le> fst x" "length xs < length sent"
      using net k by (auto simp: delivered_within_def dest!: spec [of _ "length xs"])
    then show ?thesis using snoc by simp
  qed
  show ?thesis
  proof (cases "?k = length sent")
    case True
    have "last (ct # map fst sent) = (ct # map fst sent) ! ?k"
      using True last_conv_nth [of "ct # map fst sent"] by simp
    then show ?thesis using before now by simp
  next
    case False
    then have "now \<le> fst (sent ! ?k) + delay" "fst (sent ! ?k) \<le> (ct # map fst sent) ! ?k + gap"
      using net k gaps_ok_nth [OF gaps, of ?k] by (simp_all add: delivered_within_def)
    then show ?thesis using before by simp
  qed
qed

section \<open>Properties\<close>

text \<open>
  C26: The gateway's stream task. As long as it runs with its session, it has passed on to the
  session every message of the client in order except keep-alives, answered every keep-alive
  with its own time stamp in order, and sent or still holds in order every event of the session,
  losing and inventing none.
\<close>

theorem stream_relays_in_order:
  assumes "wt_status (ws_run from_slice (ws_task_new at) es) = WsRunning"
    and "wt_session (ws_run from_slice (ws_task_new at) es)"
    and "filter is_answer (pushed es) = []"
  shows "wt_fwd (ws_run from_slice (ws_task_new at) es) =
      filter (Not \<circ> is_keepalive) (received from_slice es) \<and>
    filter is_answer (wt_sent (ws_run from_slice (ws_task_new at) es)) =
      answers (received from_slice es) \<and>
    filter (Not \<circ> is_answer) (wt_sent (ws_run from_slice (ws_task_new at) es) @
      wt_back (ws_run from_slice (ws_task_new at) es)) = filter (Not \<circ> is_answer) (pushed es)"
  using run_relays [OF assms(1,2)] assms(3) by (simp add: ws_task_new_def)

definition demo_decode :: "u8 list \<Rightarrow> client_event option" where
  "demo_decode bs = (if bs = [1] then Some (CeKeepalive \<lparr>sent_at = 7\<rparr>)
     else if bs = [2] then Some CeLeave else None)"

definition demo_ws :: ws_trace where
  "demo_ws = [(10, SendOk, WsRecv (Some (WsText [1]))), (20, SendOk, WsSessionSends SeDisconnected),
     (30, SendOk, WsBackMsg), (40, SendOk, WsRecv (Some (WsBinary [2])))]"

lemma demo_ws_run:
  "ws_run demo_decode (ws_task_new 0) demo_ws =
     \<lparr>wt_last = 40, wt_fwd = [CeLeave], wt_back = [], wt_sent = [SeKeepalive \<lparr>sent_at = 7\<rparr>, SeDisconnected],
      wt_session = True, wt_status = WsRunning\<rparr>"
  by (simp add: demo_ws_def ws_task_new_def ws_step_def ws_recv_def handle_incoming_message_def
      send_json_def decode_json_def demo_decode_def)

theorem stream_relays_in_order_witness:
  "wt_fwd (ws_run demo_decode (ws_task_new 0) demo_ws) =
      filter (Not \<circ> is_keepalive) (received demo_decode demo_ws) \<and>
    filter is_answer (wt_sent (ws_run demo_decode (ws_task_new 0) demo_ws)) =
      answers (received demo_decode demo_ws) \<and>
    filter (Not \<circ> is_answer) (wt_sent (ws_run demo_decode (ws_task_new 0) demo_ws) @
      wt_back (ws_run demo_decode (ws_task_new 0) demo_ws)) = filter (Not \<circ> is_answer) (pushed demo_ws)"
proof (rule stream_relays_in_order)
  show "filter is_answer (pushed demo_ws) = []" by (simp add: demo_ws_def)
qed (simp_all add: demo_ws_run)

text \<open>
  Silence closes. The gateway closes a control connection exactly when 2.5 seconds have passed
  since the last message it took from the client; what it sends itself does not count.
\<close>

theorem silence_closes_stream:
  assumes "wt_status (ws_run from_slice (ws_task_new at) es) = WsRunning"
  shows "wt_status (ws_step from_slice now sr WsDeadline (ws_run from_slice (ws_task_new at) es)) = WsClosed
    \<longleftrightarrow> last_message at es + 2500 \<le> now"
  using run_last [OF assms] assms by (simp add: ws_step_def ws_task_new_def WS_KEEPALIVE_def)

theorem silence_closes_stream_witness:
  "wt_status (ws_step demo_decode 2540 SendOk WsDeadline
      (ws_run demo_decode (ws_task_new 0) demo_ws)) = WsClosed \<longleftrightarrow> last_message 0 demo_ws + 2500 \<le> 2540"
  by (rule silence_closes_stream) (simp add: demo_ws_run)

text \<open>
  C32: A client that is alive is not cut off. As long as the client's task runs and takes its timer's
  branch at most \<open>late\<close> after it is due, every message of the client reaches the gateway in order and
  within \<open>delay\<close>, and the client's task began at most \<open>ahead\<close> after the gateway's, where the three
  add up to less than half a second, the deadline of the gateway's task is not due and does not
  end it, however long the connection lasts and whatever else happens on either side.
\<close>

theorem live_client_is_not_cut_off:
  assumes client: "c = client_run from_server (client_ws_new ct) ces" "cw_status c = CwRunning"
    and clock: "sorted (ct # map fst ces)"
    and timer: "served from_server late ct (client_ws_new ct) ces now"
    and gateway: "g = ws_run from_client (ws_task_new at) ges" "wt_status g = WsRunning"
    and net: "delivered_within from_client delay now (cw_sent c) (heard_at ges)"
    and began: "ct \<le> at + ahead"
    and half_second: "late + delay + ahead < 500"
  shows "\<not> ws_ready now WsDeadline g \<and> wt_status (ws_step from_client now sr WsDeadline g) = WsRunning"
proof -
  have start: "cw_last (client_ws_new ct) = ct" "cw_sent (client_ws_new ct) = []"
    by (simp_all add: client_ws_new_def)
  have "gaps_ok (CLIENT_KEEPALIVE + late) ct (map fst (cw_sent c)) \<and>
      cw_last c = last (ct # map fst (cw_sent c)) \<and> now \<le> cw_last c + CLIENT_KEEPALIVE + late"
    unfolding client(1)
    by (rule client_run_gaps [OF client(2) [unfolded client(1)] timer clock]) (simp_all add: start)
  then have "now \<le> last (at # map fst (heard_at ges)) + (CLIENT_KEEPALIVE + late) + delay + ahead"
    by (intro last_heard_is_recent [OF _ _ net began]) (simp_all add: add.assoc)
  moreover have "wt_last g = last (at # map fst (heard_at ges))"
    using run_last [of from_client "ws_task_new at" ges] gateway
    by (simp add: ws_task_new_def last_message_heard)
  ultimately have "\<not> ws_ready now WsDeadline g"
    using half_second by (simp add: CLIENT_KEEPALIVE_def WS_KEEPALIVE_def)
  then show ?thesis using gateway(2) by (simp add: ws_step_def del: ws_ready.simps)
qed

text \<open>
  A client that sends a keep-alive, then a message of its owner, then a keep-alive again, 30
  milliseconds late; the gateway, which began 50 milliseconds before, has heard two of them, and the
  third is still on its way.
\<close>

definition demo_client :: "(instant \<times> send_result \<times> client_ws_event) list" where
  "demo_client = [(2050, SendOk, CwDeadline), (2100, SendOk, CwOwnerSends CeLeave),
     (2200, SendOk, CwBack), (4230, SendOk, CwDeadline)]"

definition demo_wire :: "u8 list \<Rightarrow> client_event option" where
  "demo_wire bs = (if bs = [1] then Some (CeKeepalive \<lparr>sent_at = 2050\<rparr>)
     else if bs = [2] then Some CeLeave else None)"

definition demo_heard :: ws_trace where
  "demo_heard = [(2110, SendOk, WsRecv (Some (WsText [1]))), (2300, SendOk, WsRecv (Some (WsText [2])))]"

theorem live_client_is_not_cut_off_witness:
  "cw_sent (client_run (\<lambda>b. None) (client_ws_new 50) demo_client) =
     [(2050, CeKeepalive \<lparr>sent_at = 2050\<rparr>), (2200, CeLeave), (4230, CeKeepalive \<lparr>sent_at = 4230\<rparr>)] \<and>
   wt_status (ws_step demo_wire 4330 SendOk WsDeadline (ws_run demo_wire (ws_task_new 0) demo_heard)) = WsRunning"
proof -
  let ?c = "client_run (\<lambda>b. None) (client_ws_new 50) demo_client"
  let ?g = "ws_run demo_wire (ws_task_new 0) demo_heard"
  have sent: "cw_sent ?c =
      [(2050, CeKeepalive \<lparr>sent_at = 2050\<rparr>), (2200, CeLeave), (4230, CeKeepalive \<lparr>sent_at = 4230\<rparr>)]"
    and client: "cw_status ?c = CwRunning"
    and timer: "served (\<lambda>b. None) 50 50 (client_ws_new 50) demo_client 4330"
    by (simp_all add: demo_client_def client_ws_new_def client_step_def client_send_def CLIENT_KEEPALIVE_def)
  have clock: "sorted (50 # map fst demo_client)" by (simp add: demo_client_def)
  have heard: "heard_at demo_heard = [(2110, WsText [1]), (2300, WsText [2])]"
    by (simp add: demo_heard_def)
  have gateway: "wt_status ?g = WsRunning"
    by (simp add: demo_heard_def ws_task_new_def ws_step_def ws_recv_def handle_incoming_message_def
        send_json_def decode_json_def demo_wire_def)
  have net: "delivered_within demo_wire 100 4330 (cw_sent ?c) (heard_at demo_heard)"
    unfolding delivered_within_def sent heard
    by (simp add: decode_json_def demo_wire_def less_Suc_eq numeral_2_eq_2 numeral_3_eq_3)
  have "(50::nat) \<le> 0 + 50" and "50 + 100 + 50 < (500::nat)" by simp_all
  from live_client_is_not_cut_off [OF refl client clock timer refl gateway net this]
  show ?thesis using sent by blast
qed

text \<open>A task whose session has ended.\<close>

definition orphan :: ws_task where
  "orphan = ws_step demo_decode 1 SendOk WsSessionDrops (ws_task_new 0)"

text \<open>
  An orphaned task spins. When the session has ended and its queue is empty, the branch of
  \<open>back.recv()\<close> is ready at every moment and changes nothing, so the task loops without waiting;
  keep-alives of the client are still answered and put off the deadline for ever.
\<close>

theorem orphaned_stream_task_spins:
  "ws_ready now WsBackMsg orphan \<and> ws_step demo_decode now sr WsBackMsg orphan = orphan \<and>
   wt_status orphan = WsRunning \<and>
   ws_step demo_decode now SendOk (WsRecv (Some (WsText [1]))) orphan =
     orphan\<lparr>wt_sent := [SeKeepalive \<lparr>sent_at = 7\<rparr>], wt_last := now\<rparr>"
  by (simp add: orphan_def ws_step_def ws_task_new_def ws_recv_def handle_incoming_message_def
      send_json_def decode_json_def demo_decode_def)

end
