(* ===== verification/Voice_Proto.thy ===== *)
theory Voice_Proto
  imports Net_Addr
begin

text \<open>
  The datagrams of the voice protocol, \<open>server/voice/proto/voice.proto\<close> and the
  constructors of \<open>server/voice/proto/src/lib.rs\<close>, and the models of
  \<open>server/voice/models/src/lib.rs\<close> that the voice server, the gateway and the gRPC layer share.
  A protobuf \<open>oneof\<close> is an optional enum.
\<close>

section \<open>Datagrams\<close>

record voice =
  sequence :: u64
  stream_time :: u64
  source_id :: u32
  payload :: "u8 list"

record ping =
  ping_seq :: u64
  ping_recv :: u64
  ping_sent :: u64
  ping_source_id :: u32

record pong =
  pong_seq :: u64
  pong_sent :: u64
  pong_received :: u64

record ip_disco_request =
  disco_uuid :: "u8 list"
  disco_source_id :: u32

text \<open>The response carries the textual address of the code; the model keeps the address itself.\<close>

record ip_disco_response =
  disco_ip :: ip_addr
  disco_port :: u32

datatype client_payload = CPing ping | CVoice voice | CIpDisco ip_disco_request

record client_message =
  cm_payload :: "client_payload option"

datatype server_payload = SPong pong | SVoice voice | SIpDisco ip_disco_response

record server_message =
  sm_message :: "server_payload option"

definition server_message_new :: "server_payload \<Rightarrow> server_message" where
  "server_message_new m = \<lparr>sm_message = Some m\<rparr>"

definition server_pong :: "pong \<Rightarrow> server_message" where
  "server_pong p = server_message_new (SPong p)"

definition server_voice :: "voice \<Rightarrow> server_message" where
  "server_voice v = server_message_new (SVoice v)"

definition server_ip_disco :: "ip_disco_response \<Rightarrow> server_message" where
  "server_ip_disco d = server_message_new (SIpDisco d)"

definition client_message_new :: "client_payload \<Rightarrow> client_message" where
  "client_message_new p = \<lparr>cm_payload = Some p\<rparr>"

definition client_ping :: "ping \<Rightarrow> client_message" where
  "client_ping p = client_message_new (CPing p)"

definition client_voice :: "voice \<Rightarrow> client_message" where
  "client_voice v = client_message_new (CVoice v)"

definition client_ip_disco :: "ip_disco_request \<Rightarrow> client_message" where
  "client_ip_disco d = client_message_new (CIpDisco d)"

section \<open>Requests and results of the voice server\<close>

record open_connection_req =
  oc_user_name :: string
  oc_channel_id :: uuid
  oc_client_id :: uuid

record connection_data =
  cd_sock :: socket_addr
  cd_source_id :: u32

record establish_session_req =
  es_channel_id :: uuid
  es_client_id :: uuid
  es_client_addr :: socket_addr

record session_data =
  sd_crypt_key :: "u8 list"

record peer =
  peer_id :: uuid
  peer_source_id :: u32
  peer_name :: string

datatype connection_state = Waiting | Peered | Stopped

text \<open>The order in which a connection goes through its states.\<close>

instantiation connection_state :: linorder
begin

fun state_rank :: "connection_state \<Rightarrow> nat" where
  "state_rank Waiting = 0"
| "state_rank Peered = 1"
| "state_rank Stopped = 2"

definition less_eq_connection_state :: "connection_state \<Rightarrow> connection_state \<Rightarrow> bool" where
  "less_eq_connection_state a b \<longleftrightarrow> state_rank a \<le> state_rank b"

definition less_connection_state :: "connection_state \<Rightarrow> connection_state \<Rightarrow> bool" where
  "less_connection_state a b \<longleftrightarrow> state_rank a < state_rank b"

instance
proof
  fix a b :: connection_state
  show "a \<le> b \<Longrightarrow> b \<le> a \<Longrightarrow> a = b"
    by (cases a; cases b) (simp_all add: less_eq_connection_state_def)
qed (auto simp: less_eq_connection_state_def less_connection_state_def)

end

lemma Stopped_top [simp]: "s \<le> Stopped" "Stopped \<le> s \<longleftrightarrow> s = Stopped"
  by (cases s; simp add: less_eq_connection_state_def)+

lemma Waiting_bot [simp]: "Waiting \<le> s" "s \<le> Waiting \<longleftrightarrow> s = Waiting"
  by (cases s; simp add: less_eq_connection_state_def)+

end
