(* ===== verification/Session.thy ===== *)
theory Session
  imports Presence Ws_Stream Voice_Proto
begin

text \<open>
  The session of one client, \<open>ServerSession\<close> in \<open>server/gateway/src/server/session.rs\<close>, with the
  session side of the control stream (\<open>ControlStream\<close> in \<open>ws.rs\<close>), the channel map it looks rooms
  up in (\<open>Channels\<close> in \<open>channels/mod.rs\<close>) and the voice host interface (\<open>voice_instance/mod.rs\<close>).

  A session runs concurrently with others and waits at every call. Its code is therefore a tree:
  a node is a call together with what the session does for each answer, and nothing is assumed
  about what happens elsewhere between a call and its answer. An \<^emph>\<open>action\<close> is a call with its
  answer; a run of the session is the list of its actions.
\<close>

section \<open>Interfaces\<close>

datatype voice_host_error = NotFound string | HostOther

text \<open>A \<open>Channel\<close>: its state is shared and named by a reference, its voice host is of any type.\<close>

record 'v gateway_channel =
  gc_room_id :: uuid
  gc_state :: nat
  gc_voice :: 'v

record room_handle =
  rh_state :: nat
  rh_joined :: chat_room_joined

datatype session_error =
    DeadReceiver | StreamEnd | UnexpectedMessage string string
  | RegistryError | NoVoiceServer | ChannelStateError
  | HostError voice_host_error | UnspecifiedIp | UnreachablePanic

text \<open>
  What the \<open>select!\<close> of the session loop yields: the status task of the voice connection has ended,
  a client event (\<open>None\<close> when the stream is gone), or a channel event.
\<close>

datatype session_event =
    StatusEnded
  | ClientEvt "client_event option"
  | ChanEvt channel_event

section \<open>Programs\<close>

text \<open>The first argument of \<open>Select\<close> says whether there is a voice connection to select on.\<close>

datatype ('v, 'a) prog =
    Ret 'a
  | Fail session_error
  | Select bool "session_event \<Rightarrow> ('v, 'a) prog"
  | NextEvent "client_event option \<Rightarrow> ('v, 'a) prog"
  | SendEvent server_event "bool \<Rightarrow> ('v, 'a) prog"
  | MapGet uuid "'v gateway_channel option \<Rightarrow> ('v, 'a) prog"
  | MapOrInsert "'v gateway_channel" "'v gateway_channel \<Rightarrow> ('v, 'a) prog"
  | MapReassign uuid 'v "'v gateway_channel option \<Rightarrow> ('v, 'a) prog"
  | InitState uuid "nat option \<Rightarrow> ('v, 'a) prog"
  | VoiceFor uuid bool "'v option option \<Rightarrow> ('v, 'a) prog"
  | HostOpen 'v open_connection_req "voice_host_error + connection_data \<Rightarrow> ('v, 'a) prog"
  | HostEstablish 'v establish_session_req "voice_host_error + session_data \<Rightarrow> ('v, 'a) prog"
  | JoinRoom nat client_info "room_handle option \<Rightarrow> ('v, 'a) prog"
  | ListMembers nat "client_info list option \<Rightarrow> ('v, 'a) prog"
  | DropRoom room_handle "('v, 'a) prog"
  | SpawnLeave 'v uuid uuid "('v, 'a) prog"

text \<open>Sequencing, and the \<open>?\<close> operator: an error ends the program.\<close>

primrec andthen :: "('v, 'a) prog \<Rightarrow> ('a \<Rightarrow> ('v, 'b) prog) \<Rightarrow> ('v, 'b) prog" where
  "andthen (Ret x) f = f x"
| "andthen (Fail e) f = Fail e"
| "andthen (Select b k) f = Select b (\<lambda>r. andthen (k r) f)"
| "andthen (NextEvent k) f = NextEvent (\<lambda>r. andthen (k r) f)"
| "andthen (SendEvent e k) f = SendEvent e (\<lambda>r. andthen (k r) f)"
| "andthen (MapGet i k) f = MapGet i (\<lambda>r. andthen (k r) f)"
| "andthen (MapOrInsert c k) f = MapOrInsert c (\<lambda>r. andthen (k r) f)"
| "andthen (MapReassign i v k) f = MapReassign i v (\<lambda>r. andthen (k r) f)"
| "andthen (InitState i k) f = InitState i (\<lambda>r. andthen (k r) f)"
| "andthen (VoiceFor i b k) f = VoiceFor i b (\<lambda>r. andthen (k r) f)"
| "andthen (HostOpen v q k) f = HostOpen v q (\<lambda>r. andthen (k r) f)"
| "andthen (HostEstablish v q k) f = HostEstablish v q (\<lambda>r. andthen (k r) f)"
| "andthen (JoinRoom s i k) f = JoinRoom s i (\<lambda>r. andthen (k r) f)"
| "andthen (ListMembers s k) f = ListMembers s (\<lambda>r. andthen (k r) f)"
| "andthen (DropRoom h p) f = DropRoom h (andthen p f)"
| "andthen (SpawnLeave v i j p) f = SpawnLeave v i j (andthen p f)"

text \<open>What runs when an error leaves a scope: the values the scope owns are dropped.\<close>

primrec on_error :: "(session_error \<Rightarrow> ('v, 'a) prog) \<Rightarrow> ('v, 'a) prog \<Rightarrow> ('v, 'a) prog" where
  "on_error h (Ret x) = Ret x"
| "on_error h (Fail e) = h e"
| "on_error h (Select b k) = Select b (\<lambda>r. on_error h (k r))"
| "on_error h (NextEvent k) = NextEvent (\<lambda>r. on_error h (k r))"
| "on_error h (SendEvent e k) = SendEvent e (\<lambda>r. on_error h (k r))"
| "on_error h (MapGet i k) = MapGet i (\<lambda>r. on_error h (k r))"
| "on_error h (MapOrInsert c k) = MapOrInsert c (\<lambda>r. on_error h (k r))"
| "on_error h (MapReassign i v k) = MapReassign i v (\<lambda>r. on_error h (k r))"
| "on_error h (InitState i k) = InitState i (\<lambda>r. on_error h (k r))"
| "on_error h (VoiceFor i b k) = VoiceFor i b (\<lambda>r. on_error h (k r))"
| "on_error h (HostOpen v q k) = HostOpen v q (\<lambda>r. on_error h (k r))"
| "on_error h (HostEstablish v q k) = HostEstablish v q (\<lambda>r. on_error h (k r))"
| "on_error h (JoinRoom s i k) = JoinRoom s i (\<lambda>r. on_error h (k r))"
| "on_error h (ListMembers s k) = ListMembers s (\<lambda>r. on_error h (k r))"
| "on_error h (DropRoom rh p) = DropRoom rh (on_error h p)"
| "on_error h (SpawnLeave v i j p) = SpawnLeave v i j (on_error h p)"

section \<open>The control stream\<close>

fun event_name :: "client_event \<Rightarrow> string" where
  "event_name (CeInit i) = ''Init''"
| "event_name (CeKeepalive k) = ''Keepalive''"
| "event_name (CeJoin c) = ''Join''"
| "event_name (CeUdpAnnounce a) = ''UdpAnnounce''"
| "event_name CeLeave = ''Leave''"
| "event_name CeDisconnect = ''Disconnect''"

definition stream_send :: "server_event \<Rightarrow> ('v, unit) prog" where
  "stream_send e = SendEvent e (\<lambda>ok. if ok then Ret () else Fail DeadReceiver)"

definition initialized :: "uuid \<Rightarrow> ('v, unit) prog" where
  "initialized session_id = stream_send (SeInit session_id)"

definition announce_udp :: "socket_addr \<Rightarrow> u32 \<Rightarrow> ('v, unit) prog" where
  "announce_udp sock sid = stream_send (SeUdpAnnounce
     \<lparr>sa_msg_ip = sa_ip sock, sa_msg_port = sa_port sock, sa_source_id = sid\<rparr>)"

definition send_joined :: "string \<Rightarrow> u32 \<Rightarrow> ('v, unit) prog" where
  "send_joined user sid = stream_send (SeJoined \<lparr>pm_user = user, pm_source_id = sid\<rparr>)"

definition send_left :: "string \<Rightarrow> u32 \<Rightarrow> ('v, unit) prog" where
  "send_left user sid = stream_send (SeLeft \<lparr>pm_user = user, pm_source_id = sid\<rparr>)"

definition send_disconnected :: "('v, unit) prog" where
  "send_disconnected = stream_send SeDisconnected"

definition join_error :: "uuid \<Rightarrow> ('v, unit) prog" where
  "join_error room_id = stream_send (SeJoinError room_id)"

definition voice_ready :: "ready_msg \<Rightarrow> ('v, unit) prog" where
  "voice_ready r = stream_send (SeReady r)"

definition await_handshake :: "('v, init_msg) prog" where
  "await_handshake = NextEvent (\<lambda>evt. case evt of
      None \<Rightarrow> Fail StreamEnd
    | Some (CeInit init) \<Rightarrow> Ret init
    | Some evt \<Rightarrow> Fail (UnexpectedMessage ''Init'' (event_name evt)))"

definition await_client_udp :: "('v, client_announce) prog" where
  "await_client_udp = NextEvent (\<lambda>evt. case evt of
      None \<Rightarrow> Fail StreamEnd
    | Some (CeUdpAnnounce announce) \<Rightarrow> Ret announce
    | Some evt \<Rightarrow> Fail (UnexpectedMessage ''UdpAnnounce'' (event_name evt)))"

section \<open>The channel map\<close>

text \<open>
  \<open>Channels::get_or_init\<close> looks the room up, asks the registry for a voice host, and inserts a new
  channel unless one has been inserted meanwhile. \<open>reassign_voice\<close> holds the lock of the map from
  the lookup to the insertion.
\<close>

definition get_or_init :: "uuid \<Rightarrow> ('v, 'v gateway_channel option) prog" where
  "get_or_init room = MapGet room (\<lambda>found. case found of
      Some c \<Rightarrow> Ret (Some c)
    | None \<Rightarrow> VoiceFor room False (\<lambda>voice. case voice of
          None \<Rightarrow> Fail RegistryError
        | Some None \<Rightarrow> Ret None
        | Some (Some v) \<Rightarrow> InitState room (\<lambda>st. case st of
              None \<Rightarrow> Fail ChannelStateError
            | Some st \<Rightarrow> MapOrInsert \<lparr>gc_room_id = room, gc_state = st, gc_voice = v\<rparr>
                (\<lambda>c. Ret (Some c)))))"

definition reassign_voice :: "uuid \<Rightarrow> ('v, 'v gateway_channel) prog" where
  "reassign_voice room = VoiceFor room True (\<lambda>voice. case voice of
      None \<Rightarrow> Fail RegistryError
    | Some None \<Rightarrow> Fail NoVoiceServer
    | Some (Some v) \<Rightarrow> MapReassign room v (\<lambda>c. case c of
          None \<Rightarrow> Fail ChannelStateError
        | Some c \<Rightarrow> Ret c))"

section \<open>The session\<close>

record 'v voice_handle =
  vh_client_id :: uuid
  vh_channel_id :: uuid
  vh_voice_host :: 'v
  vh_room_handle :: room_handle
  vh_source_id :: u32

record 'v session =
  ss_session_id :: uuid
  ss_client_id :: uuid
  ss_client_name :: string
  ss_voice :: "'v voice_handle option"

definition session_new :: "uuid \<Rightarrow> uuid \<Rightarrow> string \<Rightarrow> 'v session" where
  "session_new sid cid name =
     \<lparr>ss_session_id = sid, ss_client_id = cid, ss_client_name = name, ss_voice = None\<rparr>"

definition session_init :: "uuid \<Rightarrow> ('v, 'v session) prog" where
  "session_init sid = andthen await_handshake (\<lambda>i.
     andthen (initialized sid) (\<lambda>_. Ret (session_new sid (user_id i) (init_name i))))"

text \<open>Dropping a voice handle: a task that leaves is spawned, then the room handle is dropped.\<close>

definition drop_voice :: "'v voice_handle \<Rightarrow> ('v, 'a) prog \<Rightarrow> ('v, 'a) prog" where
  "drop_voice v p = SpawnLeave (vh_voice_host v) (vh_channel_id v) (vh_client_id v)
     (DropRoom (vh_room_handle v) p)"

definition drop_session :: "'v session \<Rightarrow> ('v, 'a) prog \<Rightarrow> ('v, 'a) prog" where
  "drop_session s p = (case ss_voice s of None \<Rightarrow> p | Some v \<Rightarrow> drop_voice v p)"

definition stop_voice :: "'v session \<Rightarrow> ('v, 'v session) prog" where
  "stop_voice s = (case ss_voice s of
      None \<Rightarrow> Ret s
    | Some v \<Rightarrow> drop_voice v (SendEvent SeDisconnected (\<lambda>_. Ret (s\<lparr>ss_voice := None\<rparr>))))"

definition open_on_host ::
  "uuid \<Rightarrow> open_connection_req \<Rightarrow> 'v gateway_channel \<Rightarrow>
     ('v, 'v gateway_channel \<times> connection_data) prog" where
  "open_on_host room req channel = HostOpen (gc_voice channel) req (\<lambda>r. case r of
      Inr data \<Rightarrow> Ret (channel, data)
    | Inl (NotFound what) \<Rightarrow> andthen (reassign_voice room) (\<lambda>channel.
        HostOpen (gc_voice channel) req (\<lambda>r. case r of
            Inr data \<Rightarrow> Ret (channel, data)
          | Inl e \<Rightarrow> Fail (HostError e)))
    | Inl HostOther \<Rightarrow> Fail (HostError HostOther))"

text \<open>The part of \<open>initialize_voice_connection\<close> that owns the room handle.\<close>

definition connect_client ::
  "(u8 list \<Rightarrow> string) \<Rightarrow> 'v session \<Rightarrow> uuid \<Rightarrow> 'v gateway_channel \<Rightarrow> connection_data \<Rightarrow>
     room_handle \<Rightarrow> ('v, 'v voice_handle option) prog" where
  "connect_client b64 s room channel data rh =
     ListMembers (gc_state channel) (\<lambda>present. case present of
        None \<Rightarrow> Fail ChannelStateError
      | Some present \<Rightarrow>
          andthen (announce_udp (cd_sock data) (cd_source_id data)) (\<lambda>_.
          andthen await_client_udp (\<lambda>a.
            if is_unspecified (ca_ip a) then Fail UnspecifiedIp
            else HostEstablish (gc_voice channel)
                   \<lparr>es_channel_id = room, es_client_id = ss_client_id s,
                    es_client_addr = sa_from (ca_ip a) (ca_port a)\<rparr>
              (\<lambda>r. case r of
                 Inl e \<Rightarrow> Fail (HostError e)
               | Inr sd \<Rightarrow>
                   andthen (voice_ready \<lparr>rd_id = room, rd_src_id = cd_source_id data,
                       rd_present = map (\<lambda>m. \<lparr>pm_user = ci_name m, pm_source_id = ci_source_id m\<rparr>) present,
                       rd_crypt_key = b64 (sd_crypt_key sd)\<rparr>) (\<lambda>_.
                   Ret (Some \<lparr>vh_client_id = ss_client_id s, vh_channel_id = room,
                     vh_voice_host = gc_voice channel, vh_room_handle = rh,
                     vh_source_id = cd_source_id data\<rparr>))))))"

definition initialize_voice_connection ::
  "(u8 list \<Rightarrow> string) \<Rightarrow> 'v session \<Rightarrow> uuid \<Rightarrow> ('v, 'v voice_handle option) prog" where
  "initialize_voice_connection b64 s room = andthen (get_or_init room) (\<lambda>found. case found of
      None \<Rightarrow> Ret None
    | Some channel \<Rightarrow>
        andthen (open_on_host room \<lparr>oc_user_name = ss_client_name s, oc_channel_id = room,
            oc_client_id = ss_client_id s\<rparr> channel) (\<lambda>(channel, data).
        JoinRoom (gc_state channel) \<lparr>ci_client_id = ss_client_id s,
            ci_source_id = cd_source_id data, ci_name = ss_client_name s\<rparr> (\<lambda>joined.
          case joined of
            None \<Rightarrow> Fail ChannelStateError
          | Some rh \<Rightarrow> on_error (\<lambda>e. DropRoom rh (Fail e))
                         (connect_client b64 s room channel data rh))))"

definition handle_event ::
  "(u8 list \<Rightarrow> string) \<Rightarrow> 'v session \<Rightarrow> client_event \<Rightarrow> ('v, 'v session) prog" where
  "handle_event b64 s evt = (case evt of
      CeInit i \<Rightarrow> stop_voice s
    | CeDisconnect \<Rightarrow> stop_voice s
    | CeJoin room \<Rightarrow> andthen (stop_voice s) (\<lambda>s.
        andthen (initialize_voice_connection b64 s room) (\<lambda>voice. case voice of
            Some v \<Rightarrow> Ret (s\<lparr>ss_voice := Some v\<rparr>)
          | None \<Rightarrow> andthen (join_error room) (\<lambda>_. Ret s)))
    | CeLeave \<Rightarrow> stop_voice s
    | CeUdpAnnounce a \<Rightarrow> stop_voice s
    | CeKeepalive k \<Rightarrow> drop_session s (Fail UnreachablePanic))"

definition handle_chan_event :: "'v session \<Rightarrow> channel_event \<Rightarrow> ('v, unit) prog" where
  "handle_chan_event s e =
     (if ss_client_id s = ev_source e then Ret ()
      else (case ev_kind e of
              Joined name \<Rightarrow> send_joined name (ev_source_id e)
            | Left name \<Rightarrow> send_left name (ev_source_id e)))"

text \<open>
  One iteration of \<open>run_session\<close>; \<open>None\<close> when the session returns. An error drops the session, and
  with it the voice handle it holds at that point.
\<close>

definition session_iter ::
  "(u8 list \<Rightarrow> string) \<Rightarrow> 'v session \<Rightarrow> ('v, 'v session option) prog" where
  "session_iter b64 s = Select (ss_voice s \<noteq> None) (\<lambda>ev. case ev of
      StatusEnded \<Rightarrow> andthen (on_error (\<lambda>e. drop_session s (Fail e)) send_disconnected)
        (\<lambda>_. drop_session s (Ret (Some (s\<lparr>ss_voice := None\<rparr>))))
    | ClientEvt (Some evt) \<Rightarrow> andthen (handle_event b64 s evt) (\<lambda>s. Ret (Some s))
    | ClientEvt None \<Rightarrow> andthen (stop_voice s) (\<lambda>_. Ret None)
    | ChanEvt e \<Rightarrow> andthen (on_error (\<lambda>e. drop_session s (Fail e)) (handle_chan_event s e))
        (\<lambda>_. Ret (Some s)))"

section \<open>The status task\<close>

text \<open>
  \<open>status_check\<close> asks the host every five seconds and ends on a stopped connection or an error.
  \<open>status_ends\<close> is the position of the answer it ends on, if there is one.
\<close>

definition status_goes_on :: "voice_host_error + connection_state \<Rightarrow> bool" where
  "status_goes_on r = (case r of
      Inr Peered \<Rightarrow> True
    | Inr Waiting \<Rightarrow> True
    | Inr Stopped \<Rightarrow> False
    | Inl e \<Rightarrow> False)"

fun status_ends :: "(voice_host_error + connection_state) list \<Rightarrow> nat option" where
  "status_ends [] = None"
| "status_ends (r # rs) =
     (if status_goes_on r then map_option Suc (status_ends rs) else Some 0)"

section \<open>Runs\<close>

datatype 'v action =
    ASelect bool session_event
  | ANext "client_event option"
  | ASend server_event bool
  | AMapGet uuid "'v gateway_channel option"
  | AMapOrInsert "'v gateway_channel" "'v gateway_channel"
  | AMapReassign uuid 'v "'v gateway_channel option"
  | AInitState uuid "nat option"
  | AVoiceFor uuid bool "'v option option"
  | AOpen 'v open_connection_req "voice_host_error + connection_data"
  | AEstablish 'v establish_session_req "voice_host_error + session_data"
  | AJoin nat client_info "room_handle option"
  | AMembers nat "client_info list option"
  | ADropRoom room_handle
  | ASpawnLeave 'v uuid uuid

text \<open>The branches for a voice connection are only selected when there is one.\<close>

fun selectable :: "bool \<Rightarrow> session_event \<Rightarrow> bool" where
  "selectable has_voice (ClientEvt e) = True"
| "selectable has_voice e = has_voice"

primrec advance :: "'v action \<Rightarrow> ('v, 'a) prog \<Rightarrow> ('v, 'a) prog option" where
  "advance a (Ret x) = None"
| "advance a (Fail e) = None"
| "advance a (Select b k) = (case a of
     ASelect b' r \<Rightarrow> (if b' = b \<and> selectable b r then Some (k r) else None) | _ \<Rightarrow> None)"
| "advance a (NextEvent k) = (case a of ANext r \<Rightarrow> Some (k r) | _ \<Rightarrow> None)"
| "advance a (SendEvent e k) = (case a of
     ASend e' r \<Rightarrow> (if e' = e then Some (k r) else None) | _ \<Rightarrow> None)"
| "advance a (MapGet i k) = (case a of
     AMapGet i' r \<Rightarrow> (if i' = i then Some (k r) else None) | _ \<Rightarrow> None)"
| "advance a (MapOrInsert c k) = (case a of
     AMapOrInsert c' r \<Rightarrow> (if c' = c then Some (k r) else None) | _ \<Rightarrow> None)"
| "advance a (MapReassign i v k) = (case a of
     AMapReassign i' v' r \<Rightarrow> (if i' = i \<and> v' = v then Some (k r) else None) | _ \<Rightarrow> None)"
| "advance a (InitState i k) = (case a of
     AInitState i' r \<Rightarrow> (if i' = i then Some (k r) else None) | _ \<Rightarrow> None)"
| "advance a (VoiceFor i b k) = (case a of
     AVoiceFor i' b' r \<Rightarrow> (if i' = i \<and> b' = b then Some (k r) else None) | _ \<Rightarrow> None)"
| "advance a (HostOpen v q k) = (case a of
     AOpen v' q' r \<Rightarrow> (if v' = v \<and> q' = q then Some (k r) else None) | _ \<Rightarrow> None)"
| "advance a (HostEstablish v q k) = (case a of
     AEstablish v' q' r \<Rightarrow> (if v' = v \<and> q' = q then Some (k r) else None) | _ \<Rightarrow> None)"
| "advance a (JoinRoom st i k) = (case a of
     AJoin st' i' r \<Rightarrow> (if st' = st \<and> i' = i then Some (k r) else None) | _ \<Rightarrow> None)"
| "advance a (ListMembers st k) = (case a of
     AMembers st' r \<Rightarrow> (if st' = st then Some (k r) else None) | _ \<Rightarrow> None)"
| "advance a (DropRoom h p) = (case a of
     ADropRoom h' \<Rightarrow> (if h' = h then Some p else None) | _ \<Rightarrow> None)"
| "advance a (SpawnLeave v i j p) = (case a of
     ASpawnLeave v' i' j' \<Rightarrow> (if v' = v \<and> i' = i \<and> j' = j then Some p else None) | _ \<Rightarrow> None)"

text \<open>The loop of \<open>run_session\<close>: an iteration that returns a session is followed by the next one.\<close>

definition resume ::
  "(u8 list \<Rightarrow> string) \<Rightarrow> ('v, 'v session option) prog \<Rightarrow> ('v, 'v session option) prog" where
  "resume b64 p = (case p of Ret (Some s) \<Rightarrow> session_iter b64 s | _ \<Rightarrow> p)"

definition session_start :: "(u8 list \<Rightarrow> string) \<Rightarrow> uuid \<Rightarrow> ('v, 'v session option) prog" where
  "session_start b64 sid = andthen (session_init sid) (session_iter b64)"

fun session_run ::
  "(u8 list \<Rightarrow> string) \<Rightarrow> 'v action list \<Rightarrow> ('v, 'v session option) prog \<Rightarrow>
     ('v, 'v session option) prog option" where
  "session_run b64 [] p = Some p"
| "session_run b64 (a # as) p =
     (case advance a p of None \<Rightarrow> None | Some p' \<Rightarrow> session_run b64 as (resume b64 p'))"

section \<open>Monitors\<close>

text \<open>
  A property of runs is a monitor: an automaton that reads the actions and refuses some of them.
  \<open>obeys\<close> says that a program is never refused, whatever the answers to its calls, and that the
  monitor is in an acceptable state when the program returns or fails.
\<close>

type_synonym ('v, 'm) monitor = "'v action \<Rightarrow> 'm \<Rightarrow> 'm option"

fun accepts :: "('v, 'm) monitor \<Rightarrow> 'v action list \<Rightarrow> 'm \<Rightarrow> 'm option" where
  "accepts d [] m = Some m"
| "accepts d (a # as) m = (case d a m of None \<Rightarrow> None | Some m' \<Rightarrow> accepts d as m')"

definition pre :: "('v, 'm) monitor \<Rightarrow> 'v action \<Rightarrow> ('m \<Rightarrow> bool) \<Rightarrow> 'm \<Rightarrow> bool" where
  "pre d a P m \<longleftrightarrow> (case d a m of None \<Rightarrow> False | Some m' \<Rightarrow> P m')"

primrec obeys ::
  "('v, 'm) monitor \<Rightarrow> ('a \<Rightarrow> 'm \<Rightarrow> bool) \<Rightarrow> (session_error \<Rightarrow> 'm \<Rightarrow> bool) \<Rightarrow>
     ('v, 'a) prog \<Rightarrow> 'm \<Rightarrow> bool" where
  "obeys d Q E (Ret x) = Q x"
| "obeys d Q E (Fail e) = E e"
| "obeys d Q E (Select b k) = (\<lambda>m. \<forall>r. selectable b r \<longrightarrow> pre d (ASelect b r) (obeys d Q E (k r)) m)"
| "obeys d Q E (NextEvent k) = (\<lambda>m. \<forall>r. pre d (ANext r) (obeys d Q E (k r)) m)"
| "obeys d Q E (SendEvent e k) = (\<lambda>m. \<forall>r. pre d (ASend e r) (obeys d Q E (k r)) m)"
| "obeys d Q E (MapGet i k) = (\<lambda>m. \<forall>r. pre d (AMapGet i r) (obeys d Q E (k r)) m)"
| "obeys d Q E (MapOrInsert c k) = (\<lambda>m. \<forall>r. pre d (AMapOrInsert c r) (obeys d Q E (k r)) m)"
| "obeys d Q E (MapReassign i v k) = (\<lambda>m. \<forall>r. pre d (AMapReassign i v r) (obeys d Q E (k r)) m)"
| "obeys d Q E (InitState i k) = (\<lambda>m. \<forall>r. pre d (AInitState i r) (obeys d Q E (k r)) m)"
| "obeys d Q E (VoiceFor i b k) = (\<lambda>m. \<forall>r. pre d (AVoiceFor i b r) (obeys d Q E (k r)) m)"
| "obeys d Q E (HostOpen v q k) = (\<lambda>m. \<forall>r. pre d (AOpen v q r) (obeys d Q E (k r)) m)"
| "obeys d Q E (HostEstablish v q k) = (\<lambda>m. \<forall>r. pre d (AEstablish v q r) (obeys d Q E (k r)) m)"
| "obeys d Q E (JoinRoom s i k) = (\<lambda>m. \<forall>r. pre d (AJoin s i r) (obeys d Q E (k r)) m)"
| "obeys d Q E (ListMembers s k) = (\<lambda>m. \<forall>r. pre d (AMembers s r) (obeys d Q E (k r)) m)"
| "obeys d Q E (DropRoom h p) = pre d (ADropRoom h) (obeys d Q E p)"
| "obeys d Q E (SpawnLeave v i j p) = pre d (ASpawnLeave v i j) (obeys d Q E p)"

lemma pre_cong: "(\<And>m. P m = P' m) \<Longrightarrow> pre d a P m = pre d a P' m"
  by (simp add: pre_def split: option.splits)

lemma pre_mono: "pre d a P m \<Longrightarrow> (\<And>m. P m \<Longrightarrow> P' m) \<Longrightarrow> pre d a P' m"
  by (simp add: pre_def split: option.splits)

lemma obeys_mono:
  "obeys d P E p m \<Longrightarrow> (\<And>x m. P x m \<Longrightarrow> Q x m) \<Longrightarrow> obeys d Q E p m"
proof (induction p arbitrary: m)
qed (auto simp: pre_def split: option.splits)

lemma obeys_andthen:
  "obeys d Q E (andthen p f) m = obeys d (\<lambda>x. obeys d Q E (f x)) E p m"
proof (induction p arbitrary: m)
qed (auto intro!: pre_cong cong: pre_cong simp: pre_def split: option.splits)

lemma obeys_on_error:
  "obeys d Q E (on_error h p) m = obeys d Q (\<lambda>e. obeys d Q E (h e)) p m"
proof (induction p arbitrary: m)
qed (auto simp: pre_def split: option.splits)

lemma obeys_advance:
  assumes "obeys d Q E p m" and "advance a p = Some p'"
  shows "pre d a (obeys d Q E p') m"
  using assms by (cases p) (auto split: action.splits if_splits)

text \<open>
  What a monitor has to be shown to be one of sessions: \<open>known\<close> says in which state it may be
  between two iterations, \<open>final\<close> in which it may be when the session has returned or failed.
\<close>

locale session_monitor =
  fixes b64 :: "u8 list \<Rightarrow> string"
    and d :: "('v, 'm) monitor"
    and start :: 'm
    and known :: "'v session \<Rightarrow> 'm \<Rightarrow> bool"
    and final :: "session_error option \<Rightarrow> 'm \<Rightarrow> bool"
  assumes init: "obeys d known (\<lambda>e. final (Some e)) (session_init sid) start"
    and iter: "known s m \<Longrightarrow>
      obeys d (\<lambda>r m. case r of Some s \<Rightarrow> known s m | None \<Rightarrow> final None m)
        (\<lambda>e. final (Some e)) (session_iter b64 s) m"
begin

definition ok :: "('v, 'v session option) prog \<Rightarrow> 'm \<Rightarrow> bool" where
  "ok = obeys d (\<lambda>r m. case r of Some s \<Rightarrow> known s m | None \<Rightarrow> final None m) (\<lambda>e. final (Some e))"

lemma ok_resume: "ok p m \<Longrightarrow> ok (resume b64 p) m"
proof (cases "\<exists>s. p = Ret (Some s)")
  case True
  then show "ok p m \<Longrightarrow> ok (resume b64 p) m" using iter by (auto simp: ok_def resume_def)
next
  case False
  then have "resume b64 p = p" by (simp add: resume_def split: prog.split option.split)
  then show "ok p m \<Longrightarrow> ok (resume b64 p) m" by simp
qed

lemma ok_start: "ok (session_start b64 sid) start"
  unfolding ok_def session_start_def obeys_andthen using init iter by (rule obeys_mono)

lemma run_ok:
  "session_run b64 tr p = Some p' \<Longrightarrow> ok p m \<Longrightarrow> \<exists>m'. accepts d tr m = Some m' \<and> ok p' m'"
proof (induction tr arbitrary: p m)
  case (Cons a tr)
  obtain q where q: "advance a p = Some q" "session_run b64 tr (resume b64 q) = Some p'"
    using Cons.prems(1) by (auto split: option.splits)
  obtain m1 where "d a m = Some m1" "ok q m1"
    using obeys_advance [OF Cons.prems(2) [unfolded ok_def] q(1)]
    by (auto simp: ok_def pre_def split: option.splits)
  then show ?case using Cons.IH [OF q(2) ok_resume] by auto
qed simp

lemma run_accepted:
  assumes "session_run b64 tr (session_start b64 sid) = Some p"
  shows "\<exists>m. accepts d tr start = Some m \<and> (p = Ret None \<longrightarrow> final None m) \<and>
    (\<forall>e. p = Fail e \<longrightarrow> final (Some e) m)"
  using run_ok [OF assms ok_start] by (auto simp: ok_def)

end

section \<open>What a session owns\<close>

text \<open>
  The room handle a session holds; the connection a voice host has opened for it, as the host, the
  room and the client; whether that connection is established; and whether the client has been told
  that it is ready. A connection that is left is forgotten; one whose room handle is dropped before
  it was left stays: the session leaves it behind.
\<close>

record 'v owned =
  ow_room :: "room_handle option"
  ow_conn :: "('v \<times> uuid \<times> uuid) option"
  ow_established :: bool
  ow_ready :: bool

definition nothing_owned :: "'v owned" where
  "nothing_owned = \<lparr>ow_room = None, ow_conn = None, ow_established = False, ow_ready = False\<rparr>"

definition ownership :: "('v, 'v owned) monitor" where
  "ownership a m = (case a of
      AOpen v q r \<Rightarrow> (if m = nothing_owned
        then Some (case r of Inl e \<Rightarrow> m
          | Inr c \<Rightarrow> m\<lparr>ow_conn := Some (v, oc_channel_id q, oc_client_id q)\<rparr>)
        else None)
    | AJoin st i r \<Rightarrow>
        (if ow_room m = None \<and> ow_conn m \<noteq> None \<and> \<not> ow_established m \<and> \<not> ow_ready m
         then Some (m\<lparr>ow_room := r\<rparr>) else None)
    | AEstablish v q r \<Rightarrow>
        (if ow_room m \<noteq> None \<and> ow_conn m = Some (v, es_channel_id q, es_client_id q) \<and>
            \<not> ow_established m \<and> \<not> ow_ready m
         then Some (m\<lparr>ow_established := (case r of Inl e \<Rightarrow> False | Inr sd \<Rightarrow> True)\<rparr>) else None)
    | ASend (SeReady r) delivered \<Rightarrow>
        (if ow_room m \<noteq> None \<and> ow_established m \<and> \<not> ow_ready m
         then Some (m\<lparr>ow_ready := delivered\<rparr>) else None)
    | ASpawnLeave v room client \<Rightarrow>
        (if ow_ready m \<and> ow_conn m = Some (v, room, client)
         then Some (m\<lparr>ow_conn := None, ow_established := False, ow_ready := False\<rparr>) else None)
    | ADropRoom h \<Rightarrow>
        (if ow_room m = Some h \<and> \<not> ow_ready m then Some (m\<lparr>ow_room := None\<rparr>) else None)
    | _ \<Rightarrow> Some m)"

definition owned_by :: "'v session \<Rightarrow> 'v owned" where
  "owned_by s = (case ss_voice s of
      None \<Rightarrow> nothing_owned
    | Some v \<Rightarrow> \<lparr>ow_room = Some (vh_room_handle v),
        ow_conn = Some (vh_voice_host v, vh_channel_id v, vh_client_id v),
        ow_established = True, ow_ready = True\<rparr>)"

text \<open>What a session that has ended still owns: at most a connection it could not finish.\<close>

definition ended_owner :: "session_error option \<Rightarrow> 'v owned \<Rightarrow> bool" where
  "ended_owner e m \<longleftrightarrow> ow_room m = None \<and> \<not> ow_ready m \<and> (e = None \<longrightarrow> ow_conn m = None)"

lemmas program_defs = stream_send_def initialized_def announce_udp_def send_joined_def send_left_def
  send_disconnected_def join_error_def voice_ready_def await_handshake_def await_client_udp_def
  get_or_init_def reassign_voice_def drop_voice_def drop_session_def stop_voice_def
  open_on_host_def connect_client_def initialize_voice_connection_def handle_event_def
  handle_chan_event_def session_iter_def session_init_def session_new_def

lemmas program_splits = option.splits sum.splits prod.splits client_event.splits
  session_event.splits voice_host_error.splits channel_event_kind.splits

lemma ownership_simps [simp]:
  "pre ownership (ASelect b e) P m = P m"
  "pre ownership (ANext r) P m = P m"
  "pre ownership (AMapGet i c) P m = P m"
  "pre ownership (AMapOrInsert ch ch') P m = P m"
  "pre ownership (AMapReassign i v c) P m = P m"
  "pre ownership (AInitState i sto) P m = P m"
  "pre ownership (AVoiceFor i b vo) P m = P m"
  "pre ownership (AMembers st ms) P m = P m"
  by (auto simp: pre_def ownership_def)

interpretation owns: session_monitor b64 ownership nothing_owned "\<lambda>s m. m = owned_by s" ended_owner
  for b64 :: "u8 list \<Rightarrow> string"
proof
  show "obeys ownership (\<lambda>s m. m = owned_by s) (\<lambda>e m. ended_owner (Some e) m) (session_init sid)
      nothing_owned" for sid
    by (auto simp: program_defs obeys_andthen owned_by_def ended_owner_def nothing_owned_def pre_def
        ownership_def split: program_splits)
  show "obeys ownership (\<lambda>r m. case r of Some s \<Rightarrow> m = owned_by s | None \<Rightarrow> ended_owner None m)
      (\<lambda>e m. ended_owner (Some e) m) (session_iter b64 s) m" if "m = owned_by s"
    for s :: "'a session" and m
    using that
    by (cases "ss_voice s")
      (auto simp: program_defs obeys_andthen obeys_on_error owned_by_def ended_owner_def pre_def
        ownership_def nothing_owned_def split: program_splits)
qed

text \<open>What an action acquires and releases.\<close>

fun joined_handle :: "'v action \<Rightarrow> room_handle option" where
  "joined_handle (AJoin st info r) = r"
| "joined_handle _ = None"

fun dropped_handle :: "'v action \<Rightarrow> room_handle option" where
  "dropped_handle (ADropRoom rh) = Some rh"
| "dropped_handle _ = None"

fun opened_conn :: "'v action \<Rightarrow> ('v \<times> uuid \<times> uuid) option" where
  "opened_conn (AOpen v q (Inr c)) = Some (v, oc_channel_id q, oc_client_id q)"
| "opened_conn _ = None"

fun left_conn :: "'v action \<Rightarrow> ('v \<times> uuid \<times> uuid) option" where
  "left_conn (ASpawnLeave v room client) = Some (v, room, client)"
| "left_conn _ = None"

fun ready_action :: "'v action \<Rightarrow> bool" where
  "ready_action (ASend (SeReady r) delivered) = delivered"
| "ready_action _ = False"

definition gathered :: "('a \<Rightarrow> 'b option) \<Rightarrow> 'a list \<Rightarrow> 'b list" where
  "gathered f xs = List.map_filter f xs"

lemma gathered_simps [simp]:
  "gathered f [] = []" "gathered f (x # xs) = case_option [] (\<lambda>y. [y]) (f x) @ gathered f xs"
  by (simp_all add: gathered_def List.map_filter_simps split: option.split)

text \<open>What is acquired is released, in order, or still there; what was ready has been left.\<close>

lemma ownership_step_accounts:
  assumes "ownership a m = Some m'"
  shows "case_option [] (\<lambda>h. [h]) (ow_room m) @ case_option [] (\<lambda>h. [h]) (joined_handle a) =
      case_option [] (\<lambda>h. [h]) (dropped_handle a) @ case_option [] (\<lambda>h. [h]) (ow_room m')"
    and "case_option [] (\<lambda>c. [c]) (ow_conn m) @ case_option [] (\<lambda>c. [c]) (opened_conn a) =
      case_option [] (\<lambda>c. [c]) (left_conn a) @ case_option [] (\<lambda>c. [c]) (ow_conn m')"
    and "of_bool (ow_ready m) + of_bool (ready_action a) =
      (of_bool (ow_ready m') + length (case_option [] (\<lambda>c. [c]) (left_conn a)) :: nat)"
  using assms
  by (auto simp: ownership_def nothing_owned_def
      split: action.splits if_splits server_event.splits option.splits sum.splits)

lemma ownership_accounts:
  "accepts ownership tr m = Some m' \<Longrightarrow>
     case_option [] (\<lambda>h. [h]) (ow_room m) @ gathered joined_handle tr =
       gathered dropped_handle tr @ case_option [] (\<lambda>h. [h]) (ow_room m') \<and>
     case_option [] (\<lambda>c. [c]) (ow_conn m) @ gathered opened_conn tr =
       gathered left_conn tr @ case_option [] (\<lambda>c. [c]) (ow_conn m') \<and>
     of_bool (ow_ready m) + length (filter ready_action tr) =
       of_bool (ow_ready m') + length (gathered left_conn tr)"
proof (induction tr arbitrary: m)
  case (Cons a tr)
  then obtain m1 where step: "ownership a m = Some m1" and rest: "accepts ownership tr m1 = Some m'"
    by (auto split: option.splits)
  note now = ownership_step_accounts [OF step] and later = Cons.IH [OF rest]
  have "case_option [] (\<lambda>h. [h]) (ow_room m) @ gathered joined_handle (a # tr) =
      gathered dropped_handle (a # tr) @ case_option [] (\<lambda>h. [h]) (ow_room m')"
    using now(1) later by (simp flip: append_assoc) simp
  moreover have "case_option [] (\<lambda>c. [c]) (ow_conn m) @ gathered opened_conn (a # tr) =
      gathered left_conn (a # tr) @ case_option [] (\<lambda>c. [c]) (ow_conn m')"
    using now(2) later by (simp flip: append_assoc) simp
  moreover have "of_bool (ow_ready m) + length (filter ready_action (a # tr)) =
      of_bool (ow_ready m') + length (gathered left_conn (a # tr))"
  proof -
    have "length (filter ready_action (a # tr)) = of_bool (ready_action a) + length (filter ready_action tr)"
      by simp
    then show ?thesis using now(3) later unfolding gathered_simps length_append by linarith
  qed
  ultimately show ?case by blast
qed simp

text \<open>
  C7: What a session acquires and what it releases. Whatever the answers to its calls, a session
  opens a connection at a voice host only when it owns nothing at all; it joins the room only while
  it holds that connection, establishes the connection it opened, under the same host, room and
  client, and tells the client that it is ready only while it holds the room handle and has
  established. It leaves a connection once, before it drops the handle, and only a connection that
  was reported as ready. A session that has ended, in whichever way, has dropped every room handle it
  was given, in order, and has left every connection it reported as ready. One that has returned has
  left every connection a voice host opened for it; one that has failed or panicked has left
  them all but possibly the last, that of a set-up which failed before \<open>Ready\<close> was delivered: the
  code gives that one up without telling the host.
\<close>

theorem session_releases_what_it_owns:
  assumes "session_run b64 tr (session_start b64 sid) = Some p"
  shows "\<exists>m. accepts ownership tr nothing_owned = Some m \<and>
    (p = Ret None \<or> (\<exists>e. p = Fail e) \<longrightarrow>
       gathered joined_handle tr = gathered dropped_handle tr \<and>
       length (filter ready_action tr) = length (gathered left_conn tr) \<and>
       (gathered opened_conn tr = gathered left_conn tr \<or>
        (\<exists>e c. p = Fail e \<and> gathered opened_conn tr = gathered left_conn tr @ [c])))"
proof -
  obtain m where m: "accepts ownership tr nothing_owned = Some m"
      "p = Ret None \<longrightarrow> ended_owner None m" "\<forall>e. p = Fail e \<longrightarrow> ended_owner (Some e) m"
    using owns.run_accepted [OF assms] by blast
  have "gathered joined_handle tr = gathered dropped_handle tr @ case_option [] (\<lambda>h. [h]) (ow_room m)"
      "gathered opened_conn tr = gathered left_conn tr @ case_option [] (\<lambda>c. [c]) (ow_conn m)"
      "length (filter ready_action tr) = of_bool (ow_ready m) + length (gathered left_conn tr)"
    using ownership_accounts [OF m(1)] by (simp_all add: nothing_owned_def)
  then show ?thesis
    using m by (intro exI [of _ m]) (auto simp: ended_owner_def split: option.splits)
qed

section \<open>What the client is told\<close>

text \<open>A connection that is being set up, and what is known of it at each stage.\<close>

datatype 'v connecting =
    NoSetup
  | Opened 'v open_connection_req connection_data
  | InRoom 'v open_connection_req connection_data
  | Listed 'v open_connection_req connection_data "client_info list"
  | Announced 'v open_connection_req connection_data "client_info list"
  | Addressed 'v open_connection_req connection_data "client_info list" client_announce
  | Keyed 'v open_connection_req connection_data "client_info list" session_data

definition ready_for ::
  "(u8 list \<Rightarrow> string) \<Rightarrow> open_connection_req \<Rightarrow> connection_data \<Rightarrow> client_info list \<Rightarrow>
     session_data \<Rightarrow> ready_msg" where
  "ready_for b64 q c ms sd = \<lparr>rd_id = oc_channel_id q, rd_src_id = cd_source_id c,
     rd_present = map (\<lambda>m. \<lparr>pm_user = ci_name m, pm_source_id = ci_source_id m\<rparr>) ms,
     rd_crypt_key = b64 (sd_crypt_key sd)\<rparr>"

text \<open>
  The set-up protocol: the client hears of a UDP address only after the host has opened the
  connection and the room was joined under the source id of that connection; the host learns the
  address the client announced in answer; and \<open>Ready\<close> carries the data of this one set-up.
\<close>

definition setup_protocol :: "(u8 list \<Rightarrow> string) \<Rightarrow> ('v, 'v connecting) monitor" where
  "setup_protocol b64 a m = (case a of
      AOpen v q (Inr c) \<Rightarrow> Some (Opened v q c)
    | AJoin st i (Some rh) \<Rightarrow> (case m of
        Opened v q c \<Rightarrow> (if i = \<lparr>ci_client_id = oc_client_id q, ci_source_id = cd_source_id c,
            ci_name = oc_user_name q\<rparr> then Some (InRoom v q c) else None)
      | _ \<Rightarrow> None)
    | AMembers st (Some ms) \<Rightarrow> (case m of InRoom v q c \<Rightarrow> Some (Listed v q c ms) | _ \<Rightarrow> None)
    | ASend (SeUdpAnnounce u) True \<Rightarrow> (case m of
        Listed v q c ms \<Rightarrow> (if u = \<lparr>sa_msg_ip = sa_ip (cd_sock c), sa_msg_port = sa_port (cd_sock c),
            sa_source_id = cd_source_id c\<rparr> then Some (Announced v q c ms) else None)
      | _ \<Rightarrow> None)
    | ANext (Some (CeUdpAnnounce u)) \<Rightarrow> (case m of
        Announced v q c ms \<Rightarrow> Some (Addressed v q c ms u) | _ \<Rightarrow> Some NoSetup)
    | AEstablish v' q' r \<Rightarrow> (case m of
        Addressed v q c ms u \<Rightarrow>
          (if v' = v \<and> \<not> is_unspecified (ca_ip u) \<and>
              q' = \<lparr>es_channel_id = oc_channel_id q, es_client_id = oc_client_id q,
                es_client_addr = sa_from (ca_ip u) (ca_port u)\<rparr>
           then (case r of Inl e \<Rightarrow> Some NoSetup | Inr sd \<Rightarrow> Some (Keyed v q c ms sd)) else None)
      | _ \<Rightarrow> None)
    | ASend (SeReady rd) ok \<Rightarrow> (case m of
        Keyed v q c ms sd \<Rightarrow> (if rd = ready_for b64 q c ms sd then Some NoSetup else None)
      | _ \<Rightarrow> None)
    | _ \<Rightarrow> Some m)"

interpretation earns: session_monitor b64 "setup_protocol b64" NoSetup "\<lambda>s m. True" "\<lambda>e m. True"
  for b64 :: "u8 list \<Rightarrow> string"
proof
  show "obeys (setup_protocol b64) (\<lambda>s m. True) (\<lambda>e m. True) (session_init sid) NoSetup" for sid
    by (auto simp: program_defs obeys_andthen pre_def setup_protocol_def split: program_splits)
  show "obeys (setup_protocol b64) (\<lambda>r m. case r of Some s \<Rightarrow> True | None \<Rightarrow> True) (\<lambda>e m. True)
      (session_iter b64 s) m" for s :: "'a session" and m
    by (cases "ss_voice s")
      (auto simp: program_defs obeys_andthen obeys_on_error pre_def setup_protocol_def ready_for_def
        split: program_splits)
qed

text \<open>
  What a client sees of its session: whether it has been greeted and whether it believes to be
  connected. A send that fails tells the client nothing.
\<close>

datatype client_view = NotGreeted | OutOfVoice | InVoice

definition consistent_view :: "('v, client_view) monitor" where
  "consistent_view a m = (case a of
      ASend e ok \<Rightarrow> (case e of
          SeInit sid \<Rightarrow> (if m = NotGreeted then Some OutOfVoice else None)
        | SeReady r \<Rightarrow> (if m = OutOfVoice then Some (if ok then InVoice else OutOfVoice) else None)
        | SeDisconnected \<Rightarrow> (if m = InVoice then Some OutOfVoice else None)
        | SeJoined u \<Rightarrow> (if m = InVoice then Some m else None)
        | SeLeft u \<Rightarrow> (if m = InVoice then Some m else None)
        | SeUdpAnnounce u \<Rightarrow> (if m = OutOfVoice then Some m else None)
        | SeJoinError room \<Rightarrow> (if m = OutOfVoice then Some m else None)
        | SeKeepalive k \<Rightarrow> None)
    | ASelect has_voice e \<Rightarrow> (if has_voice = (m = InVoice) then Some m else None)
    | _ \<Rightarrow> Some m)"

interpretation view: session_monitor b64 consistent_view NotGreeted
  "\<lambda>s m. m = (if ss_voice s = None then OutOfVoice else InVoice)"
  "\<lambda>e m. e = None \<longrightarrow> m = OutOfVoice" for b64 :: "u8 list \<Rightarrow> string"
proof
  show "obeys consistent_view (\<lambda>s m. m = (if ss_voice s = None then OutOfVoice else InVoice))
      (\<lambda>e m. Some e = None \<longrightarrow> m = OutOfVoice) (session_init sid) NotGreeted" for sid
    by (auto simp: program_defs obeys_andthen pre_def consistent_view_def split: program_splits)
  show "obeys consistent_view (\<lambda>r m. case r of
        Some s \<Rightarrow> m = (if ss_voice s = None then OutOfVoice else InVoice)
      | None \<Rightarrow> None = None \<longrightarrow> m = OutOfVoice)
      (\<lambda>e m. Some e = None \<longrightarrow> m = OutOfVoice) (session_iter b64 s) m"
    if "m = (if ss_voice s = None then OutOfVoice else InVoice)" for s :: "'a session" and m
    using that
    by (cases "ss_voice s")
      (auto simp: program_defs obeys_andthen obeys_on_error pre_def consistent_view_def
        split: program_splits)
qed

section \<open>A session from greeting to end\<close>

definition demo_key :: "u8 list \<Rightarrow> string" where
  "demo_key bs = replicate (length bs) CHR ''k''"

definition demo_sock :: socket_addr where
  "demo_sock = SocketV4 0x7f000001 33333"

definition demo_room :: room_handle where
  "demo_room = \<lparr>rh_state = 0, rh_joined = \<lparr>updates = 0,
     jr_info = \<lparr>ci_client_id = 1, ci_source_id = 9, ci_name = ''ann''\<rparr>\<rparr>\<rparr>"

definition demo_session_trace :: "unit action list" where
  "demo_session_trace =
     (let ch = \<lparr>gc_room_id = 5, gc_state = 0, gc_voice = ()\<rparr>; me = jr_info (rh_joined demo_room) in
      [ANext (Some (CeInit \<lparr>user_id = 1, init_name = ''ann''\<rparr>)), ASend (SeInit 7) True,
       ASelect False (ClientEvt (Some (CeJoin 5))),
       AMapGet 5 None, AVoiceFor 5 False (Some (Some ())), AInitState 5 (Some 0), AMapOrInsert ch ch,
       AOpen () \<lparr>oc_user_name = ''ann'', oc_channel_id = 5, oc_client_id = 1\<rparr>
         (Inr \<lparr>cd_sock = demo_sock, cd_source_id = 9\<rparr>),
       AJoin 0 me (Some demo_room), AMembers 0 (Some [me]),
       ASend (SeUdpAnnounce \<lparr>sa_msg_ip = V4 0x7f000001, sa_msg_port = 33333, sa_source_id = 9\<rparr>) True,
       ANext (Some (CeUdpAnnounce \<lparr>ca_ip = V4 0x7f000001, ca_port = 4444\<rparr>)),
       AEstablish () \<lparr>es_channel_id = 5, es_client_id = 1, es_client_addr = SocketV4 0x7f000001 4444\<rparr>
         (Inr \<lparr>sd_crypt_key = [1, 2]\<rparr>),
       ASend (SeReady \<lparr>rd_id = 5, rd_src_id = 9,
         rd_present = [\<lparr>pm_user = ''ann'', pm_source_id = 9\<rparr>], rd_crypt_key = ''kk''\<rparr>) True,
       ASelect True (ClientEvt None),
       ASpawnLeave () 5 1, ADropRoom demo_room, ASend SeDisconnected False])"

lemma demo_session_run:
  "session_run demo_key demo_session_trace (session_start demo_key 7) = Some (Ret None)"
  by (simp add: demo_session_trace_def Let_def session_start_def resume_def program_defs demo_room_def
      demo_sock_def demo_key_def)

theorem session_releases_what_it_owns_witness:
  "gathered opened_conn demo_session_trace = [((), 5, 1)] \<and>
   gathered left_conn demo_session_trace = [((), 5, 1)] \<and>
   gathered joined_handle demo_session_trace = gathered dropped_handle demo_session_trace"
  using session_releases_what_it_owns [OF demo_session_run]
  by (auto simp: demo_session_trace_def Let_def)

text \<open>
  C10: Ready is earned. Whatever the answers to its calls, a session announces a UDP address only
  after the host opened the connection, the room was joined under the source id of that connection
  and its members were listed; it establishes the session with the host that opened it, under the
  address the client announced in reply, never an unspecified one; and it sends \<open>Ready\<close> at most
  once per set-up, with the room, source id, members and key of exactly this set-up.
\<close>

theorem ready_is_earned:
  assumes "session_run b64 tr (session_start b64 sid) = Some p"
  shows "accepts (setup_protocol b64) tr NoSetup \<noteq> None"
  using earns.run_accepted [OF assms] by auto

theorem ready_is_earned_witness:
  "session_run demo_key (take 14 demo_session_trace) (session_start demo_key 7) \<noteq> None \<and>
   accepts (setup_protocol demo_key) (take 14 demo_session_trace) NoSetup \<noteq> None"
proof -
  have "session_run demo_key (take 14 demo_session_trace) (session_start demo_key 7) \<noteq> None"
    by (simp add: demo_session_trace_def Let_def session_start_def resume_def program_defs
        demo_room_def demo_sock_def demo_key_def)
  then show ?thesis using ready_is_earned by blast
qed

text \<open>
  C9: A consistent view. A session greets its client first and once. After that \<open>Ready\<close> and
  \<open>Disconnected\<close> alternate; members coming and going are only reported between the two, UDP
  addresses and join errors only outside, keepalives never; and the session listens to the voice
  connection exactly while the client believes to be connected. When a session returns, the client
  has been told that it is disconnected.
\<close>

theorem client_view_is_consistent:
  assumes "session_run b64 tr (session_start b64 sid) = Some p"
  shows "\<exists>m. accepts consistent_view tr NotGreeted = Some m \<and> (p = Ret None \<longrightarrow> m = OutOfVoice)"
  using view.run_accepted [OF assms] by auto

theorem client_view_is_consistent_witness:
  "accepts consistent_view demo_session_trace NotGreeted = Some OutOfVoice"
  using client_view_is_consistent [OF demo_session_run] by auto

section \<open>Interrupted set-ups\<close>

text \<open>
  After the UDP announcement the session waits for the client's address. Anything else the client
  says dooms the session: it may only drop its room handle any more.
\<close>

datatype setup_fate = Calm | WaitingForAddress | Doomed | Dead

definition interruption :: "('v, setup_fate) monitor" where
  "interruption a m = (if m = Doomed then (case a of ADropRoom rh \<Rightarrow> Some Dead | _ \<Rightarrow> None)
     else if m = Dead then None
     else (case a of
        ASend (SeUdpAnnounce u) True \<Rightarrow> Some WaitingForAddress
      | ANext e \<Rightarrow> Some (if m = WaitingForAddress \<and> (\<nexists>u. e = Some (CeUdpAnnounce u)) then Doomed else Calm)
      | _ \<Rightarrow> Some m))"

interpretation doom: session_monitor b64 interruption Calm "\<lambda>s m. m = Calm"
  "\<lambda>e m. m = Calm \<or> m = Dead \<and> e \<noteq> None" for b64 :: "u8 list \<Rightarrow> string"
proof
  show "obeys interruption (\<lambda>s m. m = Calm) (\<lambda>e m. m = Calm \<or> m = Dead \<and> Some e \<noteq> None)
      (session_init sid) Calm" for sid
    by (auto simp: program_defs obeys_andthen pre_def interruption_def split: program_splits)
  show "obeys interruption (\<lambda>r m. case r of Some s \<Rightarrow> m = Calm
        | None \<Rightarrow> m = Calm \<or> m = Dead \<and> None \<noteq> None)
      (\<lambda>e m. m = Calm \<or> m = Dead \<and> Some e \<noteq> None) (session_iter b64 s) m"
    if "m = Calm" for s :: "'a session" and m
    using that
    by (cases "ss_voice s")
      (auto simp: program_defs obeys_andthen obeys_on_error pre_def interruption_def
        split: program_splits)
qed

lemma accepts_append:
  "accepts d (xs @ ys) m = Option.bind (accepts d xs m) (accepts d ys)"
  by (induction xs arbitrary: m) (auto split: option.splits)

lemma obeys_dead:
  fixes p :: "('v, 'a) prog"
  assumes "obeys interruption Q E p Dead" and "\<And>x. \<not> Q x Dead"
  shows "\<exists>e. p = Fail e"
proof (cases p)
  case (Select b k)
  have "selectable b (ClientEvt None)" by simp
  then have "pre interruption (ASelect b (ClientEvt None) :: 'v action) (obeys interruption Q E (k (ClientEvt None))) Dead"
    using assms(1) unfolding Select obeys.simps by blast
  then show ?thesis by (simp add: pre_def interruption_def)
qed (use assms in \<open>auto simp: pre_def interruption_def\<close>)

text \<open>
  An interrupted set-up ends the session. When the client sends anything but its UDP address
  while the session waits for it, or is gone, the session drops its room handle and fails. It sends
  nothing any more, neither a join error nor \<open>Disconnected\<close>, and it does not leave the connection
  that the voice host has opened for it.
\<close>

theorem interrupted_setup_ends_session:
  assumes "session_run b64 (tr @ ANext e # rest) (session_start b64 sid) = Some p"
    and "accepts interruption tr Calm = Some WaitingForAddress"
    and "\<nexists>u. e = Some (CeUdpAnnounce u)"
  shows "rest = [] \<or> (\<exists>rh err. rest = [ADropRoom rh] \<and> p = Fail err)"
proof -
  obtain m where m: "accepts interruption (tr @ ANext e # rest) Calm = Some m" "doom.ok p m"
    using doom.run_ok [OF assms(1) doom.ok_start] by blast
  have doomed: "accepts interruption rest Doomed = Some m"
    using m(1) assms(2,3) by (simp add: accepts_append interruption_def)
  show ?thesis
  proof (cases rest)
    case (Cons a more)
    obtain rh where a: "a = ADropRoom rh"
      using doomed unfolding Cons by (cases a) (simp_all add: interruption_def)
    have dead: "accepts interruption more Dead = Some m"
      using doomed unfolding Cons a by (simp add: interruption_def)
    then have "more = []" by (cases more) (simp_all add: interruption_def)
    with dead have "m = Dead" by simp
    have "\<exists>err. p = Fail err"
      by (rule obeys_dead [OF m(2) [unfolded doom.ok_def \<open>m = Dead\<close>]]) (simp split: option.splits)
    then show ?thesis using Cons a \<open>more = []\<close> by blast
  qed simp
qed

theorem interrupted_setup_ends_session_witness:
  "\<exists>rh err. [ADropRoom demo_room] = [ADropRoom rh :: unit action] \<and>
     session_run demo_key (take 11 demo_session_trace @ ANext (Some CeLeave) # [ADropRoom demo_room])
       (session_start demo_key 7) = Some (Fail err)"
proof -
  let ?run = "session_run demo_key (take 11 demo_session_trace @ ANext (Some CeLeave) #
      [ADropRoom demo_room]) (session_start demo_key 7)"
  have run: "?run = Some (Fail (UnexpectedMessage ''UdpAnnounce'' ''Leave''))"
    by (simp add: demo_session_trace_def Let_def session_start_def resume_def program_defs
        demo_room_def demo_sock_def demo_key_def)
  have "accepts interruption (take 11 demo_session_trace) Calm = Some WaitingForAddress"
    by (simp add: demo_session_trace_def Let_def interruption_def)
  from interrupted_setup_ends_session [OF run this] show ?thesis using run by simp
qed

end
