(* ===== verification/Session_World.thy ===== *)
theory Session_World
  imports Session "HOL-Library.Multiset"
begin

text \<open>
  Many sessions at once: what each of them holds, and how it fits to the open handles of the
  channels, whoever keeps them. The standalone gateway (\<open>Gateway\<close>) and the distributed one
  (\<open>Distributed_Gateway\<close>) are the two worlds sessions live in.
\<close>

section \<open>Runs of several sessions\<close>

lemma session_run_append:
  "session_run b64 (xs @ ys) p = Option.bind (session_run b64 xs p) (session_run b64 ys)"
  by (induction xs arbitrary: p) (auto split: option.splits)

definition are_runs ::
  "(u8 list \<Rightarrow> string) \<Rightarrow> ('v action list \<times> ('v, 'v session option) prog) list \<Rightarrow> bool" where
  "are_runs b64 ss \<longleftrightarrow>
     (\<forall>(tr, p) \<in> set ss. \<exists>sid. session_run b64 tr (session_start b64 sid) = Some p)"

lemma are_runs_nth:
  "are_runs b64 ss \<Longrightarrow> i < length ss \<Longrightarrow> ss ! i = (tr, p) \<Longrightarrow>
     \<exists>sid. session_run b64 tr (session_start b64 sid) = Some p"
  unfolding are_runs_def using nth_mem by fastforce

lemma are_runs_act:
  assumes "are_runs b64 ss" and "i < length ss" and "ss ! i = (tr, p)" and "advance a p = Some p'"
  shows "are_runs b64 (ss[i := (tr @ [a], resume b64 p')])"
proof -
  obtain sid where "session_run b64 tr (session_start b64 sid) = Some p"
    using are_runs_nth [OF assms(1-3)] by blast
  then have "session_run b64 (tr @ [a]) (session_start b64 sid) = Some (resume b64 p')"
    by (simp add: session_run_append assms(4))
  then show ?thesis
    using assms(1) set_update_subset_insert [of ss i] unfolding are_runs_def by fastforce
qed

section \<open>References to channel states\<close>

text \<open>A session only uses references it was given.\<close>

definition given_states :: "('v, nat set) monitor" where
  "given_states a m = (case a of
      AMapGet room (Some c) \<Rightarrow> Some (insert (gc_state c) m)
    | AMapOrInsert c c' \<Rightarrow> (if gc_state c \<in> m then Some (insert (gc_state c') m) else None)
    | AMapReassign room v (Some c) \<Rightarrow> Some (insert (gc_state c) m)
    | AInitState room (Some st) \<Rightarrow> Some (insert st m)
    | AJoin st info rh \<Rightarrow> (if st \<in> m then Some m else None)
    | AMembers st ms \<Rightarrow> (if st \<in> m then Some m else None)
    | _ \<Rightarrow> Some m)"

interpretation given: session_monitor b64 given_states "{}" "\<lambda>s m. True" "\<lambda>e m. True"
  for b64 :: "u8 list \<Rightarrow> string"
proof
  show "obeys given_states (\<lambda>s m. True) (\<lambda>e m. True) (session_init sid) {}" for sid
    by (auto simp: program_defs obeys_andthen pre_def given_states_def split: program_splits)
  show "obeys given_states (\<lambda>r m. case r of Some s \<Rightarrow> True | None \<Rightarrow> True) (\<lambda>e m. True)
      (session_iter b64 s) m" for s :: "'a session" and m
    by (cases "ss_voice s")
      (auto simp: program_defs obeys_andthen obeys_on_error pre_def given_states_def
        split: program_splits)
qed

section \<open>Room handles\<close>

text \<open>What a session has been given and what it holds, from its actions.\<close>

definition refs :: "'v action list \<Rightarrow> nat set" where
  "refs tr = (case accepts given_states tr {} of None \<Rightarrow> {} | Some m \<Rightarrow> m)"

definition held :: "'v action list \<Rightarrow> room_handle option" where
  "held tr = Option.bind (accepts ownership tr nothing_owned) ow_room"

definition at_room :: "nat \<Rightarrow> room_handle option \<Rightarrow> chat_room_joined list" where
  "at_room st r = (case r of
      None \<Rightarrow> [] | Some rh \<Rightarrow> (if rh_state rh = st then [rh_joined rh] else []))"

definition held_at :: "nat \<Rightarrow> 'v action list \<Rightarrow> chat_room_joined list" where
  "held_at st tr = at_room st (held tr)"

definition held_handles ::
  "nat \<Rightarrow> ('v action list \<times> ('v, 'v session option) prog) list \<Rightarrow> chat_room_joined list" where
  "held_handles st ss = concat (map (held_at st \<circ> fst) ss)"

lemma held_handles_update:
  assumes "i < length ss" and "ss ! i = (tr, p)"
  shows "mset (held_handles st (ss[i := (tr', p')])) + mset (held_at st tr) =
    mset (held_handles st ss) + mset (held_at st tr')"
proof -
  have "ss = take i ss @ (tr, p) # drop (Suc i) ss"
    using id_take_nth_drop [OF assms(1)] assms(2) by simp
  then have "mset (held_handles st ss) = mset (held_handles st (take i ss)) + mset (held_at st tr) +
      mset (held_handles st (drop (Suc i) ss))"
    by (metis (no_types, lifting) append.assoc comp_apply concat.simps(2) concat_append fst_conv
        held_handles_def list.simps(9) map_append mset_append)
  moreover have "mset (held_handles st (ss[i := (tr', p')])) =
      mset (held_handles st (take i ss)) + mset (held_at st tr') + mset (held_handles st (drop (Suc i) ss))"
    unfolding upd_conv_take_nth_drop [OF assms(1)] held_handles_def by simp
  ultimately show ?thesis by simp
qed

lemma held_handles_append [simp]:
  "held_handles st (ss @ [(tr, p)]) = held_handles st ss @ held_at st tr"
  by (simp add: held_handles_def)

lemma held_Nil [simp]: "held [] = None" "refs [] = {}" "held_at st [] = []"
  by (simp_all add: held_def refs_def held_at_def at_room_def nothing_owned_def)

text \<open>What one more action of a run changes.\<close>

lemma run_grows:
  assumes "session_run b64 (tr @ [a]) (session_start b64 sid) = Some p"
  obtains m m' n n' where "ownership a m = Some m'" and "held tr = ow_room m"
    and "held (tr @ [a]) = ow_room m'" and "given_states a n = Some n'" and "refs tr = n"
    and "refs (tr @ [a]) = n'"
proof -
  obtain m' where "accepts ownership (tr @ [a]) nothing_owned = Some m'"
    using owns.run_accepted [OF assms] by blast
  moreover obtain n' where "accepts given_states (tr @ [a]) {} = Some n'"
    using given.run_accepted [OF assms] by blast
  ultimately show thesis
    using that by (auto simp: accepts_append held_def refs_def split: option.splits bind_splits)
qed

definition drops_open :: "'v action \<Rightarrow> (nat \<Rightarrow> chat_room_joined list) \<Rightarrow> bool" where
  "drops_open a hs \<longleftrightarrow> (\<forall>rh. dropped_handle a = Some rh \<longrightarrow> rh_joined rh \<in> set (hs (rh_state rh)))"

lemma ownership_handles:
  assumes "ownership a m = Some m'"
  shows "mset (at_room st (ow_room m')) + mset (at_room st (dropped_handle a)) =
    mset (at_room st (ow_room m)) + mset (at_room st (joined_handle a))"
    and "dropped_handle a = Some rh \<Longrightarrow> ow_room m = Some rh"
    and "ow_room m' = Some rh \<Longrightarrow> ow_room m = Some rh \<or> joined_handle a = Some rh"
  using assms
  by (cases a; auto simp: ownership_def nothing_owned_def at_room_def
      split: if_splits server_event.splits option.splits sum.splits)+

section \<open>Sessions in their surroundings\<close>

text \<open>The answer to an action is the one given to it.\<close>

definition answered :: "bool \<Rightarrow> 'w \<Rightarrow> 'w option" where
  "answered right w = (if right then Some w else None)"

text \<open>
  What the sessions need of the world that answers them: states of channels are only added, a
  session is only given references to states there are, and the open handles of the states change
  by what the sessions join and drop. What holds of all the sessions in such a world is shown here
  once, for the standalone and the distributed gateway.
\<close>

locale session_world =
  fixes b64 :: "u8 list \<Rightarrow> string"
    and performs :: "'v action \<Rightarrow> 'w \<Rightarrow> 'w \<Rightarrow> bool"
    and states :: "'w \<Rightarrow> nat"
    and handles :: "'w \<Rightarrow> nat \<Rightarrow> chat_room_joined list"
    and refs_ok :: "'w \<Rightarrow> bool"
  assumes states_grow: "performs a w w' \<Longrightarrow> states w \<le> states w'"
    and given_in_range: "performs a w w' \<Longrightarrow> given_states a n = Some n' \<Longrightarrow> n \<subseteq> {..<states w} \<Longrightarrow>
      refs_ok w \<Longrightarrow> drops_open a (handles w) \<Longrightarrow> n' \<subseteq> {..<states w'} \<and> refs_ok w'"
    and no_handles_beyond: "states w \<le> st \<Longrightarrow> handles w st = []"
    and handles_change: "performs a w w' \<Longrightarrow> refs_ok w \<Longrightarrow>
      (\<forall>st' info r. a = AJoin st' info r \<longrightarrow> st' < states w) \<Longrightarrow> drops_open a (handles w) \<Longrightarrow>
      mset (handles w' st) + mset (at_room st (dropped_handle a)) =
      mset (handles w st) + mset (at_room st (joined_handle a))"
    and joined_in_range: "performs (AJoin st info (Some rh)) w w' \<Longrightarrow> st < states w \<Longrightarrow>
      rh_state rh < states w"
begin

definition agree :: "'w \<Rightarrow> ('v action list \<times> ('v, 'v session option) prog) list \<Rightarrow> bool" where
  "agree w ss \<longleftrightarrow> are_runs b64 ss \<and> refs_ok w \<and>
     (\<forall>(tr, p) \<in> set ss. refs tr \<subseteq> {..<states w} \<and>
        (\<forall>rh. held tr = Some rh \<longrightarrow> rh_state rh < states w)) \<and>
     (\<forall>st. mset (handles w st) = mset (held_handles st ss))"

lemma agreeD:
  assumes "agree w ss"
  shows "are_runs b64 ss" and "refs_ok w"
    and "(tr, p) \<in> set ss \<Longrightarrow> refs tr \<subseteq> {..<states w}"
    and "(tr, p) \<in> set ss \<Longrightarrow> held tr = Some rh \<Longrightarrow> rh_state rh < states w"
    and "mset (handles w st) = mset (held_handles st ss)"
  using assms unfolding agree_def by blast+

lemma held_is_open:
  assumes "agree w ss" and "(tr, p) \<in> set ss" and "held tr = Some rh"
  shows "rh_joined rh \<in> set (handles w (rh_state rh))"
proof -
  have "rh_joined rh \<in> set (held_at (rh_state rh) tr)"
    using assms(3) by (simp add: held_at_def at_room_def)
  then have "rh_joined rh \<in> set (held_handles (rh_state rh) ss)"
    using assms(2) unfolding held_handles_def by force
  then show ?thesis
    using agreeD(5) [OF assms(1), of "rh_state rh"] by (metis set_mset_mset)
qed

lemma agree_connect: "agree w ss \<Longrightarrow> agree w (ss @ [([], session_start b64 sid)])"
proof -
  have "are_runs b64 [([], session_start b64 sid)]" unfolding are_runs_def by auto
  then show "agree w ss \<Longrightarrow> agree w (ss @ [([], session_start b64 sid)])"
    unfolding agree_def are_runs_def by auto
qed

lemma agree_keep:
  assumes "agree w ss" and "states w \<le> states w'" and "refs_ok w'"
    and "\<And>st. mset (handles w' st) = mset (handles w st)"
  shows "agree w' ss"
  using assms unfolding agree_def by fastforce

text \<open>
  A session that acts uses a state it was given, and drops a handle that is open.
\<close>

lemma act_fits:
  assumes inv: "agree w ss" and i: "i < length ss" "ss ! i = (tr, p)" and adv: "advance a p = Some p'"
  obtains m m' n n' where "ownership a m = Some m'" and "held tr = ow_room m"
    and "held (tr @ [a]) = ow_room m'" and "given_states a n = Some n'" and "n \<subseteq> {..<states w}"
    and "refs (tr @ [a]) = n'" and "\<forall>st info r. a = AJoin st info r \<longrightarrow> st < states w"
    and "drops_open a (handles w)"
proof -
  have mem: "(tr, p) \<in> set ss" using i nth_mem by metis
  have runs: "are_runs b64 (ss[i := (tr @ [a], resume b64 p')])"
    by (rule are_runs_act [OF agreeD(1) [OF inv] i adv])
  obtain sid where "session_run b64 (tr @ [a]) (session_start b64 sid) = Some (resume b64 p')"
    using are_runs_nth [OF runs] i(1) by fastforce
  then obtain m m' n n' where own: "ownership a m = Some m'" "held tr = ow_room m"
      "held (tr @ [a]) = ow_room m'" and given: "given_states a n = Some n'" "refs tr = n"
      "refs (tr @ [a]) = n'"
    by (rule run_grows)
  have n: "n \<subseteq> {..<states w}" using agreeD(3) [OF inv mem] given(2) by simp
  then have "\<forall>st info r. a = AJoin st info r \<longrightarrow> st < states w"
    using given(1) by (auto simp: given_states_def split: if_splits)
  moreover have "drops_open a (handles w)"
    using ownership_handles(2) [OF own(1)] own(2) held_is_open [OF inv mem] by (simp add: drops_open_def)
  ultimately show thesis using that own given n by blast
qed

lemma agree_act:
  assumes inv: "agree w ss" and i: "i < length ss" "ss ! i = (tr, p)"
    and adv: "advance a p = Some p'" and perf: "performs a w w'"
  shows "agree w' (ss[i := (tr @ [a], resume b64 p')])"
proof -
  let ?ss = "ss[i := (tr @ [a], resume b64 p')]"
  have mem: "(tr, p) \<in> set ss" using i nth_mem by metis
  have runs: "are_runs b64 ?ss" by (rule are_runs_act [OF agreeD(1) [OF inv] i adv])
  obtain m m' n n' where own: "ownership a m = Some m'" "held tr = ow_room m"
      "held (tr @ [a]) = ow_room m'" and given: "given_states a n = Some n'" and n: "n \<subseteq> {..<states w}"
    and new: "refs (tr @ [a]) = n'" and st: "\<forall>st info r. a = AJoin st info r \<longrightarrow> st < states w"
    and dropped: "drops_open a (handles w)"
    using inv i adv by (rule act_fits)
  note owned = ownership_handles [OF own(1)] and longer = states_grow [OF perf]
  have range: "n' \<subseteq> {..<states w'}" "refs_ok w'"
    using given_in_range [OF perf given n agreeD(2) [OF inv] dropped] by auto
  have "mset (handles w' st) = mset (held_handles st ?ss)" for st
  proof -
    let ?d = "mset (at_room st (dropped_handle a))" and ?m = "mset (at_room st (ow_room m))"
    have "mset (handles w' st) + ?d + ?m =
        mset (held_handles st ss) + (?m + mset (at_room st (joined_handle a)))"
      using handles_change [OF perf agreeD(2) [OF inv] st dropped, of st] agreeD(5) [OF inv, of st]
      by (simp add: add.commute add.left_commute)
    also have "\<dots> = (mset (held_handles st ss) + mset (at_room st (ow_room m'))) + ?d"
      unfolding owned(1) [symmetric] by (simp add: add.assoc)
    also have "\<dots> = mset (held_handles st ?ss) + ?m + ?d"
      using held_handles_update [OF i, of st "tr @ [a]" "resume b64 p'"] own(2,3)
      by (simp add: held_at_def)
    finally show ?thesis by simp
  qed
  moreover have "rh_state rh < states w'" if now: "held (tr @ [a]) = Some rh" for rh
  proof -
    consider "held tr = Some rh" | "joined_handle a = Some rh"
      using owned(3) [of rh] own(2,3) now by auto
    then show ?thesis
    proof cases
      case 1
      then show ?thesis using agreeD(4) [OF inv mem] longer by fastforce
    next
      case 2
      then obtain st info where "a = AJoin st info (Some rh)" by (cases a) auto
      then show ?thesis using joined_in_range perf st longer by fastforce
    qed
  qed
  moreover have "refs tr' \<subseteq> {..<states w'} \<and> (\<forall>rh. held tr' = Some rh \<longrightarrow> rh_state rh < states w')"
    if "(tr', q) \<in> set ss" for tr' q
    using agreeD(3,4) [OF inv that] longer by (meson less_le_trans lessThan_subset_iff order_trans)
  ultimately show ?thesis
    using runs range new set_update_subset_insert [of ss i "(tr @ [a], resume b64 p')"]
    unfolding agree_def by fastforce
qed

end

lemma over_holds_nothing:
  assumes "session_run b64 tr (session_start b64 sid) = Some p" and "p = Ret None \<or> (\<exists>e. p = Fail e)"
  shows "held tr = None"
  using owns.run_accepted [OF assms(1)] assms(2) by (auto simp: held_def nothing_owned_def ended_owner_def)

end
