(* ===== verification/Ports.thy ===== *)
theory Ports
  imports Voices_Prelude
begin

text \<open>
  The UDP port pool of the voice server, \<open>server/voice/core/src/ports.rs\<close>: one flag per port,
  \<open>True\<close> while the port is free, and the \<open>PortRef\<close> that gives its port back when dropped.
\<close>

record ports =
  start :: u16
  state :: "bool list"

record port_ref =
  port :: u16
  slot :: nat

text \<open>
  \<open>Ports::new\<close>: a start of 0 asks the operating system for a port, \<open>os_port\<close> here; \<open>None\<close> is
  the error of that bind.
\<close>

definition ports_new :: "u16 option \<Rightarrow> u16 \<Rightarrow> u16 \<Rightarrow> ports option" where
  "ports_new os_port start_arg limit =
     (let state = replicate (unat limit) True in
      if start_arg = 0 then
        (case os_port of
           None \<Rightarrow> None
         | Some p \<Rightarrow> Some \<lparr>start = p, state = state\<rparr>)
      else Some \<lparr>start = start_arg, state = state\<rparr>)"

text \<open>
  The scan of \<open>Ports::get\<close> from slot \<open>i\<close>: the first free flag is taken. The addition
  \<open>i as u16 + self.start\<close> wraps in a release build.
\<close>

fun ports_scan :: "u16 \<Rightarrow> nat \<Rightarrow> bool list \<Rightarrow> (bool list \<times> port_ref) option" where
  "ports_scan st i [] = None"
| "ports_scan st i (free # rest) =
     (if free then Some (False # rest, \<lparr>port = of_nat i + st, slot = i\<rparr>)
      else (case ports_scan st (Suc i) rest of
              None \<Rightarrow> None
            | Some (rest', r) \<Rightarrow> Some (free # rest', r)))"

definition ports_get :: "ports \<Rightarrow> (ports \<times> port_ref) option" where
  "ports_get p = (case ports_scan (start p) 0 (state p) of
      None \<Rightarrow> None
    | Some (st, r) \<Rightarrow> Some (p\<lparr>state := st\<rparr>, r))"

text \<open>\<open>Drop for PortRef\<close>.\<close>

definition port_ref_drop :: "port_ref \<Rightarrow> ports \<Rightarrow> ports" where
  "port_ref_drop r p = p\<lparr>state := (state p)[slot r := True]\<rparr>"

definition ports_total :: "ports \<Rightarrow> u16" where
  "ports_total p = of_nat (length (state p))"

section \<open>The pool interface\<close>

text \<open>
  What the channel registry of the voice server relies on: allocation takes a free slot,
  releasing frees it, and nothing else changes. \<open>pool_inv p held\<close> says the free slots and the
  slots of the references handed out are a partition of the pool.
\<close>

locale slot_pool =
  fixes alloc :: "'p \<Rightarrow> ('p \<times> 'r) option"
    and release :: "'r \<Rightarrow> 'p \<Rightarrow> 'p"
    and ref_slot :: "'r \<Rightarrow> nat"
    and size_of :: "'p \<Rightarrow> nat"
    and is_free :: "'p \<Rightarrow> nat \<Rightarrow> bool"
  assumes alloc_free: "alloc p = Some (p', r) \<Longrightarrow> is_free p (ref_slot r)"
    and alloc_takes: "alloc p = Some (p', r) \<Longrightarrow>
          is_free p' j \<longleftrightarrow> is_free p j \<and> j \<noteq> ref_slot r"
    and alloc_none: "alloc p = None \<Longrightarrow> \<not> is_free p j"
    and alloc_size: "alloc p = Some (p', r) \<Longrightarrow> size_of p' = size_of p"
    and release_frees: "is_free (release r p) j \<longleftrightarrow>
          is_free p j \<or> (j = ref_slot r \<and> j < size_of p)"
    and release_size: "size_of (release r p) = size_of p"
    and free_bound: "is_free p j \<Longrightarrow> j < size_of p"
begin

definition pool_inv :: "'p \<Rightarrow> 'r list \<Rightarrow> bool" where
  "pool_inv p held \<longleftrightarrow> distinct (map ref_slot held) \<and>
     (\<forall>j. j < size_of p \<longrightarrow> is_free p j \<longleftrightarrow> j \<notin> ref_slot ` set held) \<and>
     (\<forall>r \<in> set held. ref_slot r < size_of p)"

lemma pool_inv_alloc:
  assumes "pool_inv p held" and "alloc p = Some (p', r)"
  shows "pool_inv p' (r # held)"
  using assms alloc_free [OF assms(2)] alloc_takes [OF assms(2)] alloc_size [OF assms(2)]
    free_bound
  unfolding pool_inv_def by auto

lemma pool_inv_release:
  assumes inv: "pool_inv p (xs @ r # ys)"
  shows "pool_inv (release r p) (xs @ ys)"
proof -
  have dist: "distinct (map ref_slot (xs @ r # ys))"
    and part: "\<And>j. j < size_of p \<Longrightarrow> is_free p j \<longleftrightarrow> j \<notin> ref_slot ` set (xs @ r # ys)"
    and bound: "\<And>q. q \<in> set (xs @ r # ys) \<Longrightarrow> ref_slot q < size_of p"
    using inv unfolding pool_inv_def by blast+
  have gone: "ref_slot r \<notin> ref_slot ` set (xs @ ys)" using dist by auto
  have "is_free (release r p) j \<longleftrightarrow> j \<notin> ref_slot ` set (xs @ ys)" if "j < size_of p" for j
    using part [OF that] gone that by (auto simp: release_frees)
  moreover have "distinct (map ref_slot (xs @ ys))" using dist by simp
  moreover have "ref_slot q < size_of (release r p)" if "q \<in> set (xs @ ys)" for q
    using bound [of q] that by (simp add: release_size)
  ultimately show ?thesis unfolding pool_inv_def release_size by blast
qed

lemma pool_full:
  assumes inv: "pool_inv p held" and none: "alloc p = None"
  shows "length held = size_of p"
proof -
  have "ref_slot ` set held = {..<size_of p}"
    using inv alloc_none [OF none] unfolding pool_inv_def by auto
  moreover have "card (ref_slot ` set held) = length held"
    using inv distinct_card [of "map ref_slot held"] unfolding pool_inv_def by simp
  ultimately show ?thesis by simp
qed

lemma pool_bound:
  assumes inv: "pool_inv p held"
  shows "length held \<le> size_of p"
proof -
  have "ref_slot ` set held \<subseteq> {..<size_of p}" using inv by (auto simp: pool_inv_def)
  then have "card (set (map ref_slot held)) \<le> size_of p"
    using card_mono [of "{..<size_of p}"] by simp
  then show ?thesis using inv distinct_card [of "map ref_slot held"] by (simp add: pool_inv_def)
qed

lemma pool_full_iff:
  assumes inv: "pool_inv p held"
  shows "alloc p = None \<longleftrightarrow> length held = size_of p"
proof
  assume len: "length held = size_of p"
  show "alloc p = None"
  proof (rule ccontr)
    assume "alloc p \<noteq> None"
    then obtain p' r where got: "alloc p = Some (p', r)" by auto
    then show False
      using pool_bound [OF pool_inv_alloc [OF inv got]] alloc_size [OF got] len by simp
  qed
qed (rule pool_full [OF inv])

lemma pool_not_full:
  assumes inv: "pool_inv p held" and less: "length held < size_of p"
  shows "alloc p \<noteq> None"
  using pool_full [OF inv] less by fastforce

end

section \<open>What the operations do\<close>

lemma ports_scan_None: "ports_scan st i fs = None \<longleftrightarrow> True \<notin> set fs"
proof (induction fs arbitrary: i)
  case (Cons f fs)
  show ?case
    using Cons.IH [of "Suc i"] by (cases f; cases "ports_scan st (Suc i) fs") auto
qed simp

lemma ports_scan_Some:
  "ports_scan st i fs = Some (fs', r) \<Longrightarrow>
     i \<le> slot r \<and> slot r - i < length fs \<and> fs ! (slot r - i) \<and>
     (\<forall>j < slot r - i. \<not> fs ! j) \<and> fs' = fs[slot r - i := False] \<and>
     port r = of_nat (slot r) + st"
proof (induction fs arbitrary: i fs' r)
  case (Cons f fs)
  show ?case
  proof (cases f)
    case False
    with Cons.prems obtain fs0 where
      rec: "ports_scan st (Suc i) fs = Some (fs0, r)" and fs': "fs' = f # fs0"
      by (auto split: option.splits)
    note IH = Cons.IH [OF rec]
    have d: "slot r - i = Suc (slot r - Suc i)"
      using IH by linarith
    have free: "(f # fs) ! Suc (slot r - Suc i)" and
      len: "Suc (slot r - Suc i) < length (f # fs)" and
      upd: "fs' = (f # fs)[Suc (slot r - Suc i) := False]"
      using IH fs' by auto
    have below: "\<not> (f # fs) ! j" if "j < Suc (slot r - Suc i)" for j
      using that IH False by (cases j) auto
    show ?thesis
      unfolding d using IH free len upd below by (intro conjI) (linarith | blast)+
  qed (use Cons.prems in auto)
qed simp

lemma ports_get_None: "ports_get p = None \<longleftrightarrow> True \<notin> set (state p)"
  using ports_scan_None [of "start p" 0 "state p"]
  by (cases "ports_scan (start p) 0 (state p)") (auto simp: ports_get_def)

lemma ports_get_SomeD:
  assumes "ports_get p = Some (p', r)"
  shows "slot r < length (state p)" and "state p ! slot r"
    and "\<And>j. j < slot r \<Longrightarrow> \<not> state p ! j"
    and "p' = p\<lparr>state := (state p)[slot r := False]\<rparr>"
    and "port r = of_nat (slot r) + start p"
  using assms ports_scan_Some [of "start p" 0 "state p"]
  by (auto simp: ports_get_def split: option.splits)

definition port_is_free :: "ports \<Rightarrow> nat \<Rightarrow> bool" where
  "port_is_free p j \<longleftrightarrow> j < length (state p) \<and> state p ! j"

interpretation pp: slot_pool ports_get port_ref_drop slot "\<lambda>p. length (state p)" port_is_free
proof unfold_locales
  fix p p' :: ports and r :: port_ref and j :: nat
  show "ports_get p = Some (p', r) \<Longrightarrow> port_is_free p (slot r)"
    by (simp add: port_is_free_def ports_get_SomeD)
  show "ports_get p = Some (p', r) \<Longrightarrow>
      port_is_free p' j \<longleftrightarrow> port_is_free p j \<and> j \<noteq> slot r"
    using ports_get_SomeD(4) [of p p' r]
    by (cases "j = slot r") (auto simp: port_is_free_def)
  show "ports_get p = None \<Longrightarrow> \<not> port_is_free p j"
    using nth_mem [of j "state p"] ports_get_None [of p] port_is_free_def [of p j] by metis
  show "ports_get p = Some (p', r) \<Longrightarrow> length (state p') = length (state p)"
    using ports_get_SomeD(4) [of p p' r] by simp
  show "port_is_free (port_ref_drop r p) j \<longleftrightarrow>
      port_is_free p j \<or> (j = slot r \<and> j < length (state p))"
    by (cases "j = slot r") (auto simp: port_is_free_def port_ref_drop_def)
  show "length (state (port_ref_drop r p)) = length (state p)"
    by (simp add: port_ref_drop_def)
  show "port_is_free p j \<Longrightarrow> j < length (state p)"
    by (simp add: port_is_free_def)
qed

lemma ports_new_shape:
  "ports_new os st limit = Some p \<Longrightarrow>
     state p = replicate (unat limit) True \<and> length (state p) < 2 ^ 16"
  using unat_u16_less [of limit]
  by (auto simp: ports_new_def Let_def split: if_splits option.splits)

lemma ports_new_inv: "ports_new os st limit = Some p \<Longrightarrow> pp.pool_inv p []"
  using ports_new_shape [of os st limit p] by (simp add: pp.pool_inv_def port_is_free_def)

text \<open>Slots of one pool have different port numbers, even where the addition wraps.\<close>

lemma port_number_inj:
  fixes st :: u16
  assumes "i < 2 ^ 16" and "j < 2 ^ 16" and "(of_nat i :: u16) + st = of_nat j + st"
  shows "i = j"
proof -
  have "(of_nat i :: u16) = of_nat j" using assms(3) by simp
  then have "unat (of_nat i :: u16) = unat (of_nat j :: u16)" by simp
  then show ?thesis using assms(1,2) by (simp add: unsigned_of_nat take_bit_nat_eq_self)
qed

text \<open>Taking ports until \<open>n\<close> are taken or none is left.\<close>

fun ports_take :: "nat \<Rightarrow> ports \<Rightarrow> ports \<times> port_ref list" where
  "ports_take 0 p = (p, [])"
| "ports_take (Suc n) p = (case ports_get p of
      None \<Rightarrow> (p, [])
    | Some (p', r) \<Rightarrow> (let (p'', rs) = ports_take n p' in (p'', r # rs)))"

lemma ports_scan_after:
  "ports_scan st i (replicate k False @ replicate (Suc n) True) =
     Some (replicate (Suc k) False @ replicate n True, \<lparr>port = of_nat (i + k) + st, slot = i + k\<rparr>)"
  by (induction k arbitrary: i) auto

lemma ports_take_from:
  "state p = replicate k False @ replicate n True \<Longrightarrow> m \<le> n \<Longrightarrow>
     ports_take m p =
       (p\<lparr>state := replicate (k + m) False @ replicate (n - m) True\<rparr>,
        map (\<lambda>i. \<lparr>port = of_nat i + start p, slot = i\<rparr>) [k..<k + m])"
proof (induction m arbitrary: p k n)
  case (Suc m)
  then obtain n' where n: "n = Suc n'" by (cases n) auto
  let ?p = "p\<lparr>state := replicate (Suc k) False @ replicate n' True\<rparr>"
  have got: "ports_get p = Some (?p, \<lparr>port = of_nat k + start p, slot = k\<rparr>)"
    using ports_scan_after [of "start p" 0 k n'] Suc.prems n by (simp add: ports_get_def)
  have "ports_take m ?p = (?p\<lparr>state := replicate (Suc k + m) False @ replicate (n' - m) True\<rparr>,
      map (\<lambda>i. \<lparr>port = of_nat i + start p, slot = i\<rparr>) [Suc k..<Suc k + m])"
    using Suc.IH [of ?p "Suc k" n'] Suc.prems n by simp
  then show ?case using got n Suc.prems by (simp add: upt_conv_Cons del: upt_Suc)
qed simp

section \<open>Every history of a pool\<close>

text \<open>
  A pool together with the references in use, after any sequence of \<open>get\<close> and of drops of
  references in use.
\<close>

inductive pool_history :: "u16 option \<Rightarrow> u16 \<Rightarrow> u16 \<Rightarrow> ports \<Rightarrow> port_ref list \<Rightarrow> bool"
  for os_port :: "u16 option" and first_port :: u16 and limit :: u16 where
  fresh: "ports_new os_port first_port limit = Some p \<Longrightarrow> pool_history os_port first_port limit p []"
| get: "pool_history os_port first_port limit p held \<Longrightarrow> ports_get p = Some (p', r) \<Longrightarrow>
     pool_history os_port first_port limit p' (r # held)"
| drop: "pool_history os_port first_port limit p (xs @ r # ys) \<Longrightarrow>
     pool_history os_port first_port limit (port_ref_drop r p) (xs @ ys)"

lemma pool_history_inv:
  "pool_history os_port first_port limit p held \<Longrightarrow>
     pp.pool_inv p held \<and> length (state p) = unat limit \<and>
     start p = (if first_port = 0 then the os_port else first_port) \<and>
     (\<forall>r \<in> set held. port r = of_nat (slot r) + start p)"
proof (induction rule: pool_history.induct)
  case (fresh p)
  have "start p = (if first_port = 0 then the os_port else first_port)"
    using fresh by (auto simp: ports_new_def Let_def split: if_splits option.splits)
  then show ?case using ports_new_inv [OF fresh] ports_new_shape [OF fresh] by simp
next
  case (get p held p' r)
  then show ?case
    using pp.pool_inv_alloc [of p held p' r] ports_get_SomeD [OF get(2)] by auto
next
  case (drop p xs r ys)
  then show ?case
    using pp.pool_inv_release [of p xs r ys] by (auto simp: port_ref_drop_def)
qed

lemma pool_history_facts:
  assumes "pool_history os_port first_port limit p held"
  shows "distinct (map port held) \<and> length held \<le> unat limit \<and>
    (ports_get p = None \<longleftrightarrow> length held = unat limit)"
proof -
  note inv = pool_history_inv [OF assms]
  have slots: "distinct (map slot held)" "\<And>r. r \<in> set held \<Longrightarrow> slot r < unat limit"
    using inv by (auto simp: pp.pool_inv_def)
  have "distinct (map port held)"
  proof (rule distinct_conv_nth [THEN iffD2], intro allI impI)
    fix i j
    assume ij: "i < length (map port held)" "j < length (map port held)" "i \<noteq> j"
    then have "slot (held ! i) \<noteq> slot (held ! j)"
      using slots(1) by (simp add: distinct_conv_nth)
    moreover have "slot (held ! i) < 2 ^ 16" "slot (held ! j) < 2 ^ 16"
      using slots(2) ij unat_u16_less [of limit] by (metis length_map nth_mem order.strict_trans)+
    ultimately show "map port held ! i \<noteq> map port held ! j"
      using inv ij port_number_inj [of "slot (held ! i)" "slot (held ! j)" "start p"] by auto
  qed
  then show ?thesis
    using pp.pool_bound [of p held] pp.pool_full_iff [of p held] inv by simp
qed

text \<open>
  C13: The port pool. However ports are taken and given back, no port number is in use twice, at
  most \<open>limit\<close> are in use, and \<open>get\<close> fails exactly when \<open>limit\<close> are.
\<close>

theorem ports_distinct_and_complete:
  assumes "pool_history os_port first_port limit p held"
  shows "distinct (map port held) \<and> length held \<le> unat limit \<and>
    (ports_get p = None \<longleftrightarrow> length held = unat limit)"
  using assms by (rule pool_history_facts)

lemma demo_new: "ports_new None 33333 2 = Some \<lparr>start = 33333, state = [True, True]\<rparr>"
proof -
  have "replicate (unat (2 :: u16)) True = [True, True]" by code_simp
  then show ?thesis by (simp add: ports_new_def Let_def)
qed

lemma demo_pool:
  "pool_history None 33333 2 \<lparr>start = 33333, state = [True, False]\<rparr> [\<lparr>port = 33334, slot = 1\<rparr>]"
proof -
  have "pool_history None 33333 2 \<lparr>start = 33333, state = [True, True]\<rparr> []"
    by (rule fresh) (rule demo_new)
  then have "pool_history None 33333 2 \<lparr>start = 33333, state = [False, True]\<rparr>
      [\<lparr>port = 33333, slot = 0\<rparr>]"
    by (rule get) (simp add: ports_get_def)
  then have "pool_history None 33333 2 \<lparr>start = 33333, state = [False, False]\<rparr>
      [\<lparr>port = 33334, slot = 1\<rparr>, \<lparr>port = 33333, slot = 0\<rparr>]"
    by (rule get) (simp add: ports_get_def)
  then show ?thesis
    using pool_history.drop [of None 33333 2 _ "[\<lparr>port = 33334, slot = 1\<rparr>]" "\<lparr>port = 33333, slot = 0\<rparr>" "[]"]
    by (force simp: port_ref_drop_def)
qed

theorem ports_distinct_and_complete_witness:
  "distinct (map port [\<lparr>port = 33334, slot = 1\<rparr>]) \<and>
   length [\<lparr>port = 33334 :: u16, slot = 1\<rparr>] \<le> unat (2 :: u16) \<and>
   (ports_get \<lparr>start = 33333, state = [True, False]\<rparr> = None \<longleftrightarrow>
      length [\<lparr>port = 33334 :: u16, slot = 1\<rparr>] = unat (2 :: u16))"
  by (rule ports_distinct_and_complete [OF demo_pool])

text \<open>
  Port numbers. Where the range fits in 16 bits, a fresh pool hands out exactly the ports
  \<open>start\<close>, \<open>start + 1\<close>, up to \<open>start + limit - 1\<close>, in this order, and then none.
\<close>

theorem ports_handed_out_in_order:
  assumes "ports_new os_port first_port limit = Some p"
    and "unat (start p) + unat limit \<le> 2 ^ 16"
  shows "map (\<lambda>r. unat (port r)) (snd (ports_take (unat limit) p)) =
       [unat (start p)..<unat (start p) + unat limit] \<and>
     ports_get (fst (ports_take (unat limit) p)) = None"
proof -
  have "state p = replicate 0 False @ replicate (unat limit) True"
    using ports_new_shape [OF assms(1)] by simp
  note take = ports_take_from [OF this order_refl]
  have "unat (of_nat i + start p) = unat (start p) + i" if "i < unat limit" for i
    using that assms(2) by (simp add: unat_word_ariths unsigned_of_nat take_bit_nat_eq_self)
  then have "map (\<lambda>i. unat (of_nat i + start p)) [0..<unat limit] =
      map (\<lambda>i. i + unat (start p)) [0..<unat limit]" by simp
  then show ?thesis
    using take by (simp add: ports_get_None o_def map_add_upt add.commute)
qed

theorem ports_handed_out_in_order_witness:
  "map (\<lambda>r. unat (port r)) (snd (ports_take (unat (2 :: u16)) \<lparr>start = 33333, state = [True, True]\<rparr>)) =
     [unat (33333 :: u16)..<unat (33333 :: u16) + unat (2 :: u16)] \<and>
   ports_get (fst (ports_take (unat (2 :: u16)) \<lparr>start = 33333, state = [True, True]\<rparr>)) = None"
  using ports_handed_out_in_order [OF demo_new]
  by (simp only: ports.simps) (simp del: ports_take.simps)

end
