(* ===== verification/Voice_Crypto.thy ===== *)
theory Voice_Crypto
  imports Voices_Prelude
begin

text \<open>
  \<open>server/voice/crypto/src/lib.rs\<close>: the nonce of a voice packet and the two operations of the
  \<open>VoiceCrypto\<close> trait. The cipher itself (\<open>XSalsa20Poly1305\<close>) is a third-party crate: its
  \<open>encrypt_in_place\<close> and \<open>decrypt_in_place\<close> are arguments, functions of the key, the nonce, the
  associated data and the buffer, with \<open>None\<close> for the crate's \<open>Error\<close>.
\<close>

type_synonym 'key cipher = "'key \<Rightarrow> u8 list \<Rightarrow> u8 list \<Rightarrow> u8 list \<Rightarrow> u8 list option"

section \<open>The nonce\<close>

text \<open>\<open>u64::to_be_bytes\<close>.\<close>

definition to_be_bytes :: "u64 \<Rightarrow> u8 list" where
  "to_be_bytes w = map (\<lambda>i. ucast (drop_bit (8 * (7 - i)) w)) [0..<8]"

text \<open>\<open>buf[off..off + bs.len()].copy_from_slice(bs)\<close>.\<close>

definition copy_slice :: "nat \<Rightarrow> 'a list \<Rightarrow> 'a list \<Rightarrow> 'a list" where
  "copy_slice off bs buf = take off buf @ bs @ drop (off + length bs) buf"

text \<open>\<open>Nonce::default()\<close> is 24 zero bytes.\<close>

definition voice_nonce :: "u64 \<Rightarrow> u64 \<Rightarrow> u8 list" where
  "voice_nonce sequence stream_time =
     (let nonce = replicate 24 0;
          nonce = copy_slice 0 (to_be_bytes sequence) nonce
      in copy_slice 8 (to_be_bytes stream_time) nonce)"

section \<open>Encryption and decryption of a voice payload\<close>

definition voice_decrypt ::
  "'key cipher \<Rightarrow> 'key \<Rightarrow> u8 list \<Rightarrow> u64 \<Rightarrow> u64 \<Rightarrow> u8 list option" where
  "voice_decrypt dec key voice sequence stream_time =
     dec key (voice_nonce sequence stream_time) [] voice"

definition voice_encrypt ::
  "'key cipher \<Rightarrow> 'key \<Rightarrow> u8 list \<Rightarrow> u64 \<Rightarrow> u64 \<Rightarrow> u8 list option" where
  "voice_encrypt enc key voice sequence stream_time =
     enc key (voice_nonce sequence stream_time) [] voice"

text \<open>
  The documented contract of an AEAD: decrypting under the same key, nonce and associated data
  gives the plaintext back.
\<close>

definition aead_inverse :: "'key cipher \<Rightarrow> 'key cipher \<Rightarrow> bool" where
  "aead_inverse enc dec \<longleftrightarrow>
     (\<forall>key nonce aad m c. length nonce = 24 \<longrightarrow> enc key nonce aad m = Some c \<longrightarrow>
        dec key nonce aad c = Some m)"

section \<open>Lemmas\<close>

lemma length_be_bytes [simp]: "length (to_be_bytes w) = 8"
  by (simp add: to_be_bytes_def)

lemma length_copy_slice [simp]:
  "off + length bs \<le> length buf \<Longrightarrow> length (copy_slice off bs buf) = length buf"
  by (simp add: copy_slice_def)

lemma to_be_bytes_inj: "to_be_bytes v = to_be_bytes w \<longleftrightarrow> v = w"
proof
  assume eq: "to_be_bytes v = to_be_bytes w"
  show "v = w"
  proof (rule bit_word_eqI)
    fix n assume n: "n < LENGTH(64)"
    let ?i = "7 - n div 8"
    have i: "?i < 8" by simp
    have "to_be_bytes v ! ?i = to_be_bytes w ! ?i" using eq by simp
    then have "(ucast (drop_bit (8 * (n div 8)) v) :: u8) = ucast (drop_bit (8 * (n div 8)) w)"
      using n i by (simp add: to_be_bytes_def)
    then have "bit (ucast (drop_bit (8 * (n div 8)) v) :: u8) (n mod 8) =
        bit (ucast (drop_bit (8 * (n div 8)) w) :: u8) (n mod 8)" by simp
    then show "bit v n = bit w n" by (simp add: bit_simps)
  qed
qed simp

lemma voice_nonce_eq:
  "voice_nonce s t = to_be_bytes s @ to_be_bytes t @ replicate 8 0"
  by (simp add: voice_nonce_def copy_slice_def Let_def drop_replicate)

lemma length_voice_nonce [simp]: "length (voice_nonce s t) = 24"
  by (simp add: voice_nonce_eq)

lemma voice_nonce_inj: "voice_nonce s t = voice_nonce s' t' \<longleftrightarrow> s = s' \<and> t = t'"
  by (auto simp: voice_nonce_eq to_be_bytes_inj)

lemma voice_decrypt_encrypt:
  "aead_inverse enc dec \<Longrightarrow> voice_encrypt enc key m s t = Some c \<Longrightarrow>
     voice_decrypt dec key c s t = Some m"
  by (simp add: aead_inverse_def voice_encrypt_def voice_decrypt_def)

end
