(* ===== verification/Voice_Connection.thy ===== *)
theory Voice_Connection
  imports Voice_Crypto Voice_Proto "HOL-Library.Sublist"
begin

text \<open>
  The background task of one voice connection, \<open>VoiceConnection\<close> in
  \<open>server/voice/core/src/channel/connection.rs\<close>. The task is a loop over \<open>tokio::select!\<close>; a
  step of the model is one branch of that \<open>select!\<close> together with everything the branch does
  before the loop comes round. Which ready branch runs is not determined by the code, so a run
  is any list of events. The broadcast channel all connections of a voice channel share is the
  list of everything ever sent on it; a receiver is a position in that list.
\<close>

section \<open>Messages\<close>

datatype control_request = CtlInit socket_addr | CtlStatus | CtlStop

datatype internal_msg = MVoice voice | MPing ping

type_synonym bus = "(u32 \<times> voice) list"

text \<open>What the task calls outside the repository: the cipher and the UDP socket.\<close>

record io =
  enc :: "u8 list cipher"
  dec :: "u8 list cipher"
  udp_ok :: "server_message \<Rightarrow> socket_addr \<Rightarrow> bool"

section \<open>State\<close>

text \<open>The variables of \<open>peered\<close>: the peer, the counters, the deadline, the bus position.\<close>

record peered_vars =
  pv_addr :: socket_addr
  pv_seq :: u64
  pv_sent :: u64
  pv_received :: u64
  pv_deadline :: instant
  pv_cursor :: nat

datatype phase =
    AwaitingAddr instant      \<comment> \<open>\<open>run\<close>, before \<open>Init\<close>, with the idle deadline\<close>
  | Exchanging peered_vars    \<comment> \<open>\<open>peered\<close>\<close>
  | Finished                  \<comment> \<open>the task has returned\<close>

record conn_task =
  vc_client_id :: uuid
  vc_source_id :: u32
  vc_crypt_key :: "u8 list"
  vc_phase :: phase

definition IDLE_TIMEOUT :: instant where
  "IDLE_TIMEOUT = 15000"

text \<open>
  \<open>VoiceConnection::start\<close>; the source id and the key are the results of \<open>rand::random\<close> and
  \<open>generate_key\<close>.
\<close>

definition voice_connection_start :: "uuid \<Rightarrow> u32 \<Rightarrow> u8 list \<Rightarrow> instant \<Rightarrow> conn_task" where
  "voice_connection_start client_id source key now =
     \<lparr>vc_client_id = client_id, vc_source_id = source, vc_crypt_key = key,
      vc_phase = AwaitingAddr (now + IDLE_TIMEOUT)\<rparr>"

section \<open>Events and effects\<close>

datatype conn_event =
    ECtl "control_request option"   \<comment> \<open>\<open>control_chan.recv()\<close>; \<open>None\<close> when every sender is gone\<close>
  | EMsg "internal_msg option"      \<comment> \<open>\<open>msg_rx.recv()\<close>\<close>
  | EBus                            \<comment> \<open>\<open>voice_rx.recv()\<close> gives the next entry\<close>
  | ELagged nat                     \<comment> \<open>\<open>RecvError::Lagged\<close>\<close>
  | EBusClosed                      \<comment> \<open>\<open>RecvError::Closed\<close>\<close>
  | ETimer                          \<comment> \<open>the sleep of the loop elapsed\<close>

datatype conn_out =
    OInit "u8 list" u32
  | OStatus connection_state
  | OStopped
  | OSend server_message socket_addr
  | OBcast u32 voice

abbreviation finish :: "conn_task \<Rightarrow> conn_task" where
  "finish t \<equiv> t\<lparr>vc_phase := Finished\<rparr>"

abbreviation set_vars :: "conn_task \<Rightarrow> peered_vars \<Rightarrow> conn_task" where
  "set_vars t p \<equiv> t\<lparr>vc_phase := Exchanging p\<rparr>"

section \<open>The waiting loop\<close>

text \<open>Entering \<open>peered\<close>: fresh counters, a keep-alive deadline, a subscription to the bus.\<close>

definition peered_enter :: "instant \<Rightarrow> bus \<Rightarrow> socket_addr \<Rightarrow> peered_vars" where
  "peered_enter now bus addr =
     \<lparr>pv_addr = addr, pv_seq = 0, pv_sent = 0, pv_received = 0,
      pv_deadline = now + IDLE_TIMEOUT, pv_cursor = length bus\<rparr>"

fun waiting_ctl ::
  "instant \<Rightarrow> bus \<Rightarrow> conn_task \<Rightarrow> control_request option \<Rightarrow> conn_task \<times> conn_out list" where
  "waiting_ctl now bus t (Some (CtlInit addr)) =
     (set_vars t (peered_enter now bus addr), [OInit (vc_crypt_key t) (vc_source_id t)])"
| "waiting_ctl now bus t (Some CtlStop) = (finish t, [OStopped])"
| "waiting_ctl now bus t (Some CtlStatus) = (t, [OStatus Waiting])"
| "waiting_ctl now bus t None = (finish t, [])"

section \<open>The peered loop\<close>

fun peered_msg ::
  "io \<Rightarrow> instant \<Rightarrow> conn_task \<Rightarrow> peered_vars \<Rightarrow> internal_msg option \<Rightarrow>
     conn_task \<times> conn_out list" where
  "peered_msg io now t p (Some (MVoice v)) =
     (case voice_decrypt (dec io) (vc_crypt_key t) (payload v) (sequence v) (stream_time v) of
        None \<Rightarrow> (finish t, [])
      | Some plain \<Rightarrow>
          (set_vars t (p\<lparr>pv_received := pv_received p + 1, pv_seq := sequence v\<rparr>),
           [OBcast (vc_source_id t) (v\<lparr>payload := plain\<rparr>)]))"
| "peered_msg io now t p (Some (MPing ping)) =
     (let p' = p\<lparr>pv_deadline := now + 15000\<rparr>;
          pong = server_pong \<lparr>pong_seq = ping_seq ping, pong_sent = pv_sent p',
                              pong_received = pv_received p'\<rparr>
      in if udp_ok io pong (pv_addr p) then (set_vars t p', [OSend pong (pv_addr p)])
         else (finish t, []))"
| "peered_msg io now t p None = (finish t, [])"

definition peered_bus ::
  "io \<Rightarrow> bus \<Rightarrow> conn_task \<Rightarrow> peered_vars \<Rightarrow> conn_task \<times> conn_out list" where
  "peered_bus io bus t p =
     (if length bus \<le> pv_cursor p then (t, [])
      else (let (rx_pkt_id, v) = bus ! pv_cursor p;
                p' = p\<lparr>pv_cursor := Suc (pv_cursor p)\<rparr>
            in if vc_source_id t = rx_pkt_id then (set_vars t p', [])
               else (case voice_encrypt (enc io) (vc_crypt_key t) (payload v) (sequence v)
                            (stream_time v) of
                       None \<Rightarrow> (finish t, [])
                     | Some secret \<Rightarrow>
                         (let m = server_voice (v\<lparr>payload := secret\<rparr>) in
                          if udp_ok io m (pv_addr p)
                          then (set_vars t (p'\<lparr>pv_sent := pv_sent p' + 1\<rparr>),
                                [OSend m (pv_addr p)])
                          else (finish t, [])))))"

fun peered_ctl ::
  "conn_task \<Rightarrow> peered_vars \<Rightarrow> control_request option \<Rightarrow> conn_task \<times> conn_out list" where
  "peered_ctl t p (Some (CtlInit addr)) = (t, [OInit (vc_crypt_key t) (vc_source_id t)])"
| "peered_ctl t p (Some CtlStatus) = (t, [OStatus Peered])"
| "peered_ctl t p (Some CtlStop) = (finish t, [OStopped])"
| "peered_ctl t p None = (finish t, [])"

section \<open>One step and a run\<close>

text \<open>A branch that is not ready, a timer before its deadline for one, leaves the task alone.\<close>

definition waiting_step ::
  "instant \<Rightarrow> bus \<Rightarrow> conn_task \<Rightarrow> instant \<Rightarrow> conn_event \<Rightarrow> conn_task \<times> conn_out list" where
  "waiting_step now bus t deadline ev =
     (case ev of
        ECtl c \<Rightarrow> waiting_ctl now bus t c
      | ETimer \<Rightarrow> (if deadline \<le> now then (finish t, []) else (t, []))
      | _ \<Rightarrow> (t, []))"

definition peered_step ::
  "io \<Rightarrow> instant \<Rightarrow> bus \<Rightarrow> conn_task \<Rightarrow> peered_vars \<Rightarrow> conn_event \<Rightarrow>
     conn_task \<times> conn_out list" where
  "peered_step io now bus t p ev =
     (case ev of
        ECtl c \<Rightarrow> peered_ctl t p c
      | EMsg m \<Rightarrow> peered_msg io now t p m
      | EBus \<Rightarrow> peered_bus io bus t p
      | ELagged n \<Rightarrow> (set_vars t (p\<lparr>pv_cursor := pv_cursor p + n\<rparr>), [])
      | EBusClosed \<Rightarrow> (finish t, [])
      | ETimer \<Rightarrow> (if pv_deadline p \<le> now then (finish t, []) else (t, [])))"

definition conn_step ::
  "io \<Rightarrow> instant \<Rightarrow> bus \<Rightarrow> conn_task \<Rightarrow> conn_event \<Rightarrow> conn_task \<times> conn_out list" where
  "conn_step io now bus t ev =
     (case vc_phase t of
        Finished \<Rightarrow> (t, [])
      | AwaitingAddr d \<Rightarrow> waiting_step now bus t d ev
      | Exchanging p \<Rightarrow> peered_step io now bus t p ev)"

type_synonym conn_trace = "(instant \<times> bus \<times> conn_event) list"

fun conn_run :: "io \<Rightarrow> conn_task \<Rightarrow> conn_trace \<Rightarrow> conn_task \<times> conn_out list" where
  "conn_run io t [] = (t, [])"
| "conn_run io t ((now, bus, ev) # es) =
     (let (t1, o1) = conn_step io now bus t ev;
          (t2, o2) = conn_run io t1 es
      in (t2, o1 @ o2))"

text \<open>The answer to a status request, \<open>Stopped\<close> when nobody answers.\<close>

definition lifecycle :: "conn_task \<Rightarrow> connection_state" where
  "lifecycle t = (case vc_phase t of
      AwaitingAddr d \<Rightarrow> Waiting | Exchanging p \<Rightarrow> Peered | Finished \<Rightarrow> Stopped)"

section \<open>Every step\<close>

lemmas conn_defs = conn_step_def waiting_step_def peered_step_def

text \<open>
  A step of a task: each equation names a branch of the two loops. \<open>task_frame t t'\<close> is what no
  branch changes.
\<close>

definition task_frame :: "conn_task \<Rightarrow> conn_task \<Rightarrow> bool" where
  "task_frame t t' \<longleftrightarrow> vc_client_id t' = vc_client_id t \<and> vc_source_id t' = vc_source_id t \<and>
     vc_crypt_key t' = vc_crypt_key t \<and> lifecycle t \<le> lifecycle t' \<and>
     (\<forall>p p'. vc_phase t = Exchanging p \<longrightarrow> vc_phase t' = Exchanging p' \<longrightarrow>
        pv_addr p' = pv_addr p \<and> pv_cursor p \<le> pv_cursor p')"

lemma task_frame_refl [simp]: "task_frame t t"
  by (auto simp: task_frame_def)

lemma task_frame_finish [simp]: "task_frame t (finish t)"
  by (auto simp: task_frame_def lifecycle_def)

lemma task_frame_vars:
  "vc_phase t = Exchanging p \<Longrightarrow> pv_addr p' = pv_addr p \<Longrightarrow> pv_cursor p \<le> pv_cursor p' \<Longrightarrow>
     task_frame t (set_vars t p')"
  by (auto simp: task_frame_def lifecycle_def)

lemma waiting_ctl_frame:
  "vc_phase t = AwaitingAddr d \<Longrightarrow> task_frame t (fst (waiting_ctl now bus t c))"
  by (cases "(now, bus, t, c)" rule: waiting_ctl.cases) (auto simp: task_frame_def lifecycle_def)

lemma peered_msg_frame:
  "vc_phase t = Exchanging p \<Longrightarrow> task_frame t (fst (peered_msg io now t p m))"
  by (cases "(io, now, t, p, m)" rule: peered_msg.cases)
    (auto simp: Let_def task_frame_vars split: option.splits)

lemma peered_bus_frame:
  "vc_phase t = Exchanging p \<Longrightarrow> task_frame t (fst (peered_bus io bus t p))"
  by (auto simp: peered_bus_def Let_def task_frame_vars split: option.splits prod.splits)

lemma peered_ctl_frame: "vc_phase t = Exchanging p \<Longrightarrow> task_frame t (fst (peered_ctl t p c))"
  by (cases "(t, p, c)" rule: peered_ctl.cases) auto

lemma conn_step_frame: "task_frame t (fst (conn_step io now bus t ev))"
proof (cases "vc_phase t")
  case (AwaitingAddr d)
  then show ?thesis
    by (cases ev) (simp_all add: conn_defs waiting_ctl_frame)
next
  case (Exchanging p)
  then show ?thesis
    by (cases ev)
      (simp_all add: conn_defs peered_msg_frame peered_bus_frame peered_ctl_frame task_frame_vars)
qed (simp add: conn_step_def)

lemma conn_step_ids [simp]:
  "vc_client_id (fst (conn_step io now bus t ev)) = vc_client_id t"
  "vc_source_id (fst (conn_step io now bus t ev)) = vc_source_id t"
  "vc_crypt_key (fst (conn_step io now bus t ev)) = vc_crypt_key t"
  using conn_step_frame by (auto simp: task_frame_def)

lemma lifecycle_step: "lifecycle t \<le> lifecycle (fst (conn_step io now bus t ev))"
  using conn_step_frame [of t] by (auto simp: task_frame_def)

lemma lifecycle_Stopped [simp]: "lifecycle t = Stopped \<longleftrightarrow> vc_phase t = Finished"
  by (simp add: lifecycle_def split: phase.splits)

lemma lifecycle_Peered: "lifecycle t = Peered \<longleftrightarrow> (\<exists>p. vc_phase t = Exchanging p)"
  by (simp add: lifecycle_def split: phase.splits)

lemma conn_step_finished [simp]: "vc_phase t = Finished \<Longrightarrow> conn_step io now bus t ev = (t, [])"
  by (simp add: conn_step_def)

lemma conn_run_finished [simp]: "vc_phase t = Finished \<Longrightarrow> conn_run io t es = (t, [])"
  by (induction io t es rule: conn_run.induct) auto

lemma conn_run_Cons:
  "conn_run io t ((now, bus, ev) # es) =
     (fst (conn_run io (fst (conn_step io now bus t ev)) es),
      snd (conn_step io now bus t ev) @ snd (conn_run io (fst (conn_step io now bus t ev)) es))"
  by (simp add: Let_def split: prod.splits)

declare conn_run.simps(2) [simp del]

lemma conn_run_induct [case_names Nil Cons]:
  assumes "\<And>t. P t []"
    and "\<And>t now bus ev es.
           P (fst (conn_step io now bus t ev)) es \<Longrightarrow> P t ((now, bus, ev) # es)"
  shows "P t es"
proof (induction es arbitrary: t)
  case (Cons e es)
  then show ?case using assms(2) by (cases e) auto
qed (rule assms(1))

lemma conn_run_ids [simp]:
  "vc_client_id (fst (conn_run io t es)) = vc_client_id t"
  "vc_source_id (fst (conn_run io t es)) = vc_source_id t"
  "vc_crypt_key (fst (conn_run io t es)) = vc_crypt_key t"
  by (induction t es rule: conn_run_induct [where io = io]) (simp_all add: conn_run_Cons)

lemma conn_run_append:
  "conn_run io t (es @ fs) =
     (fst (conn_run io (fst (conn_run io t es)) fs),
      snd (conn_run io t es) @ snd (conn_run io (fst (conn_run io t es)) fs))"
  by (induction t es rule: conn_run_induct [where io = io]) (simp_all add: conn_run_Cons)

lemma lifecycle_run: "lifecycle t \<le> lifecycle (fst (conn_run io t es))"
proof (induction t es rule: conn_run_induct [where io = io])
  case (Cons t now bus ev es)
  show ?case
    using order_trans [OF lifecycle_step Cons.IH] by (simp add: conn_run_Cons)
qed simp

section \<open>What leaves a task\<close>

fun out_voice :: "conn_out \<Rightarrow> voice option" where
  "out_voice (OSend m a) = (case sm_message m of Some (SVoice v) \<Rightarrow> Some v | _ \<Rightarrow> None)"
| "out_voice _ = None"

fun out_bcast :: "conn_out \<Rightarrow> (u32 \<times> voice) option" where
  "out_bcast (OBcast s v) = Some (s, v)"
| "out_bcast _ = None"

definition sent_voices :: "conn_out list \<Rightarrow> voice list" where
  "sent_voices os = List.map_filter out_voice os"

definition bcasts :: "conn_out list \<Rightarrow> (u32 \<times> voice) list" where
  "bcasts os = List.map_filter out_bcast os"

lemma sent_voices_simps [simp]:
  "sent_voices [] = []"
  "sent_voices (os @ ps) = sent_voices os @ sent_voices ps"
  "sent_voices [OInit k s] = []" "sent_voices [OStatus st] = []" "sent_voices [OStopped] = []"
  "sent_voices [OBcast s v] = []" "sent_voices [OSend (server_voice v) a] = [v]"
  "sent_voices [OSend (server_pong q) a] = []"
  by (simp_all add: sent_voices_def map_filter_def server_voice_def server_pong_def
      server_message_new_def)

lemma bcasts_simps [simp]:
  "bcasts [] = []"
  "bcasts (os @ ps) = bcasts os @ bcasts ps"
  "bcasts [OInit k s] = []" "bcasts [OStatus st] = []" "bcasts [OStopped] = []"
  "bcasts [OBcast s v] = [(s, v)]" "bcasts [OSend m a] = []"
  by (simp_all add: bcasts_def map_filter_def)

text \<open>A voice packet under the key of a task.\<close>

definition seal :: "io \<Rightarrow> u8 list \<Rightarrow> voice \<Rightarrow> voice option" where
  "seal io key v = map_option (\<lambda>c. v\<lparr>payload := c\<rparr>)
     (voice_encrypt (enc io) key (payload v) (sequence v) (stream_time v))"

definition unseal :: "io \<Rightarrow> u8 list \<Rightarrow> voice \<Rightarrow> voice option" where
  "unseal io key v = map_option (\<lambda>m. v\<lparr>payload := m\<rparr>)
     (voice_decrypt (dec io) key (payload v) (sequence v) (stream_time v))"

text \<open>The bus position a task reads next; one that is not subscribed sees only what is to come.\<close>

definition cursor :: "conn_task \<Rightarrow> bus \<Rightarrow> nat" where
  "cursor t bus = (case vc_phase t of Exchanging p \<Rightarrow> pv_cursor p | _ \<Rightarrow> length bus)"

text \<open>Whether the bus of a trace only grows, and the bus at its end.\<close>

fun bus_grows :: "bus \<Rightarrow> conn_trace \<Rightarrow> bool" where
  "bus_grows b [] = True"
| "bus_grows b ((now, b', ev) # es) = (prefix b b' \<and> bus_grows b' es)"

fun last_bus :: "bus \<Rightarrow> conn_trace \<Rightarrow> bus" where
  "last_bus b [] = b"
| "last_bus b ((now, b', ev) # es) = last_bus b' es"

lemma bus_grows_prefix: "bus_grows b es \<Longrightarrow> prefix b (last_bus b es)"
  by (induction b es rule: bus_grows.induct) auto

text \<open>
  The shape of one step: either no voice leaves and the position does not go back, or the entry
  at the position leaves, sealed, and the position moves past it.
\<close>

lemma step_delivers:
  assumes "prefix b bus"
  shows "(sent_voices (snd (conn_step io now bus t ev)) = [] \<and>
            cursor t b \<le> cursor (fst (conn_step io now bus t ev)) bus
            \<or> sent_voices (snd (conn_step io now bus t ev)) = [] \<and>
            vc_phase (fst (conn_step io now bus t ev)) = Finished)
         \<or> (\<exists>s v w. cursor t b < length bus \<and> bus ! cursor t b = (s, v) \<and> s \<noteq> vc_source_id t \<and>
              seal io (vc_crypt_key t) v = Some w \<and>
              sent_voices (snd (conn_step io now bus t ev)) = [w] \<and>
              cursor (fst (conn_step io now bus t ev)) bus = Suc (cursor t b))"
proof (cases "vc_phase t")
  case (AwaitingAddr d)
  then show ?thesis
    using prefix_length_le [OF assms]
    by (cases ev; cases "(now, bus, t, the (case ev of ECtl c \<Rightarrow> Some c | _ \<Rightarrow> None))"
          rule: waiting_ctl.cases)
      (auto simp: conn_defs cursor_def peered_enter_def)
next
  case (Exchanging p)
  then show ?thesis
  proof (cases ev)
    case (ECtl c)
    with Exchanging show ?thesis
      by (cases "(t, p, c)" rule: peered_ctl.cases) (auto simp: conn_defs cursor_def)
  next
    case (EMsg m)
    with Exchanging show ?thesis
      by (cases "(io, now, t, p, m)" rule: peered_msg.cases)
        (auto simp: conn_defs cursor_def Let_def split: option.splits)
  next
    case EBus
    with Exchanging show ?thesis
      by (auto simp: conn_defs cursor_def peered_bus_def Let_def seal_def
          split: option.splits prod.splits)
  qed (auto simp: conn_defs cursor_def)
qed (simp add: conn_step_def)

lemma subseq_drop_mono: "c \<le> d \<Longrightarrow> subseq (drop d xs) (drop c xs)"
  by (metis drop_drop le_add_diff_inverse2 suffix_drop suffix_imp_subseq)

text \<open>
  The voices a task sends are, in order and without repetition, entries of the bus from other
  sources, each sealed under the task's key.
\<close>

lemma delivery_order_aux:
  "bus_grows b es \<Longrightarrow>
     subseq (map Some (sent_voices (snd (conn_run io t es))))
       (map (\<lambda>e. seal io (vc_crypt_key t) (snd e))
          (filter (\<lambda>e. fst e \<noteq> vc_source_id t) (drop (cursor t b) (last_bus b es))))"
proof (induction t es arbitrary: b rule: conn_run_induct [where io = io])
  case (Cons t now bus ev es)
  let ?t = "fst (conn_step io now bus t ev)" and ?o = "snd (conn_step io now bus t ev)"
  let ?g = "\<lambda>e. seal io (vc_crypt_key t) (snd e)" and ?p = "\<lambda>e. fst e \<noteq> vc_source_id t"
  let ?fin = "last_bus bus es"
  from Cons.prems have pre: "prefix b bus" and grows: "bus_grows bus es" by auto
  have IH: "subseq (map Some (sent_voices (snd (conn_run io ?t es))))
      (map ?g (filter ?p (drop (cursor ?t bus) ?fin)))"
    using Cons.IH [OF grows] by simp
  consider (quiet) "sent_voices ?o = []" "cursor t b \<le> cursor ?t bus"
    | (ended) "sent_voices ?o = []" "vc_phase ?t = Finished"
    | (send) s v w where "cursor t b < length bus" "bus ! cursor t b = (s, v)"
        "s \<noteq> vc_source_id t" "seal io (vc_crypt_key t) v = Some w" "sent_voices ?o = [w]"
        "cursor ?t bus = Suc (cursor t b)"
    using step_delivers [OF pre, of io now t ev] by blast
  then show ?case
  proof cases
    case quiet
    have "subseq (map ?g (filter ?p (drop (cursor ?t bus) ?fin)))
        (map ?g (filter ?p (drop (cursor t b) ?fin)))"
      using subseq_drop_mono [OF quiet(2)] by (intro subseq_map subseq_filter)
    then show ?thesis
      using subseq_order.trans [OF IH] quiet(1) by (simp add: conn_run_Cons)
  next
    case ended
    then show ?thesis by (simp add: conn_run_Cons)
  next
    case send
    have "?fin ! cursor t b = (s, v)" and "cursor t b < length ?fin"
      using send(1,2) bus_grows_prefix [OF grows] prefix_length_le
      by (auto simp: prefix_def nth_append)
    then have "drop (cursor t b) ?fin = (s, v) # drop (cursor ?t bus) ?fin"
      using send(6) Cons_nth_drop_Suc by metis
    then show ?thesis using IH send(3-5) by (simp add: conn_run_Cons)
  qed
qed simp

section \<open>The counters and the deadline\<close>

definition sent_count :: "conn_task \<Rightarrow> u64" where
  "sent_count t = (case vc_phase t of Exchanging p \<Rightarrow> pv_sent p | _ \<Rightarrow> 0)"

definition received_count :: "conn_task \<Rightarrow> u64" where
  "received_count t = (case vc_phase t of Exchanging p \<Rightarrow> pv_received p | _ \<Rightarrow> 0)"

lemma step_counts:
  assumes "vc_phase (fst (conn_step io now bus t ev)) \<noteq> Finished"
  shows "sent_count (fst (conn_step io now bus t ev)) =
           sent_count t + of_nat (length (sent_voices (snd (conn_step io now bus t ev)))) \<and>
         received_count (fst (conn_step io now bus t ev)) =
           received_count t + of_nat (length (bcasts (snd (conn_step io now bus t ev))))"
proof (cases "vc_phase t")
  case (AwaitingAddr d)
  then show ?thesis
    using assms
    by (cases ev; cases "(now, bus, t, the (case ev of ECtl c \<Rightarrow> Some c | _ \<Rightarrow> None))"
          rule: waiting_ctl.cases)
      (auto simp: conn_defs sent_count_def received_count_def peered_enter_def)
next
  case (Exchanging p)
  then show ?thesis
  proof (cases ev)
    case (ECtl c)
    with Exchanging assms show ?thesis
      by (cases "(t, p, c)" rule: peered_ctl.cases)
        (auto simp: conn_defs sent_count_def received_count_def)
  next
    case (EMsg m)
    with Exchanging assms show ?thesis
      by (cases "(io, now, t, p, m)" rule: peered_msg.cases)
        (auto simp: conn_defs sent_count_def received_count_def Let_def
          split: option.splits if_splits)
  next
    case EBus
    with Exchanging assms show ?thesis
      by (auto simp: conn_defs sent_count_def received_count_def peered_bus_def Let_def
          split: option.splits prod.splits if_splits)
  qed (use Exchanging assms in \<open>auto simp: conn_defs sent_count_def received_count_def\<close>)
qed (use assms in simp)

lemma run_live_step:
  assumes "vc_phase (fst (conn_run io t es)) \<noteq> Finished"
  shows "vc_phase t \<noteq> Finished"
  using assms by auto

lemma run_counts:
  "vc_phase (fst (conn_run io t es)) \<noteq> Finished \<Longrightarrow>
     sent_count (fst (conn_run io t es)) =
       sent_count t + of_nat (length (sent_voices (snd (conn_run io t es)))) \<and>
     received_count (fst (conn_run io t es)) =
       received_count t + of_nat (length (bcasts (snd (conn_run io t es))))"
proof (induction t es rule: conn_run_induct [where io = io])
  case (Cons t now bus ev es)
  let ?t = "fst (conn_step io now bus t ev)"
  have live: "vc_phase (fst (conn_run io ?t es)) \<noteq> Finished"
    using Cons.prems by (simp add: conn_run_Cons)
  show ?case
    using Cons.IH [OF live] step_counts [OF run_live_step [OF live]]
    by (simp add: conn_run_Cons)
qed simp

text \<open>The deadline in force: that of the waiting loop, or the one the last ping renewed.\<close>

fun deadline :: "conn_task \<Rightarrow> instant" where
  "deadline t = (case vc_phase t of
      AwaitingAddr d \<Rightarrow> d | Exchanging p \<Rightarrow> pv_deadline p | Finished \<Rightarrow> 0)"

text \<open>
  The time of the last event that renews the deadline: entering the peered loop, or a ping.
\<close>

fun last_renewal :: "io \<Rightarrow> conn_task \<Rightarrow> instant \<Rightarrow> conn_trace \<Rightarrow> instant" where
  "last_renewal io t at [] = at"
| "last_renewal io t at ((now, bus, ev) # es) =
     last_renewal io (fst (conn_step io now bus t ev))
       (case (vc_phase t, ev) of
          (AwaitingAddr d, ECtl (Some (CtlInit a))) \<Rightarrow> now
        | (Exchanging p, EMsg (Some (MPing g))) \<Rightarrow> now
        | _ \<Rightarrow> at) es"

lemma step_deadline:
  assumes "vc_phase (fst (conn_step io now bus t ev)) \<noteq> Finished"
    and "deadline t = at + IDLE_TIMEOUT"
  shows "deadline (fst (conn_step io now bus t ev)) =
     (case (vc_phase t, ev) of
          (AwaitingAddr d, ECtl (Some (CtlInit a))) \<Rightarrow> now
        | (Exchanging p, EMsg (Some (MPing g))) \<Rightarrow> now
        | _ \<Rightarrow> at) + IDLE_TIMEOUT"
proof (cases "vc_phase t")
  case (AwaitingAddr d)
  then show ?thesis
    using assms
    by (cases ev; cases "(now, bus, t, the (case ev of ECtl c \<Rightarrow> Some c | _ \<Rightarrow> None))"
          rule: waiting_ctl.cases)
      (auto simp: conn_defs peered_enter_def)
next
  case (Exchanging p)
  then show ?thesis
  proof (cases ev)
    case (ECtl c)
    with Exchanging assms show ?thesis
      by (cases "(t, p, c)" rule: peered_ctl.cases) (auto simp: conn_defs)
  next
    case (EMsg m)
    with Exchanging assms show ?thesis
      by (cases "(io, now, t, p, m)" rule: peered_msg.cases)
        (auto simp: conn_defs Let_def IDLE_TIMEOUT_def split: option.splits if_splits)
  next
    case EBus
    with Exchanging assms show ?thesis
      by (auto simp: conn_defs peered_bus_def Let_def
          split: option.splits prod.splits if_splits)
  qed (use Exchanging assms in \<open>auto simp: conn_defs split: if_splits\<close>)
qed (use assms in simp)

lemma run_deadline:
  "vc_phase (fst (conn_run io t es)) \<noteq> Finished \<Longrightarrow> deadline t = at + IDLE_TIMEOUT \<Longrightarrow>
     deadline (fst (conn_run io t es)) = last_renewal io t at es + IDLE_TIMEOUT"
proof (induction t es arbitrary: at rule: conn_run_induct [where io = io])
  case (Cons t now bus ev es)
  let ?t = "fst (conn_step io now bus t ev)"
  have live: "vc_phase (fst (conn_run io ?t es)) \<noteq> Finished"
    using Cons.prems(1) by (simp add: conn_run_Cons)
  note dl = step_deadline [OF run_live_step [OF live] Cons.prems(2)]
  show ?case
    using Cons.IH [OF live dl] by (simp add: conn_run_Cons del: deadline.simps)
qed simp

section \<open>What a task broadcasts and where it sends\<close>

text \<open>The voices handed to a task, and the addresses it sends datagrams to.\<close>

definition trace_voices :: "conn_trace \<Rightarrow> voice list" where
  "trace_voices es = List.map_filter
     (\<lambda>e. case snd (snd e) of EMsg (Some (MVoice v)) \<Rightarrow> Some v | _ \<Rightarrow> None) es"

definition send_addrs :: "conn_out list \<Rightarrow> socket_addr list" where
  "send_addrs os = List.map_filter (\<lambda>out. case out of OSend m a \<Rightarrow> Some a | _ \<Rightarrow> None) os"

fun first_init :: "conn_trace \<Rightarrow> socket_addr option" where
  "first_init [] = None"
| "first_init ((now, bus, ECtl (Some (CtlInit a))) # es) = Some a"
| "first_init (e # es) = first_init es"

lemma send_addrs_simps [simp]:
  "send_addrs [] = []" "send_addrs (os @ ps) = send_addrs os @ send_addrs ps"
  "send_addrs [OInit k s] = []" "send_addrs [OStatus st] = []" "send_addrs [OStopped] = []"
  "send_addrs [OBcast s v] = []" "send_addrs [OSend m a] = [a]"
  "send_addrs (OInit k s # os) = send_addrs os"
  by (simp_all add: send_addrs_def map_filter_def)

lemma trace_voices_Cons:
  "trace_voices ((now, bus, ev) # es) =
     (case ev of EMsg (Some (MVoice v)) \<Rightarrow> [v] | _ \<Rightarrow> []) @ trace_voices es"
  by (auto simp: trace_voices_def map_filter_def split: conn_event.splits option.splits
      internal_msg.splits)

lemma step_bcasts:
  "bcasts (snd (conn_step io now bus t ev)) = [] \<or>
   (\<exists>v w. ev = EMsg (Some (MVoice v)) \<and> unseal io (vc_crypt_key t) v = Some w \<and>
      bcasts (snd (conn_step io now bus t ev)) = [(vc_source_id t, w)])"
proof (cases "vc_phase t")
  case (AwaitingAddr d)
  then show ?thesis
    by (cases ev; cases "(now, bus, t, the (case ev of ECtl c \<Rightarrow> Some c | _ \<Rightarrow> None))"
          rule: waiting_ctl.cases) (auto simp: conn_defs)
next
  case (Exchanging p)
  then show ?thesis
  proof (cases ev)
    case (ECtl c)
    with Exchanging show ?thesis
      by (cases "(t, p, c)" rule: peered_ctl.cases) (auto simp: conn_defs)
  next
    case (EMsg m)
    with Exchanging show ?thesis
      by (cases "(io, now, t, p, m)" rule: peered_msg.cases)
        (auto simp: conn_defs Let_def unseal_def split: option.splits)
  next
    case EBus
    with Exchanging show ?thesis
      by (auto simp: conn_defs peered_bus_def Let_def split: option.splits prod.splits)
  qed (auto simp: conn_defs)
qed (simp add: conn_step_def)

lemma run_bcasts:
  "subseq (map (\<lambda>e. (fst e, Some (snd e))) (bcasts (snd (conn_run io t es))))
     (map (\<lambda>v. (vc_source_id t, unseal io (vc_crypt_key t) v)) (trace_voices es))"
proof (induction t es rule: conn_run_induct [where io = io])
  case (Cons t now bus ev es)
  show ?case
    using step_bcasts [of io now bus t ev]
  proof (elim disjE exE conjE)
    assume "bcasts (snd (conn_step io now bus t ev)) = []"
    then show ?thesis
      using Cons.IH
      by (auto simp: conn_run_Cons trace_voices_Cons
          split: conn_event.split option.split internal_msg.split)
  qed (use Cons.IH in \<open>simp add: conn_run_Cons trace_voices_Cons\<close>)
qed simp

lemma step_addrs_peered:
  assumes "vc_phase t = Exchanging p"
  shows "set (send_addrs (snd (conn_step io now bus t ev))) \<subseteq> {pv_addr p}"
proof (cases ev)
  case (ECtl c)
  with assms show ?thesis
    by (cases "(t, p, c)" rule: peered_ctl.cases) (auto simp: conn_defs)
next
  case (EMsg m)
  with assms show ?thesis
    by (cases "(io, now, t, p, m)" rule: peered_msg.cases)
      (auto simp: conn_defs Let_def split: option.splits)
next
  case EBus
  with assms show ?thesis
    by (auto simp: conn_defs peered_bus_def Let_def split: option.splits prod.splits)
qed (use assms in \<open>auto simp: conn_defs\<close>)

lemma step_peered_addr:
  assumes "vc_phase t = Exchanging p"
  shows "vc_phase (fst (conn_step io now bus t ev)) = Finished \<or>
    (\<exists>p'. vc_phase (fst (conn_step io now bus t ev)) = Exchanging p' \<and> pv_addr p' = pv_addr p)"
  using conn_step_frame [of t io now bus ev] assms
  by (cases "vc_phase (fst (conn_step io now bus t ev))")
    (auto simp: task_frame_def lifecycle_def less_eq_connection_state_def)

lemma run_addrs_peered:
  "vc_phase t = Exchanging p \<Longrightarrow> set (send_addrs (snd (conn_run io t es))) \<subseteq> {pv_addr p}"
proof (induction t es arbitrary: p rule: conn_run_induct [where io = io])
  case (Cons t now bus ev es)
  let ?t = "fst (conn_step io now bus t ev)"
  have "set (send_addrs (snd (conn_run io ?t es))) \<subseteq> {pv_addr p}"
    using step_peered_addr [OF Cons.prems, of io now bus ev] Cons.IH by fastforce
  then show ?case
    using step_addrs_peered [OF Cons.prems, of io now bus ev] by (auto simp: conn_run_Cons)
qed simp

lemma waiting_step_shape:
  assumes "vc_phase t = AwaitingAddr d"
  obtains (init) a p where "ev = ECtl (Some (CtlInit a))" "a = pv_addr p"
      "conn_step io now bus t ev = (set_vars t p, [OInit (vc_crypt_key t) (vc_source_id t)])"
    | (wait) "\<nexists>a. ev = ECtl (Some (CtlInit a))" "fst (conn_step io now bus t ev) = t"
      "send_addrs (snd (conn_step io now bus t ev)) = []"
    | (ended) "\<nexists>a. ev = ECtl (Some (CtlInit a))"
      "vc_phase (fst (conn_step io now bus t ev)) = Finished"
      "send_addrs (snd (conn_step io now bus t ev)) = []"
proof (cases ev)
  case (ECtl c)
  with assms that show ?thesis
    by (cases "(now, bus, t, c)" rule: waiting_ctl.cases)
      (auto simp: conn_defs peered_enter_def intro!: that(1) [OF _ refl])
next
  case ETimer
  with assms that show ?thesis by (cases "d \<le> now") (auto simp: conn_defs)
qed (use assms that in \<open>auto simp: conn_defs\<close>)

lemma first_init_skip:
  "\<nexists>a. ev = ECtl (Some (CtlInit a)) \<Longrightarrow> first_init ((now, bus, ev) # es) = first_init es"
  by (cases "(now, bus, ev) # es" rule: first_init.cases) auto

lemma run_addrs_waiting:
  "vc_phase t = AwaitingAddr d \<Longrightarrow>
     set (send_addrs (snd (conn_run io t es))) \<subseteq> set_option (first_init es)"
proof (induction t es rule: conn_run_induct [where io = io])
  case (Cons t now bus ev es)
  show ?case
  proof (rule waiting_step_shape [OF Cons.prems, of ev io now bus], goal_cases init wait ended)
    case (init a p)
    then show ?thesis
      using run_addrs_peered [of "set_vars t p" p io es] by (simp add: conn_run_Cons)
  next
    case wait
    then show ?thesis using Cons by (simp add: conn_run_Cons first_init_skip)
  next
    case ended
    then show ?thesis by (simp add: conn_run_Cons)
  qed
qed simp

lemma step_bcasts_live:
  assumes "vc_phase t = Exchanging p"
    and "vc_phase (fst (conn_step io now bus t ev)) \<noteq> Finished"
  shows "map (\<lambda>e. (fst e, Some (snd e))) (bcasts (snd (conn_step io now bus t ev))) =
     map (\<lambda>v. (vc_source_id t, unseal io (vc_crypt_key t) v)) (trace_voices [(now, bus, ev)])"
proof (cases ev)
  case (ECtl c)
  with assms show ?thesis
    by (cases "(t, p, c)" rule: peered_ctl.cases) (auto simp: conn_defs trace_voices_def map_filter_def)
next
  case (EMsg m)
  with assms show ?thesis
    by (cases "(io, now, t, p, m)" rule: peered_msg.cases)
      (auto simp: conn_defs Let_def unseal_def trace_voices_def map_filter_def
        split: option.splits if_splits)
next
  case EBus
  with assms show ?thesis
    by (auto simp: conn_defs peered_bus_def Let_def trace_voices_def map_filter_def
        split: option.splits prod.splits if_splits)
qed (use assms in \<open>auto simp: conn_defs trace_voices_def map_filter_def\<close>)

lemma run_bcasts_live:
  "vc_phase t = Exchanging p \<Longrightarrow> vc_phase (fst (conn_run io t es)) \<noteq> Finished \<Longrightarrow>
     map (\<lambda>e. (fst e, Some (snd e))) (bcasts (snd (conn_run io t es))) =
     map (\<lambda>v. (vc_source_id t, unseal io (vc_crypt_key t) v)) (trace_voices es)"
proof (induction t es arbitrary: p rule: conn_run_induct [where io = io])
  case (Nil t)
  then show ?case by (simp add: trace_voices_def map_filter_def)
next
  case (Cons t now bus ev es)
  let ?t = "fst (conn_step io now bus t ev)"
  have rest: "vc_phase (fst (conn_run io ?t es)) \<noteq> Finished"
    using Cons.prems(2) by (simp add: conn_run_Cons)
  note live = run_live_step [OF rest]
  obtain p' where p': "vc_phase ?t = Exchanging p'"
    using step_peered_addr [OF Cons.prems(1), of io now bus ev] live by blast
  have "trace_voices ((now, bus, ev) # es) = trace_voices [(now, bus, ev)] @ trace_voices es"
    by (simp add: trace_voices_Cons) (simp add: trace_voices_def map_filter_def)
  then show ?case
    using Cons.IH [OF p' rest] step_bcasts_live [OF Cons.prems(1) live]
    by (simp add: conn_run_Cons)
qed

lemma start_facts:
  "deadline (voice_connection_start c s k at0) = at0 + IDLE_TIMEOUT"
  "sent_count (voice_connection_start c s k at0) = 0"
  "received_count (voice_connection_start c s k at0) = 0"
  "vc_phase (voice_connection_start c s k at0) = AwaitingAddr (at0 + IDLE_TIMEOUT)"
  "vc_source_id (voice_connection_start c s k at0) = s"
  by (simp_all add: voice_connection_start_def sent_count_def received_count_def)

lemma timer_deadline:
  assumes "vc_phase t \<noteq> Finished"
  shows "vc_phase (fst (conn_step io now bus t ETimer)) = Finished \<longleftrightarrow> deadline t \<le> now"
  using assms by (cases "vc_phase t") (auto simp: conn_defs)

lemma seal_unseal:
  "aead_inverse (enc io) (dec io) \<Longrightarrow> seal io k v = Some w \<Longrightarrow> unseal io k w = Some v"
  using voice_decrypt_encrypt [of "enc io" "dec io" k]
  by (auto simp: seal_def unseal_def)

section \<open>Properties\<close>

text \<open>
  C3: Delivery order. Whatever the interleaving of control messages, pings, timers, lags and
  bus traffic, the voices a connection sends to its client are, in the order of the bus and
  without repetition, the voices other connections put on the bus, each encrypted under the
  connection's own key; a connection never sends a client its own voice back.
\<close>

theorem voice_delivery_in_order:
  assumes "bus_grows b es"
  shows "subseq (map Some (sent_voices (snd (conn_run io t es))))
       (map (\<lambda>e. seal io (vc_crypt_key t) (snd e))
          (filter (\<lambda>e. fst e \<noteq> vc_source_id t) (drop (cursor t b) (last_bus b es))))"
  using assms by (rule delivery_order_aux)

text \<open>
  A worked run: connection 7 peers, the bus then gets a voice of its own and one of connection
  8, and the connection sends the second one only.
\<close>

definition demo_io :: io where
  "demo_io = \<lparr>enc = (\<lambda>key nonce aad m. Some (m @ key)),
     dec = (\<lambda>key nonce aad c. if length key \<le> length c \<and> drop (length c - length key) c = key
                                 then Some (take (length c - length key) c) else None),
     udp_ok = (\<lambda>m a. True)\<rparr>"

definition demo_addr :: socket_addr where
  "demo_addr = SocketV4 0x7F000001 4000"

definition demo_task :: conn_task where
  "demo_task = voice_connection_start 1 7 [9] 0"

definition demo_voice :: "u32 \<Rightarrow> voice" where
  "demo_voice s = \<lparr>sequence = 1, stream_time = 2, source_id = s, payload = [5]\<rparr>"

definition demo_trace :: conn_trace where
  "demo_trace =
     [(10, [], ECtl (Some (CtlInit demo_addr))),
      (20, [(7, demo_voice 7), (8, demo_voice 8)], EBus),
      (20, [(7, demo_voice 7), (8, demo_voice 8)], EBus)]"

lemmas demo_defs = demo_io_def demo_addr_def demo_task_def demo_voice_def demo_trace_def
  voice_connection_start_def

lemma demo_sends:
  "sent_voices (snd (conn_run demo_io demo_task demo_trace)) = [(demo_voice 8)\<lparr>payload := [5, 9]\<rparr>]"
  by (simp add: demo_defs conn_run_Cons conn_defs peered_enter_def peered_bus_def Let_def
      voice_encrypt_def sent_voices_def map_filter_def server_voice_def server_message_new_def)

lemma demo_facts:
  "vc_source_id demo_task = 7" "vc_crypt_key demo_task = [9]" "cursor demo_task [] = 0"
  "last_bus [] demo_trace = [(7, demo_voice 7), (8, demo_voice 8)]" "bus_grows [] demo_trace"
  by (simp_all add: demo_task_def voice_connection_start_def cursor_def demo_trace_def)

theorem voice_delivery_in_order_witness:
  "subseq [Some ((demo_voice 8)\<lparr>payload := [5, 9]\<rparr>)]
     (map (\<lambda>e. seal demo_io [9] (snd e))
        (filter (\<lambda>e. fst e \<noteq> (7 :: u32)) [(7, demo_voice 7), (8, demo_voice 8)]))"
  using voice_delivery_in_order [OF demo_facts(5), of demo_io demo_task]
  unfolding demo_facts demo_sends drop_0 by (simp del: filter.simps)


text \<open>
  End to end. A voice one client seals under its key, sent to its own connection \<open>a\<close> and
  from there over the bus to the connection \<open>b\<close> of another client, leaves \<open>b\<close> as a datagram to
  \<open>b\<close>'s client which that client's key opens to the voice the first client spoke.
\<close>

theorem voice_end_to_end:
  assumes "aead_inverse (enc io) (dec io)"
    and "vc_phase a = Exchanging pa" and "vc_phase b = Exchanging pb"
    and "vc_source_id a \<noteq> vc_source_id b"
    and "seal io (vc_crypt_key a) v = Some w"
    and "seal io (vc_crypt_key b) v = Some w'"
    and "udp_ok io (server_voice w') (pv_addr pb)" and "pv_cursor pb = length bus"
  shows "\<exists>e. snd (conn_step io now bus a (EMsg (Some (MVoice w)))) = [OBcast (fst e) (snd e)] \<and>
     snd (conn_step io now (bus @ [e]) b EBus) = [OSend (server_voice w') (pv_addr pb)] \<and>
     unseal io (vc_crypt_key b) w' = Some v"
proof -
  obtain m where w: "w = v\<lparr>payload := m\<rparr>"
    and m: "voice_encrypt (enc io) (vc_crypt_key a) (payload v) (sequence v) (stream_time v) = Some m"
    using assms(5) by (auto simp: seal_def)
  have "snd (conn_step io now bus a (EMsg (Some (MVoice w)))) = [OBcast (vc_source_id a) v]"
    using assms(2) voice_decrypt_encrypt [OF assms(1) m] by (simp add: conn_defs w)
  moreover have "snd (conn_step io now (bus @ [(vc_source_id a, v)]) b EBus) =
      [OSend (server_voice w') (pv_addr pb)]"
    using assms(3,4,6-8)
    by (auto simp: conn_defs peered_bus_def Let_def seal_def split: option.splits)
  ultimately show ?thesis
    using seal_unseal [OF assms(1,6)] by force
qed

lemma demo_cipher_ok: "aead_inverse (enc demo_io) (dec demo_io)"
  by (auto simp: aead_inverse_def demo_io_def)

definition demo_peered :: "u32 \<Rightarrow> u8 \<Rightarrow> conn_task" where
  "demo_peered s k = set_vars (voice_connection_start 1 s [k] 0) (peered_enter 0 [] demo_addr)"

lemma demo_peered_facts:
  "vc_phase (demo_peered s k) = Exchanging (peered_enter 0 [] demo_addr)"
  "vc_source_id (demo_peered s k) = s" "vc_crypt_key (demo_peered s k) = [k]"
  "seal demo_io [k] v = Some (v\<lparr>payload := payload v @ [k]\<rparr>)"
  "udp_ok demo_io m a" "pv_cursor (peered_enter 0 [] demo_addr) = length ([] :: bus)"
  by (simp_all add: demo_peered_def voice_connection_start_def seal_def voice_encrypt_def
      demo_io_def peered_enter_def)

theorem voice_end_to_end_witness:
  "\<exists>e. snd (conn_step demo_io 1 [] (demo_peered 7 9)
            (EMsg (Some (MVoice ((demo_voice 7)\<lparr>payload := [5, 9]\<rparr>))))) = [OBcast (fst e) (snd e)] \<and>
     snd (conn_step demo_io 1 ([] @ [e]) (demo_peered 8 4) EBus) =
       [OSend (server_voice ((demo_voice 7)\<lparr>payload := [5, 4]\<rparr>))
          (pv_addr (peered_enter 0 [] demo_addr))] \<and>
     unseal demo_io (vc_crypt_key (demo_peered 8 4)) ((demo_voice 7)\<lparr>payload := [5, 4]\<rparr>) =
       Some (demo_voice 7)"
  by (rule voice_end_to_end [OF demo_cipher_ok demo_peered_facts(1) demo_peered_facts(1)])
    (simp_all add: demo_peered_facts demo_voice_def)

text \<open>
  Broadcast integrity. While a peered connection lives, what it has put on the bus is exactly
  the list of voices handed to it, in order, each decrypted under its own key and tagged with
  its own source id; a voice that does not decrypt has ended the connection.
\<close>

theorem broadcasts_are_received_voices:
  assumes "vc_phase t = Exchanging p" and "vc_phase (fst (conn_run io t es)) \<noteq> Finished"
  shows "map (\<lambda>e. (fst e, Some (snd e))) (bcasts (snd (conn_run io t es))) =
     map (\<lambda>v. (vc_source_id t, unseal io (vc_crypt_key t) v)) (trace_voices es)"
  using assms by (rule run_bcasts_live)

definition demo_talk :: conn_trace where
  "demo_talk = [(5, [], EMsg (Some (MVoice ((demo_voice 7)\<lparr>payload := [6, 9]\<rparr>)))),
     (6, [], EMsg (Some (MPing \<lparr>ping_seq = 1, ping_recv = 0, ping_sent = 0, ping_source_id = 7\<rparr>)))]"

lemma demo_talk_live: "vc_phase (fst (conn_run demo_io (demo_peered 7 9) demo_talk)) \<noteq> Finished"
  by (simp add: demo_talk_def conn_run_Cons conn_defs demo_peered_def voice_connection_start_def
      voice_decrypt_def Let_def demo_io_def)

theorem broadcasts_are_received_voices_witness:
  "map (\<lambda>e. (fst e, Some (snd e))) (bcasts (snd (conn_run demo_io (demo_peered 7 9) demo_talk))) =
     map (\<lambda>v. (vc_source_id (demo_peered 7 9), unseal demo_io (vc_crypt_key (demo_peered 7 9)) v))
       (trace_voices demo_talk)"
  by (rule broadcasts_are_received_voices [OF demo_peered_facts(1) demo_talk_live])

text \<open>
  Life cycle. A connection goes from waiting to peered to stopped and never back, and keeps
  its client, its source id and its key all along.
\<close>

theorem conn_lifecycle_monotone:
  "lifecycle t \<le> lifecycle (fst (conn_run io t es)) \<and>
   vc_client_id (fst (conn_run io t es)) = vc_client_id t \<and>
   vc_source_id (fst (conn_run io t es)) = vc_source_id t \<and>
   vc_crypt_key (fst (conn_run io t es)) = vc_crypt_key t"
  by (simp add: lifecycle_run)

text \<open>
  C27: Keep-alive. The timer ends a connection exactly when 15 seconds have passed since it was
  started, peered or last pinged, whichever came last; voices and status requests do not
  count.
\<close>

theorem keepalive_deadline:
  assumes "vc_phase (fst (conn_run io (voice_connection_start c s k at0) es)) \<noteq> Finished"
  shows "lifecycle (fst (conn_step io now bus
           (fst (conn_run io (voice_connection_start c s k at0) es)) ETimer)) = Stopped \<longleftrightarrow>
         last_renewal io (voice_connection_start c s k at0) at0 es + 15000 \<le> now"
  using run_deadline [OF assms start_facts(1)] timer_deadline [OF assms, of io now bus]
  by (simp add: IDLE_TIMEOUT_def)

lemma demo_live: "vc_phase (fst (conn_run demo_io demo_task demo_trace)) \<noteq> Finished"
  by (simp add: demo_defs conn_run_Cons conn_defs peered_enter_def peered_bus_def Let_def
      voice_encrypt_def)

theorem keepalive_deadline_witness:
  "lifecycle (fst (conn_step demo_io 15010 [] (fst (conn_run demo_io demo_task demo_trace)) ETimer))
     = Stopped \<longleftrightarrow> last_renewal demo_io demo_task 0 demo_trace + 15000 \<le> 15010"
  unfolding demo_task_def
  by (rule keepalive_deadline [OF demo_live [unfolded demo_task_def]])

text \<open>
  Ping statistics. The answer to a ping goes to the peer, repeats the ping's number, and
  counts the voices sent to the client and the voices accepted from it since the connection
  was started.
\<close>

theorem pong_reports_counts:
  assumes "vc_phase (fst (conn_run io (voice_connection_start c s k at0) es)) = Exchanging p"
    and "udp_ok io = (\<lambda>m a. True)"
  shows "snd (conn_step io now bus (fst (conn_run io (voice_connection_start c s k at0) es))
           (EMsg (Some (MPing g)))) =
     [OSend (server_pong
        \<lparr>pong_seq = ping_seq g,
         pong_sent = of_nat (length (sent_voices
           (snd (conn_run io (voice_connection_start c s k at0) es)))),
         pong_received = of_nat (length (bcasts
           (snd (conn_run io (voice_connection_start c s k at0) es))))\<rparr>) (pv_addr p)]"
proof -
  have "vc_phase (fst (conn_run io (voice_connection_start c s k at0) es)) \<noteq> Finished"
    using assms(1) by simp
  from run_counts [OF this] show ?thesis
    using assms by (simp add: conn_defs Let_def sent_count_def received_count_def start_facts)
qed

lemma demo_ends_peered:
  "vc_phase (fst (conn_run demo_io (voice_connection_start 1 7 [9] 0) demo_trace)) =
     Exchanging \<lparr>pv_addr = demo_addr, pv_seq = 0, pv_sent = 1, pv_received = 0,
       pv_deadline = 15010, pv_cursor = 2\<rparr>"
  by (simp add: demo_defs conn_run_Cons conn_defs peered_enter_def peered_bus_def Let_def
      voice_encrypt_def IDLE_TIMEOUT_def)

theorem pong_reports_counts_witness:
  "snd (conn_step demo_io 30 [] (fst (conn_run demo_io demo_task demo_trace))
         (EMsg (Some (MPing \<lparr>ping_seq = 3, ping_recv = 0, ping_sent = 0, ping_source_id = 7\<rparr>)))) =
     [OSend (server_pong \<lparr>pong_seq = 3,
        pong_sent = of_nat (length (sent_voices (snd (conn_run demo_io demo_task demo_trace)))),
        pong_received = of_nat (length (bcasts (snd (conn_run demo_io demo_task demo_trace))))\<rparr>)
        demo_addr]"
  using pong_reports_counts [OF demo_ends_peered, of 30 "[]"
      "\<lparr>ping_seq = 3, ping_recv = 0, ping_sent = 0, ping_source_id = 7\<rparr>"]
  unfolding demo_task_def by (simp add: demo_io_def)

text \<open>
  One peer. Every datagram of a connection goes to the address of the first \<open>Init\<close> it
  received; later \<open>Init\<close> requests do not redirect it, and before the first one nothing is sent.
\<close>

theorem sends_only_to_first_init:
  "set (send_addrs (snd (conn_run io (voice_connection_start c s k at0) es)))
     \<subseteq> set_option (first_init es)"
  by (rule run_addrs_waiting [OF start_facts(4)])

end
