(* ===== verification/Forwarder.thy ===== *)
theory Forwarder
  imports Voice_Connection
begin

text \<open>
  The task of one voice channel, \<open>Forwarder\<close> in \<open>server/voice/core/src/channel/mod.rs\<close>: it owns
  the UDP socket, demultiplexes datagrams to the connection tasks, answers the control requests
  of \<open>Channel\<close>, and reaps connection tasks that have ended.

  The connection tasks run beside the forwarder. They are kept in \<open>procs\<close>, in the order they were
  started; what the code holds as channel ends of a task (\<open>tx\<close>, \<open>ctl\<close>, \<open>VoiceTask\<close>) is the
  task's index. A request to a task that is answered over a \<open>oneshot\<close> is one step of the task,
  taken while the forwarder waits for the answer.
\<close>

section \<open>State\<close>

record conn =
  conn_task_id :: nat
  user_name :: string
  conn_addr :: "socket_addr option"

datatype fwd_status = Running | Ended | Crashed

record forwarder =
  connections :: "(u32, conn) btree_map"
  client_id_to_src_id :: "(uuid, u32) btree_map"
  tasks :: "nat list"                    \<comment> \<open>\<open>FuturesUnordered\<close>\<close>
  procs :: "conn_task list"
  inboxes :: "internal_msg list list"    \<comment> \<open>the \<open>mpsc\<close> queue of each task\<close>
  voice_bus :: bus
  idle_from :: instant                   \<comment> \<open>when the present loop iteration began\<close>
  status :: fwd_status

definition CHANNEL_IDLE_TIMEOUT :: instant where
  "CHANNEL_IDLE_TIMEOUT = 5000"

text \<open>The capacity of a connection's queue, \<open>mpsc::channel(10)\<close>.\<close>

definition MSG_QUEUE :: nat where
  "MSG_QUEUE = 10"

definition forwarder_new :: "instant \<Rightarrow> forwarder" where
  "forwarder_new now = \<lparr>connections = [], client_id_to_src_id = [], tasks = [], procs = [],
     inboxes = [], voice_bus = [], idle_from = now, status = Running\<rparr>"

section \<open>Requests and answers\<close>

datatype channel_ctl =
    OpenConnection uuid string
  | Establish uuid socket_addr
  | Leave uuid
  | Peers
  | Status uuid

datatype forward_error =
    BadAddr socket_addr socket_addr
  | SessionNotEstablished
  | TaskStopped
  | UnexpectedSource u32

datatype voice_error = PeerNotFound | ChannelNotFound | NoOpenPorts | OtherError

record init_response =
  crypt_key :: "u8 list"
  ir_source_id :: u32

text \<open>\<open>RDropped\<close> is a responder dropped without an answer.\<close>

datatype ctl_reply =
    ROpen u32
  | REstablish "voice_error + init_response"
  | RLeft
  | RPeers "peer list"
  | RStatus "voice_error + connection_state"
  | RDropped

datatype fwd_out =
    FReply ctl_reply
  | FSend server_message socket_addr
  | FEndNotify

section \<open>Control of a connection task\<close>

text \<open>\<open>VoiceControl::init\<close>, \<open>status\<close> and \<open>stop\<close>: one request to the task and its answer.\<close>

definition ask :: "io \<Rightarrow> instant \<Rightarrow> nat \<Rightarrow> control_request \<Rightarrow> forwarder \<Rightarrow> forwarder \<times> conn_out list"
  where
  "ask io now tid req f =
     (let (t, outs) = conn_step io now (voice_bus f) (procs f ! tid) (ECtl (Some req))
      in (f\<lparr>procs := (procs f)[tid := t]\<rparr>, outs))"

definition ctl_init ::
  "io \<Rightarrow> instant \<Rightarrow> nat \<Rightarrow> socket_addr \<Rightarrow> forwarder \<Rightarrow> forwarder \<times> init_response option" where
  "ctl_init io now tid addr f =
     (let (f', outs) = ask io now tid (CtlInit addr) f
      in (f', case outs of
                [OInit key s] \<Rightarrow> Some \<lparr>crypt_key = key, ir_source_id = s\<rparr> | _ \<Rightarrow> None))"

definition ctl_status ::
  "io \<Rightarrow> instant \<Rightarrow> nat \<Rightarrow> forwarder \<Rightarrow> forwarder \<times> connection_state option" where
  "ctl_status io now tid f =
     (let (f', outs) = ask io now tid CtlStatus f
      in (f', case outs of [OStatus s] \<Rightarrow> Some s | _ \<Rightarrow> None))"

definition ctl_stop :: "io \<Rightarrow> instant \<Rightarrow> nat \<Rightarrow> forwarder \<Rightarrow> forwarder" where
  "ctl_stop io now tid f = fst (ask io now tid CtlStop f)"

section \<open>The control handlers\<close>

text \<open>The source id and the key are what \<open>VoiceConnection::start\<close> draws at random.\<close>

definition open_connection ::
  "instant \<Rightarrow> u32 \<Rightarrow> u8 list \<Rightarrow> uuid \<Rightarrow> string \<Rightarrow> forwarder \<Rightarrow> forwarder \<times> ctl_reply" where
  "open_connection now src_id key client_id name f =
     (let tid = length (procs f);
          conn = \<lparr>conn_task_id = tid, user_name = name, conn_addr = None\<rparr>
      in (f\<lparr>procs := procs f @ [voice_connection_start client_id src_id key now],
            inboxes := inboxes f @ [[]],
            tasks := tasks f @ [tid],
            connections := bt_insert src_id conn (connections f),
            client_id_to_src_id := bt_insert client_id src_id (client_id_to_src_id f)\<rparr>,
          ROpen src_id))"

text \<open>
  \<open>Establish\<close>: an unknown client is an error; \<open>expect("always present")\<close> panics when the source
  id has no connection; a task that no longer answers makes \<open>?\<close> drop the responder.
\<close>

definition establish ::
  "io \<Rightarrow> instant \<Rightarrow> uuid \<Rightarrow> socket_addr \<Rightarrow> forwarder \<Rightarrow> (forwarder \<times> ctl_reply) outcome" where
  "establish io now client_id addr f =
     (case map_of (client_id_to_src_id f) client_id of
        None \<Rightarrow> Done (f, REstablish (Inl PeerNotFound))
      | Some src_id \<Rightarrow>
          (case map_of (connections f) src_id of
             None \<Rightarrow> Panicked
           | Some conn \<Rightarrow>
               (let bound = bt_insert src_id (conn\<lparr>conn_addr := Some addr\<rparr>) (connections f);
                    (f', r) = ctl_init io now (conn_task_id conn) addr (f\<lparr>connections := bound\<rparr>)
                in Done (f', case r of Some resp \<Rightarrow> REstablish (Inr resp) | None \<Rightarrow> RDropped))))"

text \<open>\<open>Peers\<close> pairs the keys of one map with the values of the other.\<close>

fun peers_loop ::
  "io \<Rightarrow> instant \<Rightarrow> (uuid \<times> conn) list \<Rightarrow> forwarder \<Rightarrow> forwarder \<times> peer list" where
  "peers_loop io now [] f = (f, [])"
| "peers_loop io now ((cid, conn) # rest) f =
     (let (f1, st) = ctl_status io now (conn_task_id conn) f;
          (f2, ps) = peers_loop io now rest f1
      in (f2, if st = Some Peered
              then \<lparr>peer_id = cid, peer_source_id = vc_source_id (procs f ! conn_task_id conn),
                    peer_name = user_name conn\<rparr> # ps
              else ps))"

definition peers :: "io \<Rightarrow> instant \<Rightarrow> forwarder \<Rightarrow> forwarder \<times> ctl_reply" where
  "peers io now f =
     (let (f', ps) = peers_loop io now
                       (zip (map fst (client_id_to_src_id f)) (map snd (connections f))) f
      in (f', RPeers ps))"

definition leave :: "io \<Rightarrow> instant \<Rightarrow> uuid \<Rightarrow> forwarder \<Rightarrow> forwarder \<times> ctl_reply" where
  "leave io now client_id f =
     (case Option.bind (map_of (client_id_to_src_id f) client_id) (map_of (connections f)) of
        Some conn \<Rightarrow> (ctl_stop io now (conn_task_id conn) f, RLeft)
      | None \<Rightarrow> (f, RLeft))"

definition status_of ::
  "io \<Rightarrow> instant \<Rightarrow> uuid \<Rightarrow> forwarder \<Rightarrow> (forwarder \<times> ctl_reply) outcome" where
  "status_of io now client_id f =
     (case map_of (client_id_to_src_id f) client_id of
        None \<Rightarrow> Done (f, RStatus (Inl PeerNotFound))
      | Some sid \<Rightarrow>
          (case map_of (connections f) sid of
             None \<Rightarrow> Panicked
           | Some conn \<Rightarrow>
               (let (f', st) = ctl_status io now (conn_task_id conn) f
                in Done (f', RStatus (Inr (case st of Some s \<Rightarrow> s | None \<Rightarrow> Stopped))))))"

fun control_msg ::
  "io \<Rightarrow> instant \<Rightarrow> u32 \<Rightarrow> u8 list \<Rightarrow> channel_ctl \<Rightarrow> forwarder \<Rightarrow>
     (forwarder \<times> ctl_reply) outcome" where
  "control_msg io now src_id key (OpenConnection c name) f =
     Done (open_connection now src_id key c name f)"
| "control_msg io now src_id key (Establish c addr) f = establish io now c addr f"
| "control_msg io now src_id key Peers f = Done (peers io now f)"
| "control_msg io now src_id key (Leave c) f = Done (leave io now c f)"
| "control_msg io now src_id key (Status c) f = status_of io now c f"

section \<open>Datagrams\<close>

text \<open>
  \<open>Conn::forward\<close>. The send waits while the queue is full; the step is the moment it completes,
  so it is taken only when there is room (\<open>has_room\<close> below) or the task is gone.
\<close>

definition conn_forward ::
  "conn \<Rightarrow> socket_addr \<Rightarrow> internal_msg \<Rightarrow> forwarder \<Rightarrow> forward_error + forwarder" where
  "conn_forward conn from msg f =
     (case conn_addr conn of
        None \<Rightarrow> Inl SessionNotEstablished
      | Some addr \<Rightarrow>
          (if \<not> same_addr addr from then Inl (BadAddr addr from)
           else if vc_phase (procs f ! conn_task_id conn) = Finished then Inl TaskStopped
           else Inr (f\<lparr>inboxes := (inboxes f)[conn_task_id conn :=
                         inboxes f ! conn_task_id conn @ [msg]]\<rparr>)))"

definition forward ::
  "socket_addr \<Rightarrow> u32 \<Rightarrow> internal_msg \<Rightarrow> forwarder \<Rightarrow> forward_error + forwarder" where
  "forward addr src_id msg f =
     (case map_of (connections f) src_id of
        None \<Rightarrow> Inl (UnexpectedSource src_id)
      | Some conn \<Rightarrow> conn_forward conn addr msg f)"

definition ip_disco ::
  "io \<Rightarrow> socket_addr \<Rightarrow> ip_disco_request \<Rightarrow> forwarder \<Rightarrow> fwd_out list" where
  "ip_disco io addr msg f =
     (if map_of (connections f) (disco_source_id msg) \<noteq> None
      then (let m = server_ip_disco \<lparr>disco_ip = sa_ip addr, disco_port = ucast (sa_port addr)\<rparr>
            in if udp_ok io m addr then [FSend m addr] else [])
      else [])"

text \<open>An error of \<open>forward\<close> is logged; a message without payload reaches \<open>todo!()\<close>.\<close>

definition forwarded :: "forwarder \<Rightarrow> forward_error + forwarder \<Rightarrow> forwarder" where
  "forwarded f r = (case r of Inl e \<Rightarrow> f | Inr f' \<Rightarrow> f')"

definition socket_msg ::
  "io \<Rightarrow> socket_addr \<Rightarrow> client_message \<Rightarrow> forwarder \<Rightarrow> (forwarder \<times> fwd_out list) outcome" where
  "socket_msg io addr msg f =
     (case cm_payload msg of
        Some (CIpDisco disco) \<Rightarrow> Done (f, ip_disco io addr disco f)
      | Some (CVoice voice) \<Rightarrow> Done (forwarded f (forward addr (source_id voice) (MVoice voice) f), [])
      | Some (CPing ping) \<Rightarrow> Done (forwarded f (forward addr (ping_source_id ping) (MPing ping) f), [])
      | None \<Rightarrow> Panicked)"

section \<open>The end of a task\<close>

text \<open>
  \<open>tasks.next()\<close> yields the ids of a finished task. The connection is removed when the client
  still has an entry, and the entry when it still names this source id.
\<close>

definition task_end :: "nat \<Rightarrow> forwarder \<Rightarrow> forwarder" where
  "task_end tid f =
     (let src_id = vc_source_id (procs f ! tid);
          client_id = vc_client_id (procs f ! tid);
          f = f\<lparr>tasks := remove1 tid (tasks f)\<rparr>
      in case map_of (client_id_to_src_id f) client_id of
           None \<Rightarrow> f
         | Some s \<Rightarrow>
             (let f = (if s = src_id
                       then f\<lparr>client_id_to_src_id := bt_remove client_id (client_id_to_src_id f)\<rparr>
                       else f)
              in f\<lparr>connections := bt_remove src_id (connections f)\<rparr>))"

section \<open>The connection tasks in the background\<close>

datatype task_event = TMsg | TBus | TLagged nat | TTimer | TDropped

text \<open>Whether a connection still holds the channel ends of a task.\<close>

definition conn_held :: "forwarder \<Rightarrow> nat \<Rightarrow> bool" where
  "conn_held f tid \<longleftrightarrow> tid \<in> conn_task_id ` snd ` set (connections f)"

text \<open>The event a task sees, \<open>None\<close> when that branch of its \<open>select!\<close> is not ready.\<close>

definition task_sees :: "forwarder \<Rightarrow> nat \<Rightarrow> task_event \<Rightarrow> conn_event option" where
  "task_sees f tid ev =
     (case ev of
        TMsg \<Rightarrow> (case inboxes f ! tid of
                   m # ms \<Rightarrow> Some (EMsg (Some m))
                 | [] \<Rightarrow> (if conn_held f tid then None else Some (EMsg None)))
      | TBus \<Rightarrow> Some EBus
      | TLagged n \<Rightarrow> (if cursor (procs f ! tid) (voice_bus f) + n \<le> length (voice_bus f)
                      then Some (ELagged n) else None)
      | TTimer \<Rightarrow> Some ETimer
      | TDropped \<Rightarrow> (if conn_held f tid then None else Some (ECtl None)))"

definition out_sends :: "conn_out list \<Rightarrow> fwd_out list" where
  "out_sends os = List.map_filter (\<lambda>out. case out of OSend m a \<Rightarrow> Some (FSend m a) | _ \<Rightarrow> None) os"

text \<open>
  A step of a task. Before it is peered a task does not read its queue; that of a finished task
  is not read any more.
\<close>

definition task_step ::
  "io \<Rightarrow> instant \<Rightarrow> nat \<Rightarrow> task_event \<Rightarrow> forwarder \<Rightarrow> forwarder \<times> fwd_out list" where
  "task_step io now tid ev f =
     (case task_sees f tid ev of
        None \<Rightarrow> (f, [])
      | Some cev \<Rightarrow>
          (let (t, outs) = conn_step io now (voice_bus f) (procs f ! tid) cev;
               box = (if ev = TMsg \<and> lifecycle (procs f ! tid) = Peered
                      then tl (inboxes f ! tid) else inboxes f ! tid)
           in (f\<lparr>procs := (procs f)[tid := t],
                 inboxes := (inboxes f)[tid := box],
                 voice_bus := voice_bus f @ bcasts outs\<rparr>, out_sends outs)))"

section \<open>The loop\<close>

datatype fwd_event =
    EvDatagram socket_addr client_message
  | EvBadDatagram
  | EvControl u32 "u8 list" channel_ctl
  | EvControlClosed
  | EvTaskEnd nat
  | EvIdle
  | EvTask nat task_event

text \<open>
  One event of \<open>Forwarder::run\<close>. Every event of the forwarder's own \<open>select!\<close> begins the next
  iteration of the loop and with it a new idle period; the steps of the background tasks do not.
\<close>

definition fwd_step ::
  "io \<Rightarrow> instant \<Rightarrow> fwd_event \<Rightarrow> forwarder \<Rightarrow> forwarder \<times> fwd_out list" where
  "fwd_step io now ev f =
     (if status f \<noteq> Running then (f, []) else
      case ev of
        EvDatagram addr msg \<Rightarrow>
          (case socket_msg io addr msg f of
             Panicked \<Rightarrow> (f\<lparr>status := Crashed\<rparr>, [])
           | Done (f', outs) \<Rightarrow> (f'\<lparr>idle_from := now\<rparr>, outs))
      | EvBadDatagram \<Rightarrow> (f\<lparr>idle_from := now\<rparr>, [])
      | EvControl src_id key ctl \<Rightarrow>
          (case control_msg io now src_id key ctl f of
             Panicked \<Rightarrow> (f\<lparr>status := Crashed\<rparr>, [])
           | Done (f', r) \<Rightarrow> (f'\<lparr>idle_from := now\<rparr>, [FReply r]))
      | EvControlClosed \<Rightarrow> (f\<lparr>status := Ended\<rparr>, [FEndNotify])
      | EvTaskEnd tid \<Rightarrow>
          (if tid \<in> set (tasks f) \<and> vc_phase (procs f ! tid) = Finished
           then ((task_end tid f)\<lparr>idle_from := now\<rparr>, []) else (f, []))
      | EvIdle \<Rightarrow>
          (if tasks f = [] \<and> idle_from f + CHANNEL_IDLE_TIMEOUT \<le> now
           then (f\<lparr>status := Ended\<rparr>, [FEndNotify]) else (f, []))
      | EvTask tid tev \<Rightarrow> (if tid < length (procs f) then task_step io now tid tev f else (f, [])))"

section \<open>Reachable states\<close>

text \<open>
  Source ids are drawn at random from 32 bits; the histories considered are those in which no
  id is drawn twice. A datagram for a connection is handled when its queue has room.
\<close>

fun fresh_source :: "fwd_event \<Rightarrow> forwarder \<Rightarrow> bool" where
  "fresh_source (EvControl src_id key ctl) f = (src_id \<notin> vc_source_id ` set (procs f))"
| "fresh_source _ f = True"

definition queue_room :: "u32 \<Rightarrow> forwarder \<Rightarrow> bool" where
  "queue_room src_id f = (case map_of (connections f) src_id of
      None \<Rightarrow> True | Some conn \<Rightarrow> length (inboxes f ! conn_task_id conn) < MSG_QUEUE)"

fun has_room :: "fwd_event \<Rightarrow> forwarder \<Rightarrow> bool" where
  "has_room (EvDatagram addr msg) f =
     (case cm_payload msg of
        Some (CVoice voice) \<Rightarrow> queue_room (source_id voice) f
      | Some (CPing ping) \<Rightarrow> queue_room (ping_source_id ping) f
      | _ \<Rightarrow> True)"
| "has_room _ f = True"

inductive fwd_reach :: "io \<Rightarrow> forwarder \<Rightarrow> bool" for io :: io where
  init: "fwd_reach io (forwarder_new now)"
| step: "fwd_reach io f \<Longrightarrow> fresh_source ev f \<Longrightarrow> has_room ev f \<Longrightarrow>
     fwd_reach io (fst (fwd_step io now ev f))"

section \<open>Tasks that only move forward\<close>

text \<open>What the forwarder relies on of its tasks: they keep their identity and never go back.\<close>

locale task_pool =
  fixes advance :: "'e \<Rightarrow> 't \<Rightarrow> 't"
    and ident :: "'t \<Rightarrow> 'i"
    and life :: "'t \<Rightarrow> connection_state"
  assumes ident_kept: "ident (advance e t) = ident t"
    and life_grows: "life t \<le> life (advance e t)"
begin

lemma nth_ident: "j < length ts \<Longrightarrow> ident (ts[i := advance e (ts ! i)] ! j) = ident (ts ! j)"
  by (cases "i = j") (auto simp: ident_kept)

lemma map_ident: "map ident (ts[i := advance e (ts ! i)]) = map ident ts"
  by (simp add: list_eq_iff_nth_eq nth_ident)

lemma nth_life: "j < length ts \<Longrightarrow> life (ts ! j) \<le> life (ts[i := advance e (ts ! i)] ! j)"
  by (cases "i = j") (auto simp: life_grows)

lemma left_Waiting:
  "j < length ts \<Longrightarrow> life (ts ! j) \<noteq> Waiting \<Longrightarrow> life (ts[i := advance e (ts ! i)] ! j) \<noteq> Waiting"
  using nth_life [of j ts i e] Waiting_bot(2) by metis

lemma stays_Stopped:
  "j < length ts \<Longrightarrow> life (ts ! j) = Stopped \<Longrightarrow> life (ts[i := advance e (ts ! i)] ! j) = Stopped"
  using nth_life [of j ts i e] by simp

end

definition task_advance :: "io \<times> instant \<times> bus \<times> conn_event \<Rightarrow> conn_task \<Rightarrow> conn_task" where
  "task_advance = (\<lambda>(io, now, bus, ev) t. fst (conn_step io now bus t ev))"

definition task_ident :: "conn_task \<Rightarrow> uuid \<times> u32 \<times> u8 list" where
  "task_ident t = (vc_client_id t, vc_source_id t, vc_crypt_key t)"

interpretation tp: task_pool task_advance task_ident lifecycle
  by unfold_locales
    (auto simp: task_advance_def task_ident_def lifecycle_step split: prod.splits)

text \<open>The tasks after one of them took a step.\<close>

definition stepped :: "nat \<Rightarrow> conn_task \<Rightarrow> conn_task list \<Rightarrow> conn_task list \<Rightarrow> bool" where
  "stepped tid t ps ps' \<longleftrightarrow>
     (\<exists>io now bus ev. t = fst (conn_step io now bus (ps ! tid) ev)) \<and> ps' = ps[tid := t]"

lemma stepped_step:
  "stepped tid (fst (conn_step io now bus (ps ! tid) ev)) ps
     (ps[tid := fst (conn_step io now bus (ps ! tid) ev)])"
  by (auto simp: stepped_def)

lemma stepped_facts:
  assumes "stepped tid t ps ps'"
  shows "length ps' = length ps" and "map vc_source_id ps' = map vc_source_id ps"
    and "j < length ps \<Longrightarrow> vc_source_id (ps' ! j) = vc_source_id (ps ! j)"
    and "j < length ps \<Longrightarrow> vc_client_id (ps' ! j) = vc_client_id (ps ! j)"
    and "j < length ps \<Longrightarrow> lifecycle (ps ! j) \<noteq> Waiting \<Longrightarrow> lifecycle (ps' ! j) \<noteq> Waiting"
    and "j < length ps \<Longrightarrow> vc_phase (ps ! j) = Finished \<Longrightarrow> vc_phase (ps' ! j) = Finished"
    and "j < length ps \<Longrightarrow> j \<noteq> tid \<Longrightarrow> ps' ! j = ps ! j"
    and "tid < length ps \<Longrightarrow> ps' ! tid = t"
proof -
  from assms obtain io now bus ev where
    t: "t = task_advance (io, now, bus, ev) (ps ! tid)" and ps': "ps' = ps[tid := t]"
    by (auto simp: stepped_def task_advance_def)
  have ps'': "ps' = ps[tid := task_advance (io, now, bus, ev) (ps ! tid)]"
    using t ps' by simp
  show "length ps' = length ps" using ps' by simp
  have idents: "map task_ident ps' = map task_ident ps"
    unfolding ps'' by (rule tp.map_ident)
  have "map (fst \<circ> snd \<circ> task_ident) ps' = map (fst \<circ> snd \<circ> task_ident) ps"
    using arg_cong [OF idents, of "map (fst \<circ> snd)"] by simp
  then show "map vc_source_id ps' = map vc_source_id ps"
    by (simp add: task_ident_def o_def)
  show "j < length ps \<Longrightarrow> vc_source_id (ps' ! j) = vc_source_id (ps ! j)"
    "j < length ps \<Longrightarrow> vc_client_id (ps' ! j) = vc_client_id (ps ! j)"
    using tp.nth_ident [of j ps tid] unfolding ps'' by (simp_all add: task_ident_def)
  show "j < length ps \<Longrightarrow> lifecycle (ps ! j) \<noteq> Waiting \<Longrightarrow> lifecycle (ps' ! j) \<noteq> Waiting"
    unfolding ps'' by (rule tp.left_Waiting)
  show "j < length ps \<Longrightarrow> vc_phase (ps ! j) = Finished \<Longrightarrow> vc_phase (ps' ! j) = Finished"
    using tp.stays_Stopped [of j ps tid] unfolding ps'' by simp
  show "j < length ps \<Longrightarrow> j \<noteq> tid \<Longrightarrow> ps' ! j = ps ! j"
    "tid < length ps \<Longrightarrow> ps' ! tid = t"
    using ps' by simp_all
qed

section \<open>The invariant\<close>

text \<open>
  Each connection is filed under the source id of its task, and its address is known exactly
  from the moment its task is peered.
\<close>

definition conn_good :: "conn_task list \<Rightarrow> u32 \<Rightarrow> conn \<Rightarrow> bool" where
  "conn_good ps s conn \<longleftrightarrow> conn_task_id conn < length ps \<and>
     vc_source_id (ps ! conn_task_id conn) = s \<and>
     (conn_addr conn = None \<longrightarrow> lifecycle (ps ! conn_task_id conn) \<noteq> Peered) \<and>
     (conn_addr conn \<noteq> None \<longrightarrow> lifecycle (ps ! conn_task_id conn) \<noteq> Waiting)"

definition conns_ok :: "conn_task list \<Rightarrow> (u32, conn) btree_map \<Rightarrow> bool" where
  "conns_ok ps cs \<longleftrightarrow> (\<forall>s conn. map_of cs s = Some conn \<longrightarrow> conn_good ps s conn)"

text \<open>A client's entry names a connection of that client.\<close>

definition clients_ok ::
  "conn_task list \<Rightarrow> (u32, conn) btree_map \<Rightarrow> (uuid, u32) btree_map \<Rightarrow> bool" where
  "clients_ok ps cs c2s \<longleftrightarrow>
     (\<forall>c s. map_of c2s c = Some s \<longrightarrow>
        (\<exists>conn. map_of cs s = Some conn \<and> vc_client_id (ps ! conn_task_id conn) = c))"

text \<open>A task not yet reaped has its connection; a reaped one has finished.\<close>

definition tasks_ok :: "conn_task list \<Rightarrow> (u32, conn) btree_map \<Rightarrow> nat list \<Rightarrow> bool" where
  "tasks_ok ps cs ts \<longleftrightarrow> distinct ts \<and> set ts \<subseteq> {..<length ps} \<and>
     (\<forall>tid. tid < length ps \<longrightarrow> tid \<notin> set ts \<longrightarrow> vc_phase (ps ! tid) = Finished) \<and>
     (\<forall>tid \<in> set ts. \<exists>conn. map_of cs (vc_source_id (ps ! tid)) = Some conn \<and>
        conn_task_id conn = tid)"

text \<open>A queue is bounded, and empty before its task is peered.\<close>

definition boxes_ok :: "conn_task list \<Rightarrow> internal_msg list list \<Rightarrow> bool" where
  "boxes_ok ps bs \<longleftrightarrow> length bs = length ps \<and>
     (\<forall>tid. tid < length ps \<longrightarrow> length (bs ! tid) \<le> MSG_QUEUE \<and>
        (bs ! tid \<noteq> [] \<longrightarrow> lifecycle (ps ! tid) \<noteq> Waiting))"

definition fwd_inv :: "forwarder \<Rightarrow> bool" where
  "fwd_inv f \<longleftrightarrow> bt_ok (connections f) \<and> bt_ok (client_id_to_src_id f) \<and>
     distinct (map vc_source_id (procs f)) \<and> conns_ok (procs f) (connections f) \<and>
     clients_ok (procs f) (connections f) (client_id_to_src_id f) \<and>
     tasks_ok (procs f) (connections f) (tasks f) \<and> boxes_ok (procs f) (inboxes f)"

lemmas inv_defs = fwd_inv_def conns_ok_def clients_ok_def tasks_ok_def boxes_ok_def conn_good_def

lemma fwd_inv_new: "fwd_inv (forwarder_new now)"
  by (simp add: inv_defs forwarder_new_def)

lemma fwd_inv_upd [simp]:
  "fwd_inv (f\<lparr>idle_from := now\<rparr>) = fwd_inv f" "fwd_inv (f\<lparr>status := st\<rparr>) = fwd_inv f"
  "fwd_inv (f\<lparr>voice_bus := b\<rparr>) = fwd_inv f"
  by (simp_all add: fwd_inv_def)

text \<open>One task steps and connections may learn addresses.\<close>

lemma fwd_inv_evolve:
  assumes inv: "fwd_inv f" and st: "stepped tid t (procs f) ps'" and ok: "bt_ok cs'"
    and same: "\<And>s. map_option conn_task_id (map_of cs' s) =
      map_option conn_task_id (map_of (connections f) s)"
    and good: "\<And>s conn. map_of cs' s = Some conn \<Longrightarrow> conn_good ps' s conn"
  shows "fwd_inv (f\<lparr>connections := cs', procs := ps'\<rparr>)"
proof -
  note sf = stepped_facts [OF st]
  have keeps: "\<exists>conn'. map_of cs' s = Some conn' \<and> conn_task_id conn' = conn_task_id conn"
    if "map_of (connections f) s = Some conn" for s conn
    using same [of s] that by (cases "map_of cs' s") auto
  have "clients_ok ps' cs' (client_id_to_src_id f)"
    unfolding clients_ok_def
  proof (intro allI impI)
    fix c s assume "map_of (client_id_to_src_id f) c = Some s"
    then obtain conn where conn: "map_of (connections f) s = Some conn"
        "vc_client_id (procs f ! conn_task_id conn) = c"
      using inv by (auto simp: fwd_inv_def clients_ok_def)
    have "conn_task_id conn < length (procs f)"
      using inv conn(1) by (auto simp: fwd_inv_def conns_ok_def conn_good_def)
    then show "\<exists>conn. map_of cs' s = Some conn \<and> vc_client_id (ps' ! conn_task_id conn) = c"
      using conn sf(4) keeps by force
  qed
  moreover have "tasks_ok ps' cs' (tasks f)"
  proof -
    have ts: "tasks_ok (procs f) (connections f) (tasks f)" using inv by (simp add: fwd_inv_def)
    then have src: "vc_source_id (ps' ! k) = vc_source_id (procs f ! k)" if "k \<in> set (tasks f)" for k
      using that sf(3) by (auto simp: tasks_ok_def)
    have "\<exists>conn. map_of cs' (vc_source_id (ps' ! k)) = Some conn \<and> conn_task_id conn = k"
      if k: "k \<in> set (tasks f)" for k
    proof -
      obtain conn where "map_of (connections f) (vc_source_id (procs f ! k)) = Some conn"
          "conn_task_id conn = k"
        using ts k by (auto simp: tasks_ok_def)
      then show ?thesis using keeps src [OF k] by fastforce
    qed
    moreover have "distinct (tasks f)" "set (tasks f) \<subseteq> {..<length ps'}"
      using ts sf(1) by (auto simp: tasks_ok_def)
    moreover have "vc_phase (ps' ! k) = Finished" if "k < length ps'" "k \<notin> set (tasks f)" for k
      using ts that sf(1) unfolding tasks_ok_def by (intro sf(6)) auto
    ultimately show ?thesis unfolding tasks_ok_def by blast
  qed
  moreover have "boxes_ok ps' (inboxes f)"
    using inv sf(1,5) unfolding fwd_inv_def boxes_ok_def by auto
  ultimately show ?thesis
    using inv sf(2) ok good by (simp add: fwd_inv_def conns_ok_def)
qed

text \<open>A step of one task keeps the invariant unless it peers a task without an address.\<close>

lemma fwd_inv_stepped:
  assumes inv: "fwd_inv f" and tid: "tid < length (procs f)"
    and st: "stepped tid t (procs f) ps'"
    and peer: "lifecycle t = Peered \<Longrightarrow> lifecycle (procs f ! tid) = Peered"
  shows "fwd_inv (f\<lparr>procs := ps'\<rparr>)"
proof -
  note sf = stepped_facts [OF st]
  have "conn_good ps' s conn" if "map_of (connections f) s = Some conn" for s conn
  proof -
    have good: "conn_good (procs f) s conn" using inv that by (auto simp: fwd_inv_def conns_ok_def)
    show ?thesis
      using good peer sf(1,3,5,7,8) tid unfolding conn_good_def
      by (cases "conn_task_id conn = tid") auto
  qed
  then have "fwd_inv (f\<lparr>connections := connections f, procs := ps'\<rparr>)"
    using inv by (intro fwd_inv_evolve [OF inv st]) (simp_all add: fwd_inv_def)
  then show ?thesis by simp
qed

text \<open>Binding an address and peering the task in one go.\<close>

lemma fwd_inv_bind:
  assumes inv: "fwd_inv f" and conn: "map_of (connections f) s = Some conn"
    and st: "stepped (conn_task_id conn) t (procs f) ps'" and life: "lifecycle t \<noteq> Waiting"
  shows "fwd_inv (f\<lparr>connections := bt_insert s (conn\<lparr>conn_addr := Some a\<rparr>) (connections f),
    procs := ps'\<rparr>)"
proof (rule fwd_inv_evolve [OF inv st])
  note sf = stepped_facts [OF st]
  have good: "conn_good (procs f) s conn" using inv conn by (auto simp: fwd_inv_def conns_ok_def)
  show "bt_ok (bt_insert s (conn\<lparr>conn_addr := Some a\<rparr>) (connections f))"
    using inv by (simp add: fwd_inv_def bt_ok_insert)
  show "map_option conn_task_id (map_of (bt_insert s (conn\<lparr>conn_addr := Some a\<rparr>) (connections f)) s') =
      map_option conn_task_id (map_of (connections f) s')" for s'
    using conn by simp
  fix s' conn'
  assume s': "map_of (bt_insert s (conn\<lparr>conn_addr := Some a\<rparr>) (connections f)) s' = Some conn'"
  show "conn_good ps' s' conn'"
  proof (cases "s' = s")
    case True
    then show ?thesis using s' good sf(1,3,8) life by (auto simp: conn_good_def)
  next
    case False
    then have good': "conn_good (procs f) s' conn'"
      using s' inv by (auto simp: fwd_inv_def conns_ok_def)
    then have "conn_task_id conn' \<noteq> conn_task_id conn"
      using good False by (auto simp: conn_good_def)
    then show ?thesis using good' sf(1,3,7) by (auto simp: conn_good_def)
  qed
qed

lemma fwd_inv_conn:
  "fwd_inv f \<Longrightarrow> map_of (connections f) s = Some conn \<Longrightarrow>
     conn_task_id conn < length (procs f) \<and> vc_source_id (procs f ! conn_task_id conn) = s"
  by (auto simp: fwd_inv_def conns_ok_def conn_good_def)

lemma fwd_inv_client:
  assumes "fwd_inv f" and "map_of (client_id_to_src_id f) c = Some s"
  obtains conn where "map_of (connections f) s = Some conn"
    and "conn_task_id conn < length (procs f)" and "vc_source_id (procs f ! conn_task_id conn) = s"
    and "vc_client_id (procs f ! conn_task_id conn) = c"
  using assms fwd_inv_conn [OF assms(1)] by (force simp: fwd_inv_def clients_ok_def)

section \<open>What a request does\<close>

lemma ask_eq:
  "ask io now tid req f =
     (f\<lparr>procs := (procs f)[tid := fst (conn_step io now (voice_bus f) (procs f ! tid) (ECtl (Some req)))]\<rparr>,
      snd (conn_step io now (voice_bus f) (procs f ! tid) (ECtl (Some req))))"
  by (simp add: ask_def split: prod.splits)

lemma status_step:
  "conn_step io now bus t (ECtl (Some CtlStatus)) =
     (t, if vc_phase t = Finished then [] else [OStatus (lifecycle t)])"
  by (cases "vc_phase t") (auto simp: conn_defs lifecycle_def)

lemma stop_step:
  "fst (conn_step io now bus t (ECtl (Some CtlStop))) = finish t"
  by (cases "vc_phase t") (auto simp: conn_defs)

lemma init_step:
  "lifecycle (fst (conn_step io now bus t (ECtl (Some (CtlInit a))))) =
     (if vc_phase t = Finished then Stopped else Peered)"
  "snd (conn_step io now bus t (ECtl (Some (CtlInit a)))) =
     (if vc_phase t = Finished then [] else [OInit (vc_crypt_key t) (vc_source_id t)])"
  by (cases "vc_phase t"; simp add: conn_defs lifecycle_def)+

lemma ctl_status_eq [simp]:
  "ctl_status io now tid f =
     (f, if vc_phase (procs f ! tid) = Finished then None else Some (lifecycle (procs f ! tid)))"
  by (simp add: ctl_status_def ask_eq status_step)

lemma ctl_stop_eq: "ctl_stop io now tid f = f\<lparr>procs := (procs f)[tid := finish (procs f ! tid)]\<rparr>"
  by (simp add: ctl_stop_def ask_eq stop_step)

lemma peers_loop_state [simp]: "fst (peers_loop io now cs f) = f"
proof (induction cs arbitrary: f)
  case (Cons e cs)
  then show ?case by (cases e) (simp add: Let_def case_prod_beta)
qed simp

section \<open>Every operation keeps the invariant\<close>

lemma fwd_inv_open:
  assumes inv: "fwd_inv f" and fresh: "src \<notin> vc_source_id ` set (procs f)"
  shows "fwd_inv (fst (open_connection now src key c name f))"
proof -
  let ?t = "voice_connection_start c src key now"
  let ?conn = "\<lparr>conn_task_id = length (procs f), user_name = name, conn_addr = None\<rparr>"
  let ?ps = "procs f @ [?t]" and ?cs = "bt_insert src ?conn (connections f)"
  have nth: "k < length (procs f) \<Longrightarrow> ?ps ! k = procs f ! k" for k by (simp add: nth_append)
  have src: "k < length (procs f) \<Longrightarrow> vc_source_id (procs f ! k) \<noteq> src" for k
    using fresh by auto
  have new: "vc_source_id ?t = src" "vc_client_id ?t = c" "lifecycle ?t = Waiting"
    by (simp_all add: voice_connection_start_def lifecycle_def)
  have "conns_ok ?ps ?cs"
    unfolding conns_ok_def
  proof (intro allI impI)
    fix s conn assume s: "map_of ?cs s = Some conn"
    show "conn_good ?ps s conn"
    proof (cases "s = src")
      case True
      then show ?thesis using s new by (auto simp: conn_good_def)
    next
      case False
      then have "conn_good (procs f) s conn" using s inv by (auto simp: fwd_inv_def conns_ok_def)
      then show ?thesis using nth by (auto simp: conn_good_def)
    qed
  qed
  moreover have "clients_ok ?ps ?cs (bt_insert c src (client_id_to_src_id f))"
    unfolding clients_ok_def
  proof (intro allI impI)
    fix c' s assume s: "map_of (bt_insert c src (client_id_to_src_id f)) c' = Some s"
    show "\<exists>conn. map_of ?cs s = Some conn \<and> vc_client_id (?ps ! conn_task_id conn) = c'"
    proof (cases "c' = c")
      case True
      then show ?thesis using s new by simp
    next
      case False
      then have "map_of (client_id_to_src_id f) c' = Some s" using s by simp
      then obtain conn where conn: "map_of (connections f) s = Some conn"
          "conn_task_id conn < length (procs f)" "vc_source_id (procs f ! conn_task_id conn) = s"
          "vc_client_id (procs f ! conn_task_id conn) = c'"
        by (rule fwd_inv_client [OF inv])
      then show ?thesis using src nth by auto
    qed
  qed
  moreover have "tasks_ok ?ps ?cs (tasks f @ [length (procs f)])"
  proof -
    have ts: "tasks_ok (procs f) (connections f) (tasks f)" using inv by (simp add: fwd_inv_def)
    have "\<exists>conn. map_of ?cs (vc_source_id (?ps ! k)) = Some conn \<and> conn_task_id conn = k"
      if k: "k \<in> set (tasks f)" for k
      using ts k src nth by (auto simp: tasks_ok_def)
    moreover have "vc_phase (?ps ! k) = Finished"
      if "k < length ?ps" "k \<notin> set (tasks f @ [length (procs f)])" for k
      using ts that nth unfolding tasks_ok_def by auto
    moreover have "distinct (tasks f @ [length (procs f)])"
        "set (tasks f @ [length (procs f)]) \<subseteq> {..<length ?ps}"
      using ts by (auto simp: tasks_ok_def)
    ultimately show ?thesis using new unfolding tasks_ok_def by auto
  qed
  moreover have "boxes_ok ?ps (inboxes f @ [[]])"
    using inv unfolding fwd_inv_def boxes_ok_def by (auto simp: nth_append less_Suc_eq)
  ultimately show ?thesis
    using inv new fresh by (simp add: fwd_inv_def open_connection_def Let_def bt_ok_insert)
qed

lemma fwd_inv_establish:
  assumes inv: "fwd_inv f" and est: "establish io now c a f = Done (f', r)"
  shows "fwd_inv f'"
proof (cases "map_of (client_id_to_src_id f) c")
  case None
  then show ?thesis using inv est by (simp add: establish_def)
next
  case (Some s)
  then obtain conn where conn: "map_of (connections f) s = Some conn"
    using fwd_inv_client [OF inv] by blast
  let ?t = "fst (conn_step io now (voice_bus f) (procs f ! conn_task_id conn) (ECtl (Some (CtlInit a))))"
  have "lifecycle ?t \<noteq> Waiting" by (simp add: init_step)
  then show ?thesis
    using fwd_inv_bind [OF inv conn stepped_step, of io now "voice_bus f" "ECtl (Some (CtlInit a))" a]
      est Some conn
    by (simp add: establish_def ctl_init_def ask_eq Let_def)
qed

lemma fwd_inv_leave:
  assumes inv: "fwd_inv f"
  shows "fwd_inv (fst (leave io now c f))"
proof (cases "Option.bind (map_of (client_id_to_src_id f) c) (map_of (connections f))")
  case (Some conn)
  then obtain s where s: "map_of (connections f) s = Some conn" by (auto simp: bind_eq_Some_conv)
  have "stepped (conn_task_id conn) (finish (procs f ! conn_task_id conn)) (procs f)
      ((procs f)[conn_task_id conn := finish (procs f ! conn_task_id conn)])"
    using stepped_step [of "conn_task_id conn" _ _ _ "procs f" "ECtl (Some CtlStop)"] stop_step
    by metis
  then show ?thesis
    using fwd_inv_stepped [OF inv, of "conn_task_id conn"] fwd_inv_conn [OF inv s] Some
    by (force simp: leave_def ctl_stop_eq lifecycle_def)
qed (use inv in \<open>simp add: leave_def\<close>)

lemma fwd_inv_status: "fwd_inv f \<Longrightarrow> status_of io now c f = Done (f', r) \<Longrightarrow> f' = f"
  by (auto simp: status_of_def split: option.splits if_splits)

lemma fwd_inv_peers: "fst (peers io now f) = f"
  by (simp add: peers_def case_prod_beta)

lemma fwd_inv_control:
  assumes "fwd_inv f" and "control_msg io now src key ctl f = Done (f', r)"
    and "src \<notin> vc_source_id ` set (procs f)"
  shows "fwd_inv f'"
proof (cases ctl)
  case (OpenConnection c name)
  then show ?thesis using assms fwd_inv_open [OF assms(1,3), of now key c name] by simp
next
  case (Establish c a)
  then show ?thesis using assms fwd_inv_establish by simp
next
  case (Leave c)
  then show ?thesis using assms fwd_inv_leave [OF assms(1), of io now c] by simp
next
  case Peers
  then show ?thesis using assms fwd_inv_peers [of io now f] by simp
next
  case (Status c)
  then show ?thesis using assms fwd_inv_status [OF assms(1)] by force
qed

lemma forward_Inr:
  assumes "forward addr src msg f = Inr f'"
  obtains conn a where "map_of (connections f) src = Some conn" and "conn_addr conn = Some a"
    and "same_addr a addr" and "vc_phase (procs f ! conn_task_id conn) \<noteq> Finished"
    and "f' = f\<lparr>inboxes := (inboxes f)[conn_task_id conn :=
      inboxes f ! conn_task_id conn @ [msg]]\<rparr>"
  using assms by (auto simp: forward_def conn_forward_def split: option.splits if_splits)

lemma fwd_inv_forward:
  assumes inv: "fwd_inv f" and fw: "forward addr src msg f = Inr f'" and room: "queue_room src f"
  shows "fwd_inv f'"
proof -
  obtain conn a where conn: "map_of (connections f) src = Some conn" "conn_addr conn = Some a"
    and f': "f' = f\<lparr>inboxes := (inboxes f)[conn_task_id conn :=
      inboxes f ! conn_task_id conn @ [msg]]\<rparr>"
    by (rule forward_Inr [OF fw])
  let ?tid = "conn_task_id conn"
  have "lifecycle (procs f ! ?tid) \<noteq> Waiting" "length (inboxes f ! ?tid) < MSG_QUEUE"
    using inv conn room by (auto simp: fwd_inv_def conns_ok_def conn_good_def queue_room_def)
  then have "boxes_ok (procs f) ((inboxes f)[?tid := inboxes f ! ?tid @ [msg]])"
    using inv unfolding fwd_inv_def boxes_ok_def
    by (metis Suc_leI length_append_singleton length_list_update nth_list_update_eq
        nth_list_update_neq)
  then show ?thesis using inv f' by (simp add: fwd_inv_def)
qed

lemma fwd_inv_forwarded:
  "fwd_inv f \<Longrightarrow> queue_room src f \<Longrightarrow> fwd_inv (forwarded f (forward addr src msg f))"
  using fwd_inv_forward by (cases "forward addr src msg f") (auto simp: forwarded_def)

lemma fwd_inv_socket_msg:
  "fwd_inv f \<Longrightarrow> socket_msg io addr msg f = Done (f', outs) \<Longrightarrow>
     has_room (EvDatagram addr msg) f \<Longrightarrow> fwd_inv f'"
  by (auto simp: socket_msg_def fwd_inv_forwarded split: option.splits client_payload.splits)

lemma fwd_inv_sources:
  "fwd_inv f \<Longrightarrow> i < length (procs f) \<Longrightarrow> j < length (procs f) \<Longrightarrow>
     vc_source_id (procs f ! i) = vc_source_id (procs f ! j) \<Longrightarrow> i = j"
  unfolding fwd_inv_def using nth_eq_iff_index_eq [of "map vc_source_id (procs f)" i j] by simp

lemma task_end_None:
  "map_of (client_id_to_src_id f) (vc_client_id (procs f ! tid)) = None \<Longrightarrow>
     task_end tid f = f\<lparr>tasks := remove1 tid (tasks f)\<rparr>"
  by (simp add: task_end_def)

lemma task_end_Some:
  "map_of (client_id_to_src_id f) (vc_client_id (procs f ! tid)) = Some s \<Longrightarrow>
     task_end tid f = f\<lparr>tasks := remove1 tid (tasks f),
       client_id_to_src_id := (if s = vc_source_id (procs f ! tid)
         then bt_remove (vc_client_id (procs f ! tid)) (client_id_to_src_id f)
         else client_id_to_src_id f),
       connections := bt_remove (vc_source_id (procs f ! tid)) (connections f)\<rparr>"
  by (simp add: task_end_def)

lemma fwd_inv_task_end:
  assumes inv: "fwd_inv f" and tid: "tid \<in> set (tasks f)"
    and fin: "vc_phase (procs f ! tid) = Finished"
  shows "fwd_inv (task_end tid f)"
proof -
  let ?src = "vc_source_id (procs f ! tid)" and ?c = "vc_client_id (procs f ! tid)"
  let ?ts = "remove1 tid (tasks f)" and ?cs = "bt_remove ?src (connections f)"
  have ts: "tasks_ok (procs f) (connections f) (tasks f)" using inv by (simp add: fwd_inv_def)
  then have set: "set ?ts = set (tasks f) - {tid}" "distinct ?ts"
    by (auto simp: tasks_ok_def set_remove1_eq)
  have fins: "vc_phase (procs f ! k) = Finished" if "k < length (procs f)" "k \<notin> set ?ts" for k
    using ts that fin set unfolding tasks_ok_def by blast
  have range: "set ?ts \<subseteq> {..<length (procs f)}" "tid < length (procs f)"
    using ts tid set unfolding tasks_ok_def by auto
  obtain own where own: "map_of (connections f) ?src = Some own" "conn_task_id own = tid"
    using ts tid unfolding tasks_ok_def by blast
  show ?thesis
  proof (cases "map_of (client_id_to_src_id f) ?c")
    case None
    have "tasks_ok (procs f) (connections f) ?ts"
      using ts set fins range unfolding tasks_ok_def by blast
    then show ?thesis using inv by (simp add: task_end_None [OF None] fwd_inv_def)
  next
    case (Some s)
    let ?c2s = "if s = ?src then bt_remove ?c (client_id_to_src_id f) else client_id_to_src_id f"
    have clients: "s' \<noteq> ?src \<and> map_of (client_id_to_src_id f) c' = Some s'"
      if c': "map_of ?c2s c' = Some s'" for c' s'
    proof -
      have old: "map_of (client_id_to_src_id f) c' = Some s'"
        using c' by (auto split: if_splits)
      moreover have "s' \<noteq> ?src"
      proof
        assume "s' = ?src"
        then have "c' = ?c" using old own inv by (fastforce simp: fwd_inv_def clients_ok_def)
        then show False using c' Some old \<open>s' = ?src\<close> by auto
      qed
      ultimately show ?thesis by simp
    qed
    have "clients_ok (procs f) ?cs ?c2s"
      unfolding clients_ok_def
    proof (intro allI impI)
      fix c' s' assume "map_of ?c2s c' = Some s'"
      note cl = clients [OF this]
      then obtain conn where "map_of (connections f) s' = Some conn"
          "vc_client_id (procs f ! conn_task_id conn) = c'"
        using fwd_inv_client [OF inv] by blast
      then show "\<exists>conn. map_of ?cs s' = Some conn \<and> vc_client_id (procs f ! conn_task_id conn) = c'"
        using cl by simp
    qed
    moreover have "tasks_ok (procs f) ?cs ?ts"
    proof -
      have "\<exists>conn. map_of ?cs (vc_source_id (procs f ! k)) = Some conn \<and> conn_task_id conn = k"
        if k: "k \<in> set ?ts" for k
      proof -
        have "vc_source_id (procs f ! k) \<noteq> ?src"
          using fwd_inv_sources [OF inv, of k tid] k set range by auto
        then show ?thesis using ts k set unfolding tasks_ok_def by simp
      qed
      then show ?thesis using set fins range unfolding tasks_ok_def by blast
    qed
    moreover have "conns_ok (procs f) ?cs"
      using inv by (simp add: fwd_inv_def conns_ok_def)
    ultimately show ?thesis
      using inv by (simp add: task_end_Some [OF Some] fwd_inv_def bt_ok_remove)
  qed
qed

lemma not_peered_yet:
  assumes "vc_phase t = AwaitingAddr d" and "\<nexists>a. ev = ECtl (Some (CtlInit a))"
  shows "lifecycle (fst (conn_step io now bus t ev)) \<noteq> Peered"
  by (rule waiting_step_shape [OF assms(1), of ev io now bus])
    (use assms in \<open>auto simp: lifecycle_def\<close>)

lemma task_sees_no_init: "task_sees f tid ev = Some cev \<Longrightarrow> cev \<noteq> ECtl (Some (CtlInit a))"
  by (auto simp: task_sees_def split: task_event.splits list.splits if_splits)

lemma fwd_inv_task_step:
  assumes inv: "fwd_inv f" and tid: "tid < length (procs f)"
  shows "fwd_inv (fst (task_step io now tid ev f))"
proof (cases "task_sees f tid ev")
  case (Some cev)
  let ?t = "fst (conn_step io now (voice_bus f) (procs f ! tid) cev)"
  let ?f = "f\<lparr>procs := (procs f)[tid := ?t]\<rparr>"
  let ?box = "if ev = TMsg \<and> lifecycle (procs f ! tid) = Peered then tl (inboxes f ! tid)
    else inboxes f ! tid"
  have "lifecycle (procs f ! tid) = Peered" if "lifecycle ?t = Peered"
    using not_peered_yet [of "procs f ! tid"] task_sees_no_init [OF Some] that
    by (cases "vc_phase (procs f ! tid)") (auto simp: lifecycle_def)
  then have inv': "fwd_inv ?f"
    by (rule fwd_inv_stepped [OF inv tid stepped_step])
  have box: "length ?box \<le> length (inboxes f ! tid)" "?box \<noteq> [] \<Longrightarrow> inboxes f ! tid \<noteq> []"
    by auto
  have "boxes_ok (procs ?f) ((inboxes f)[tid := ?box])"
  proof -
    have b: "boxes_ok (procs ?f) (inboxes f)" using inv' by (simp add: fwd_inv_def)
    have "length ((inboxes f)[tid := ?box] ! k) \<le> MSG_QUEUE \<and>
        ((inboxes f)[tid := ?box] ! k \<noteq> [] \<longrightarrow> lifecycle (procs ?f ! k) \<noteq> Waiting)"
      if k: "k < length (procs ?f)" for k
    proof (cases "k = tid")
      case True
      then show ?thesis
        using b box inv' k unfolding boxes_ok_def
        by (intro conjI impI; force intro: le_trans [OF box(1)])
    next
      case False
      moreover have "length (inboxes f ! k) \<le> MSG_QUEUE \<and>
          (inboxes f ! k \<noteq> [] \<longrightarrow> lifecycle (procs ?f ! k) \<noteq> Waiting)"
        using b k unfolding boxes_ok_def by blast
      ultimately show ?thesis by simp
    qed
    then show ?thesis using b unfolding boxes_ok_def by simp
  qed
  then have "fwd_inv (?f\<lparr>inboxes := (inboxes f)[tid := ?box],
      voice_bus := voice_bus f @ bcasts (snd (conn_step io now (voice_bus f) (procs f ! tid) cev))\<rparr>)"
    using inv' by (simp add: fwd_inv_def)
  then show ?thesis
    using Some by (simp add: task_step_def case_prod_beta)
qed (use inv in \<open>simp add: task_step_def\<close>)

lemma fwd_inv_step:
  assumes "fwd_inv f" and "fresh_source ev f" and "has_room ev f"
  shows "fwd_inv (fst (fwd_step io now ev f))"
proof (cases ev)
  case (EvDatagram addr msg)
  then show ?thesis
    using assms fwd_inv_socket_msg [OF assms(1)]
    by (cases "socket_msg io addr msg f") (auto simp: fwd_step_def)
next
  case (EvControl src key ctl)
  then show ?thesis
    using assms fwd_inv_control [OF assms(1)]
    by (cases "control_msg io now src key ctl f") (auto simp: fwd_step_def)
next
  case (EvTaskEnd tid)
  then show ?thesis using assms fwd_inv_task_end by (simp add: fwd_step_def)
next
  case (EvTask tid tev)
  then show ?thesis using assms fwd_inv_task_step by (simp add: fwd_step_def)
qed (use assms in \<open>simp_all add: fwd_step_def\<close>)

lemma fwd_reach_inv: "fwd_reach io f \<Longrightarrow> fwd_inv f"
  by (induction rule: fwd_reach.induct) (auto simp: fwd_inv_new fwd_inv_step)

section \<open>The abstract channel\<close>

text \<open>
  What a channel is to its users: which clients it knows and how far the connection of each has
  got.
\<close>

type_synonym roster = "uuid \<Rightarrow> connection_state option"

definition roster_of :: "forwarder \<Rightarrow> roster" where
  "roster_of f c = Option.bind (map_of (client_id_to_src_id f) c)
     (\<lambda>s. map_option (\<lambda>conn. lifecycle (procs f ! conn_task_id conn)) (map_of (connections f) s))"

fun spec_ctl :: "channel_ctl \<Rightarrow> roster \<Rightarrow> roster" where
  "spec_ctl (OpenConnection c name) m = m(c \<mapsto> Waiting)"
| "spec_ctl (Establish c a) m = (if m c = Some Waiting then m(c \<mapsto> Peered) else m)"
| "spec_ctl (Leave c) m = (if m c = None then m else m(c \<mapsto> Stopped))"
| "spec_ctl Peers m = m"
| "spec_ctl (Status c) m = m"

fun spec_reply :: "channel_ctl \<Rightarrow> roster \<Rightarrow> ctl_reply \<Rightarrow> bool" where
  "spec_reply (OpenConnection c name) m r = (case r of ROpen s \<Rightarrow> True | _ \<Rightarrow> False)"
| "spec_reply (Establish c a) m r =
     (case m c of
        None \<Rightarrow> r = REstablish (Inl PeerNotFound)
      | Some Stopped \<Rightarrow> r = RDropped
      | Some _ \<Rightarrow> (case r of REstablish (Inr k) \<Rightarrow> True | _ \<Rightarrow> False))"
| "spec_reply (Leave c) m r = (r = RLeft)"
| "spec_reply Peers m r = (case r of RPeers ps \<Rightarrow> True | _ \<Rightarrow> False)"
| "spec_reply (Status c) m r =
     (r = RStatus (case m c of None \<Rightarrow> Inl PeerNotFound | Some st \<Rightarrow> Inr st))"

lemma roster_client:
  assumes inv: "fwd_inv f"
  shows "roster_of f c = None \<longleftrightarrow> map_of (client_id_to_src_id f) c = None"
  using inv unfolding roster_of_def fwd_inv_def clients_ok_def
  by (cases "map_of (client_id_to_src_id f) c") auto

lemma roster_Some:
  "map_of (client_id_to_src_id f) c = Some s \<Longrightarrow> map_of (connections f) s = Some conn \<Longrightarrow>
     roster_of f c = Some (lifecycle (procs f ! conn_task_id conn))"
  by (simp add: roster_of_def)

lemma roster_eqI:
  assumes "\<And>c'. c' \<noteq> c \<Longrightarrow> roster_of f' c' = m c'" and "roster_of f' c = v"
  shows "roster_of f' = m(c := v)"
  using assms by (auto simp: fun_eq_iff)

text \<open>Two clients never share a connection.\<close>

lemma clients_apart:
  assumes inv: "fwd_inv f" and "c' \<noteq> c"
    and "map_of (client_id_to_src_id f) c = Some s" and "map_of (client_id_to_src_id f) c' = Some s'"
    and "map_of (connections f) s = Some conn" and "map_of (connections f) s' = Some conn'"
  shows "s' \<noteq> s \<and> conn_task_id conn' \<noteq> conn_task_id conn"
  using assms fwd_inv_client [OF inv assms(3)] fwd_inv_client [OF inv assms(4)]
  by (metis option.inject)

text \<open>A step of the task of one client's connection changes that client's entry only.\<close>

lemma roster_stepped:
  assumes inv: "fwd_inv f" and c: "map_of (client_id_to_src_id f) c = Some s"
    and conn: "map_of (connections f) s = Some conn"
    and cs: "\<And>s'. map_option conn_task_id (map_of cs' s') =
      map_option conn_task_id (map_of (connections f) s')"
  shows "roster_of (f\<lparr>connections := cs', procs := (procs f)[conn_task_id conn := t]\<rparr>) =
      (roster_of f)(c \<mapsto> lifecycle t)"
proof (rule roster_eqI)
  let ?f = "f\<lparr>connections := cs', procs := (procs f)[conn_task_id conn := t]\<rparr>"
  have keep: "\<exists>conn'. map_of cs' s' = Some conn' \<and> conn_task_id conn' = conn_task_id k"
    if "map_of (connections f) s' = Some k" for s' k
    using cs [of s'] that by (cases "map_of cs' s'") auto
  show "roster_of ?f c = Some (lifecycle t)"
    using keep [OF conn] c fwd_inv_conn [OF inv conn] by (auto simp: roster_of_def)
  fix c' assume ne: "c' \<noteq> c"
  show "roster_of ?f c' = roster_of f c'"
  proof (cases "map_of (client_id_to_src_id f) c'")
    case (Some s')
    then obtain k where k: "map_of (connections f) s' = Some k"
      using fwd_inv_client [OF inv] by blast
    show ?thesis
      using keep [OF k] clients_apart [OF inv ne c Some conn k] k Some
      by (auto simp: roster_of_def)
  qed (simp add: roster_of_def)
qed

lemma stepped_at_Waiting:
  "lifecycle t = Waiting \<longleftrightarrow> (\<exists>d. vc_phase t = AwaitingAddr d)"
  by (simp add: lifecycle_def split: phase.splits)

lemma establish_refines:
  assumes inv: "fwd_inv f"
  shows "\<exists>f' r. establish io now c a f = Done (f', r) \<and>
    roster_of f' = spec_ctl (Establish c a) (roster_of f) \<and>
    spec_reply (Establish c a) (roster_of f) r"
proof (cases "map_of (client_id_to_src_id f) c")
  case None
  then show ?thesis using roster_client [OF inv, of c] by (simp add: establish_def)
next
  case (Some s)
  then obtain conn where conn: "map_of (connections f) s = Some conn"
    using fwd_inv_client [OF inv] by blast
  let ?ev = "ECtl (Some (CtlInit a))"
  let ?t = "fst (conn_step io now (voice_bus f) (procs f ! conn_task_id conn) ?ev)"
  let ?cs = "bt_insert s (conn\<lparr>conn_addr := Some a\<rparr>) (connections f)"
  let ?f = "f\<lparr>connections := ?cs, procs := (procs f)[conn_task_id conn := ?t]\<rparr>"
  have "roster_of ?f = (roster_of f)(c \<mapsto> lifecycle ?t)"
    by (rule roster_stepped [OF inv Some conn]) (simp add: conn)
  then have "roster_of ?f = spec_ctl (Establish c a) (roster_of f)"
    using roster_Some [OF Some conn]
    by (cases "lifecycle (procs f ! conn_task_id conn)") (auto simp: init_step lifecycle_Peered
        fun_eq_iff stepped_at_Waiting)
  then show ?thesis
    using Some conn roster_Some [OF Some conn]
    by (cases "lifecycle (procs f ! conn_task_id conn)")
      (simp_all add: establish_def ctl_init_def ask_eq Let_def init_step stepped_at_Waiting
        lifecycle_Peered split: if_splits, auto)
qed

lemma open_refines:
  assumes inv: "fwd_inv f" and fresh: "src \<notin> vc_source_id ` set (procs f)"
  shows "roster_of (fst (open_connection now src key c name f)) = (roster_of f)(c \<mapsto> Waiting)"
proof (rule roster_eqI)
  let ?f = "fst (open_connection now src key c name f)"
  show "roster_of ?f c = Some Waiting"
    by (simp add: roster_of_def open_connection_def Let_def voice_connection_start_def lifecycle_def)
  fix c' assume ne: "c' \<noteq> c"
  show "roster_of ?f c' = roster_of f c'"
  proof (cases "map_of (client_id_to_src_id f) c'")
    case (Some s')
    then obtain k where k: "map_of (connections f) s' = Some k"
        "conn_task_id k < length (procs f)" "vc_source_id (procs f ! conn_task_id k) = s'"
      by (rule fwd_inv_client [OF inv])
    have "s' \<noteq> src" using k(2,3) fresh by force
    then show ?thesis
      using ne Some k by (simp add: roster_of_def open_connection_def Let_def nth_append)
  qed (use ne in \<open>simp add: roster_of_def open_connection_def Let_def\<close>)
qed

lemma leave_refines:
  assumes inv: "fwd_inv f"
  shows "roster_of (fst (leave io now c f)) = spec_ctl (Leave c) (roster_of f)"
proof (cases "map_of (client_id_to_src_id f) c")
  case None
  then show ?thesis using roster_client [OF inv, of c] by (simp add: leave_def)
next
  case (Some s)
  then obtain conn where conn: "map_of (connections f) s = Some conn"
    using fwd_inv_client [OF inv] by blast
  have "roster_of (f\<lparr>connections := connections f, procs := (procs f)[conn_task_id conn :=
      finish (procs f ! conn_task_id conn)]\<rparr>) = (roster_of f)(c \<mapsto> Stopped)"
    using roster_stepped [OF inv Some conn, of "connections f" "finish (procs f ! conn_task_id conn)"]
    by (simp add: lifecycle_def)
  then show ?thesis
    using Some conn roster_Some [OF Some conn] by (simp add: leave_def ctl_stop_eq)
qed

lemma status_refines:
  assumes inv: "fwd_inv f"
  shows "status_of io now c f = Done (f, RStatus (case roster_of f c of
      None \<Rightarrow> Inl PeerNotFound | Some st \<Rightarrow> Inr st))"
proof (cases "map_of (client_id_to_src_id f) c")
  case None
  then show ?thesis using roster_client [OF inv, of c] by (simp add: status_of_def)
next
  case (Some s)
  then obtain conn where conn: "map_of (connections f) s = Some conn"
    using fwd_inv_client [OF inv] by blast
  show ?thesis
    using Some conn roster_Some [OF Some conn]
    by (auto simp: status_of_def lifecycle_def)
qed

lemma control_refines:
  assumes inv: "fwd_inv f" and fresh: "src \<notin> vc_source_id ` set (procs f)"
  shows "\<exists>f' r. control_msg io now src key ctl f = Done (f', r) \<and>
    roster_of f' = spec_ctl ctl (roster_of f) \<and> spec_reply ctl (roster_of f) r"
proof (cases ctl)
  case (OpenConnection c name)
  then show ?thesis
    using open_refines [OF assms, of now key c name]
    by (cases "open_connection now src key c name f") (auto simp: open_connection_def Let_def)
next
  case (Establish c a)
  then show ?thesis using establish_refines [OF inv] by simp
next
  case (Leave c)
  have "snd (leave io now c f) = RLeft" by (simp add: leave_def split: option.splits)
  then show ?thesis
    using Leave leave_refines [OF inv, of io now c] by (cases "leave io now c f") auto
next
  case Peers
  then show ?thesis
    using fwd_inv_peers [of io now f] by (cases "peers io now f") (auto simp: peers_def case_prod_beta)
next
  case (Status c)
  then show ?thesis using status_refines [OF inv] by simp
qed

text \<open>A finished task that is reaped takes its client out, unless the client has reconnected.\<close>

lemma task_end_refines:
  assumes inv: "fwd_inv f" and tid: "tid \<in> set (tasks f)"
  shows "roster_of (task_end tid f) =
    (if map_of (client_id_to_src_id f) (vc_client_id (procs f ! tid)) =
          Some (vc_source_id (procs f ! tid))
     then (roster_of f)(vc_client_id (procs f ! tid) := None) else roster_of f)"
proof -
  let ?src = "vc_source_id (procs f ! tid)" and ?c = "vc_client_id (procs f ! tid)"
  have "tasks_ok (procs f) (connections f) (tasks f)" using inv by (simp add: fwd_inv_def)
  then obtain own where own: "map_of (connections f) ?src = Some own" "conn_task_id own = tid"
    using tid unfolding tasks_ok_def by blast
  have only: "c' = ?c" if "map_of (client_id_to_src_id f) c' = Some ?src" for c'
    using that own inv by (fastforce simp: fwd_inv_def clients_ok_def)
  show ?thesis
  proof (cases "map_of (client_id_to_src_id f) ?c")
    case None
    then show ?thesis by (simp add: task_end_None roster_of_def fun_eq_iff)
  next
    case (Some s)
    have other: "map_of (bt_remove ?src (connections f)) s' = map_of (connections f) s'"
      if "map_of (client_id_to_src_id f) c' = Some s'" "c' \<noteq> ?c \<or> s \<noteq> ?src" for c' s'
      using that only Some by (cases "s' = ?src") auto
    show ?thesis
    proof (rule ext)
      fix c'
      show "roster_of (task_end tid f) c' = (if map_of (client_id_to_src_id f) ?c = Some ?src
          then (roster_of f)(?c := None) else roster_of f) c'"
        using Some other [of c']
        by (cases "map_of (client_id_to_src_id f) c'") (auto simp: task_end_Some roster_of_def)
    qed
  qed
qed

section \<open>Runs\<close>

fun fwd_run :: "io \<Rightarrow> forwarder \<Rightarrow> (instant \<times> fwd_event) list \<Rightarrow> forwarder \<times> fwd_out list" where
  "fwd_run io f [] = (f, [])"
| "fwd_run io f ((now, ev) # es) =
     (let (f1, o1) = fwd_step io now ev f; (f2, o2) = fwd_run io f1 es in (f2, o1 @ o2))"

fun run_ok :: "io \<Rightarrow> forwarder \<Rightarrow> (instant \<times> fwd_event) list \<Rightarrow> bool" where
  "run_ok io f [] = True"
| "run_ok io f ((now, ev) # es) =
     (fresh_source ev f \<and> has_room ev f \<and> run_ok io (fst (fwd_step io now ev f)) es)"

lemma fwd_reach_run:
  "fwd_reach io f \<Longrightarrow> run_ok io f es \<Longrightarrow> fwd_reach io (fst (fwd_run io f es))"
proof (induction es arbitrary: f)
  case (Cons e es)
  obtain now ev where e: "e = (now, ev)" by fastforce
  have "fwd_reach io (fst (fwd_step io now ev f))"
    using Cons.prems e by (auto intro: fwd_reach.step)
  then show ?case using Cons.IH Cons.prems e by (simp add: case_prod_beta)
qed simp

lemma peers_loop_eq:
  "snd (peers_loop io now cs f) = map (\<lambda>(cid, conn).
     \<lparr>peer_id = cid, peer_source_id = vc_source_id (procs f ! conn_task_id conn),
      peer_name = user_name conn\<rparr>)
     (filter (\<lambda>(cid, conn). lifecycle (procs f ! conn_task_id conn) = Peered) cs)"
proof (induction cs)
  case (Cons e cs)
  then show ?case
    by (cases e) (auto simp: Let_def case_prod_beta lifecycle_def split: phase.splits)
qed simp

section \<open>Properties\<close>

text \<open>A worked history: client 1 opens connection 9, client 2 connection 5, both are peered.\<close>

definition demo_events :: "(instant \<times> fwd_event) list" where
  "demo_events =
     [(0, EvControl 9 [1] (OpenConnection 1 ''ann'')), (0, EvControl 5 [2] (OpenConnection 2 ''bob'')),
      (1, EvControl 0 [] (Establish 1 (SocketV4 100 4000))),
      (1, EvControl 0 [] (Establish 2 (SocketV4 200 5000)))]"

definition demo_fwd :: forwarder where
  "demo_fwd = fst (fwd_run demo_io (forwarder_new 0) demo_events)"

lemmas run_defs = fwd_step_def open_connection_def establish_def ctl_init_def ask_def
  forwarder_new_def voice_connection_start_def conn_defs peered_enter_def Let_def

lemma demo_fwd_eq:
  "demo_fwd =
     \<lparr>connections = [(5, \<lparr>conn_task_id = 1, user_name = ''bob'', conn_addr = Some (SocketV4 200 5000)\<rparr>),
        (9, \<lparr>conn_task_id = 0, user_name = ''ann'', conn_addr = Some (SocketV4 100 4000)\<rparr>)],
      client_id_to_src_id = [(1, 9), (2, 5)], tasks = [0, 1],
      procs =
       [\<lparr>vc_client_id = 1, vc_source_id = 9, vc_crypt_key = [1], vc_phase = Exchanging
           \<lparr>pv_addr = SocketV4 100 4000, pv_seq = 0, pv_sent = 0, pv_received = 0,
            pv_deadline = 15001, pv_cursor = 0\<rparr>\<rparr>,
        \<lparr>vc_client_id = 2, vc_source_id = 5, vc_crypt_key = [2], vc_phase = Exchanging
           \<lparr>pv_addr = SocketV4 200 5000, pv_seq = 0, pv_sent = 0, pv_received = 0,
            pv_deadline = 15001, pv_cursor = 0\<rparr>\<rparr>],
      inboxes = [[], []], voice_bus = [], idle_from = 1, status = Running\<rparr>"
  by (simp add: demo_fwd_def demo_events_def run_defs IDLE_TIMEOUT_def)

lemma demo_fwd_reach: "fwd_reach demo_io demo_fwd"
  unfolding demo_fwd_def
proof (rule fwd_reach_run [OF fwd_reach.init])
  show "run_ok demo_io (forwarder_new 0) demo_events"
    by (simp add: demo_events_def run_defs)
qed

text \<open>
  C12: Well-formedness. In every reachable state of a channel the two maps are ordered, each
  connection is filed under the source id of its own task, the entry of a client names a
  connection of that client, every task not yet reaped has its connection, an address is bound
  exactly from the moment a connection is peered, and no queue holds more than ten messages.
\<close>

theorem forwarder_well_formed:
  assumes "fwd_reach io f"
  shows "fwd_inv f"
  using assms by (rule fwd_reach_inv)

theorem forwarder_well_formed_witness: "fwd_inv demo_fwd"
  by (rule forwarder_well_formed [OF demo_fwd_reach])

text \<open>
  C1: Control requests. In every reachable state each control request is answered without a
  panic and does to the roster of clients what its specification says: opening a connection
  makes the client waiting, establishing a session makes a waiting client peered, leaving stops
  the client, status and peers change nothing; the answers are those of the roster, and no
  request touches another client.
\<close>

theorem control_requests_refine_roster:
  assumes "fwd_reach io f" and "src \<notin> vc_source_id ` set (procs f)"
  shows "\<exists>f' r. control_msg io now src key ctl f = Done (f', r) \<and>
    roster_of f' = spec_ctl ctl (roster_of f) \<and> spec_reply ctl (roster_of f) r"
  using control_refines [OF fwd_reach_inv [OF assms(1)] assms(2)] .

theorem control_requests_refine_roster_witness:
  "\<exists>f' r. control_msg demo_io 2 6 [3] (Leave 1) demo_fwd = Done (f', r) \<and>
    roster_of f' = spec_ctl (Leave 1) (roster_of demo_fwd) \<and>
    spec_reply (Leave 1) (roster_of demo_fwd) r"
  by (rule control_requests_refine_roster [OF demo_fwd_reach]) (simp add: demo_fwd_eq)

text \<open>
  Reaping. When the task of a connection has ended, the client leaves the roster, unless the
  client has meanwhile opened a newer connection, which stays as it is.
\<close>

theorem reaping_refines_roster:
  assumes "fwd_reach io f" and "tid \<in> set (tasks f)"
  shows "roster_of (task_end tid f) =
    (if map_of (client_id_to_src_id f) (vc_client_id (procs f ! tid)) =
          Some (vc_source_id (procs f ! tid))
     then (roster_of f)(vc_client_id (procs f ! tid) := None) else roster_of f)"
  using task_end_refines [OF fwd_reach_inv [OF assms(1)] assms(2)] .

theorem reaping_refines_roster_witness:
  "roster_of (task_end 1 demo_fwd) =
    (if map_of (client_id_to_src_id demo_fwd) (vc_client_id (procs demo_fwd ! 1)) =
          Some (vc_source_id (procs demo_fwd ! 1))
     then (roster_of demo_fwd)(vc_client_id (procs demo_fwd ! 1) := None) else roster_of demo_fwd)"
  by (rule reaping_refines_roster [OF demo_fwd_reach]) (simp add: demo_fwd_eq)

text \<open>
  C2: No session hijacking. A datagram is queued for a connection only when it comes from the
  address the connection was bound to, whatever source id it claims; it then reaches that
  connection only, as its last message, and changes no task.
\<close>

theorem datagrams_only_from_bound_address:
  assumes "fwd_reach io f" and "f' = fst (fwd_step io now (EvDatagram addr msg) f)"
    and "tid < length (procs f)" and "inboxes f' ! tid \<noteq> inboxes f ! tid"
  shows "procs f' = procs f \<and>
    (\<exists>conn a m. map_of (connections f) (vc_source_id (procs f ! tid)) = Some conn \<and>
       conn_task_id conn = tid \<and> conn_addr conn = Some a \<and> same_addr a addr \<and>
       lifecycle (procs f ! tid) = Peered \<and>
       inboxes f' = (inboxes f)[tid := inboxes f ! tid @ [m]])"
proof -
  note inv = fwd_reach_inv [OF assms(1)]
  obtain src m where fw: "f' = (forwarded f (forward addr src m f))\<lparr>idle_from := now\<rparr>"
    using assms(2,4)
    by (auto simp: fwd_step_def socket_msg_def split: option.splits client_payload.splits if_splits)
  then obtain f1 where f1: "forward addr src m f = Inr f1" "f' = f1\<lparr>idle_from := now\<rparr>"
    using assms(4) by (cases "forward addr src m f") (auto simp: forwarded_def)
  obtain conn a where conn: "map_of (connections f) src = Some conn" "conn_addr conn = Some a"
      "same_addr a addr" "vc_phase (procs f ! conn_task_id conn) \<noteq> Finished"
    and upd: "f1 = f\<lparr>inboxes := (inboxes f)[conn_task_id conn :=
        inboxes f ! conn_task_id conn @ [m]]\<rparr>"
    by (rule forward_Inr [OF f1(1)])
  have tid: "conn_task_id conn = tid"
    using assms(4) f1(2) upd by (cases "conn_task_id conn = tid") auto
  have good: "conn_good (procs f) src conn"
    using inv conn(1) by (auto simp: fwd_inv_def conns_ok_def)
  have "lifecycle (procs f ! tid) = Peered"
    using good conn(2,4) tid unfolding conn_good_def
    by (cases "lifecycle (procs f ! tid)") auto
  then show ?thesis
    using good conn tid upd f1(2) by (auto simp: conn_good_def)
qed

definition demo_ping :: client_message where
  "demo_ping = client_ping \<lparr>ping_seq = 1, ping_recv = 0, ping_sent = 0, ping_source_id = 9\<rparr>"

theorem datagrams_only_from_bound_address_witness:
  "\<exists>f' :: forwarder. procs f' = procs demo_fwd \<and>
    (\<exists>conn a m. map_of (connections demo_fwd) (vc_source_id (procs demo_fwd ! 0)) = Some conn \<and>
       conn_task_id conn = 0 \<and> conn_addr conn = Some a \<and>
       same_addr a (SocketV6 0xFFFF00000064 4000 0 0) \<and>
       lifecycle (procs demo_fwd ! 0) = Peered \<and>
       inboxes f' = (inboxes demo_fwd)[0 := inboxes demo_fwd ! 0 @ [m]])"
proof -
  have "same_addr (SocketV4 100 4000) (SocketV6 0xFFFF00000064 4000 0 0)"
    by (simp add: same_addr_def to_ipv6_mapped_def)
  then have diff: "inboxes (fst (fwd_step demo_io 2
      (EvDatagram (SocketV6 0xFFFF00000064 4000 0 0) demo_ping) demo_fwd)) ! 0 \<noteq>
      inboxes demo_fwd ! 0"
    by (simp add: demo_fwd_eq fwd_step_def socket_msg_def demo_ping_def client_ping_def
        client_message_new_def forward_def conn_forward_def forwarded_def)
  have len: "0 < length (procs demo_fwd)" by (simp add: demo_fwd_eq)
  show ?thesis
    by (rule exI) (rule datagrams_only_from_bound_address [OF demo_fwd_reach refl len diff])
qed

lemma forwarded_status: "status (forwarded f (forward addr src msg f)) = status f"
  by (cases "forward addr src msg f") (auto simp: forwarded_def elim: forward_Inr)

lemma status_kept:
  "control_msg io now src key ctl f = Done (f', r) \<Longrightarrow> status f' = status f"
  "socket_msg io addr msg f = Done (f', outs) \<Longrightarrow> status f' = status f"
  "status (task_end tid f) = status f"
  "status (fst (task_step io now tid tev f)) = status f"
  "FEndNotify \<notin> set (snd (task_step io now tid tev f))"
  "status (forwarded f (forward addr src m f)) = status f"
proof -
  show "control_msg io now src key ctl f = Done (f', r) \<Longrightarrow> status f' = status f"
    using fwd_inv_peers [of io now f]
    by (cases ctl) (auto simp: open_connection_def establish_def ctl_init_def ask_eq Let_def
        leave_def ctl_stop_eq status_of_def split: option.splits if_splits)
  show "socket_msg io addr msg f = Done (f', outs) \<Longrightarrow> status f' = status f"
    by (auto simp: socket_msg_def forwarded_status split: option.splits client_payload.splits)
  show "status (task_end tid f) = status f"
    by (simp add: task_end_def Let_def split: option.splits)
  show "status (fst (task_step io now tid tev f)) = status f"
    by (simp add: task_step_def case_prod_beta split: option.splits)
  show "FEndNotify \<notin> set (snd (task_step io now tid tev f))"
    by (auto simp: task_step_def case_prod_beta out_sends_def map_filter_def
        split: option.splits conn_out.splits)
qed (rule forwarded_status)

text \<open>
  C31: Panics. A running channel crashes on exactly one kind of input, a datagram that decodes to
  a client message without a payload; it then sends no end notification.
\<close>

theorem forwarder_crashes_only_without_payload:
  assumes "fwd_reach io f" and "status f = Running" and "fresh_source ev f"
  shows "(status (fst (fwd_step io now ev f)) = Crashed \<longleftrightarrow>
      (\<exists>addr msg. ev = EvDatagram addr msg \<and> cm_payload msg = None)) \<and>
    (FEndNotify \<in> set (snd (fwd_step io now ev f)) \<longleftrightarrow>
      status (fst (fwd_step io now ev f)) = Ended)"
proof (cases ev)
  case (EvDatagram addr msg)
  then show ?thesis
    using assms(2)
    by (cases "cm_payload msg")
      (auto simp: fwd_step_def socket_msg_def ip_disco_def Let_def status_kept
        split: client_payload.splits)
next
  case (EvControl src key ctl)
  then obtain f' r where "control_msg io now src key ctl f = Done (f', r)"
    using control_refines [OF fwd_reach_inv [OF assms(1)]] assms(3) by fastforce
  then show ?thesis
    using EvControl assms(2) status_kept(1) by (simp add: fwd_step_def)
qed (use assms(2) in \<open>auto simp: fwd_step_def status_kept\<close>)

theorem forwarder_crashes_only_without_payload_witness:
  "(status (fst (fwd_step demo_io 2 (EvDatagram demo_addr \<lparr>cm_payload = None\<rparr>) demo_fwd)) = Crashed
      \<longleftrightarrow> (\<exists>addr msg. EvDatagram demo_addr \<lparr>cm_payload = None\<rparr> = EvDatagram addr msg \<and>
             cm_payload msg = None)) \<and>
   (FEndNotify \<in> set (snd (fwd_step demo_io 2
        (EvDatagram demo_addr \<lparr>cm_payload = None\<rparr>) demo_fwd)) \<longleftrightarrow>
    status (fst (fwd_step demo_io 2 (EvDatagram demo_addr \<lparr>cm_payload = None\<rparr>) demo_fwd)) = Ended)"
  by (rule forwarder_crashes_only_without_payload [OF demo_fwd_reach]) (simp_all add: demo_fwd_eq)

text \<open>
  The events of the forwarder itself: what arrives at its socket or its control channel, and a
  finished task that is reaped. Its last event before a given moment, from a history alone.
\<close>

fun own_event :: "forwarder \<Rightarrow> fwd_event \<Rightarrow> bool" where
  "own_event f (EvDatagram addr msg) = True"
| "own_event f EvBadDatagram = True"
| "own_event f (EvControl src key ctl) = True"
| "own_event f (EvTaskEnd tid) = (tid \<in> set (tasks f) \<and> vc_phase (procs f ! tid) = Finished)"
| "own_event f _ = False"

fun last_event :: "io \<Rightarrow> forwarder \<Rightarrow> instant \<Rightarrow> (instant \<times> fwd_event) list \<Rightarrow> instant" where
  "last_event io f at [] = at"
| "last_event io f at ((now, ev) # es) =
     last_event io (fst (fwd_step io now ev f)) (if own_event f ev then now else at) es"

lemma step_idle_from:
  assumes "status (fst (fwd_step io now ev f)) = Running"
  shows "idle_from (fst (fwd_step io now ev f)) = (if own_event f ev then now else idle_from f)"
proof -
  have running: "status f = Running" using assms by (auto simp: fwd_step_def split: if_splits)
  have task: "idle_from (fst (task_step io now tid tev f)) = idle_from f" for tid tev
    by (simp add: task_step_def case_prod_beta split: option.splits)
  show ?thesis
    using assms running task
    by (cases ev) (auto simp: fwd_step_def split: outcome.splits if_splits)
qed

lemma run_idle_from:
  "status (fst (fwd_run io f es)) = Running \<Longrightarrow>
     idle_from (fst (fwd_run io f es)) = last_event io f (idle_from f) es"
proof (induction es arbitrary: f)
  case (Cons e es)
  obtain now ev where e: "e = (now, ev)" by fastforce
  let ?f = "fst (fwd_step io now ev f)"
  have later: "status (fst (fwd_run io ?f es)) = Running"
    using Cons.prems by (simp add: e case_prod_beta)
  have stuck: "fst (fwd_run io g ds) = g" if "status g \<noteq> Running" for g ds
    using that by (induction ds) (auto simp: fwd_step_def case_prod_beta)
  have "status ?f = Running" using later stuck [of ?f es] by metis
  then show ?case
    using Cons.IH [OF later] step_idle_from [of io now ev f] by (simp add: e case_prod_beta)
qed simp

text \<open>
  C28: Idle shutdown. As long as a \<open>Channel\<close> handle exists, a channel that is running after any
  history ends exactly when its idle timer fires, no connection task is left, and five seconds
  have passed since its last event: since the last datagram, undecodable datagram, control message
  or reaped task of the history, or since it was started when there was none. By then every
  connection it ever had has stopped.
\<close>

theorem channel_ends_only_when_idle:
  assumes "run_ok io (forwarder_new t0) es" and "f = fst (fwd_run io (forwarder_new t0) es)"
    and "status f = Running" and "ev \<noteq> EvControlClosed"
  shows "(status (fst (fwd_step io now ev f)) = Ended \<longleftrightarrow>
      ev = EvIdle \<and> tasks f = [] \<and> last_event io (forwarder_new t0) t0 es + 5000 \<le> now) \<and>
    (status (fst (fwd_step io now ev f)) = Ended \<longrightarrow> lifecycle ` set (procs f) \<subseteq> {Stopped})"
proof -
  have idle: "idle_from f = last_event io (forwarder_new t0) t0 es"
    using run_idle_from [of io "forwarder_new t0" es] assms(2,3) by (simp add: forwarder_new_def)
  have reach: "fwd_reach io f"
    using fwd_reach_run [OF fwd_reach.init assms(1)] assms(2) by simp
  have ends: "status (fst (fwd_step io now ev f)) = Ended \<longleftrightarrow>
      ev = EvIdle \<and> tasks f = [] \<and> idle_from f + 5000 \<le> now"
  proof (cases ev)
    case (EvDatagram addr msg)
    then show ?thesis
      using assms(3) status_kept(2)
      by (cases "socket_msg io addr msg f") (auto simp: fwd_step_def)
  next
    case (EvControl src key ctl)
    then show ?thesis
      using assms(3) status_kept(1)
      by (cases "control_msg io now src key ctl f") (auto simp: fwd_step_def)
  qed (use assms(3,4) in \<open>auto simp: fwd_step_def status_kept CHANNEL_IDLE_TIMEOUT_def\<close>)
  have "tasks_ok (procs f) (connections f) (tasks f)"
    using fwd_reach_inv [OF reach] by (simp add: fwd_inv_def)
  then have "tasks f = [] \<Longrightarrow> vc_phase t = Finished" if "t \<in> set (procs f)" for t
    using that by (auto simp: tasks_ok_def in_set_conv_nth)
  then show ?thesis using ends unfolding idle by auto
qed

text \<open>A client connects, leaves and is reaped; a datagram that cannot be decoded comes after it.\<close>

definition leaving_events :: "(instant \<times> fwd_event) list" where
  "leaving_events = [(0, EvControl 9 [1] (OpenConnection 1 ''ann'')), (10, EvControl 0 [] (Leave 1)),
     (20, EvTaskEnd 0), (700, EvBadDatagram)]"

theorem channel_ends_only_when_idle_witness:
  "status (fst (fwd_step demo_io 5699 EvIdle (fst (fwd_run demo_io (forwarder_new 0) leaving_events)))) \<noteq> Ended \<and>
   status (fst (fwd_step demo_io 5700 EvIdle (fst (fwd_run demo_io (forwarder_new 0) leaving_events)))) = Ended"
proof -
  let ?f = "fst (fwd_run demo_io (forwarder_new 0) leaving_events)"
  have ok: "run_ok demo_io (forwarder_new 0) leaving_events" and running: "status ?f = Running"
    and tasks: "tasks ?f = []" and last: "last_event demo_io (forwarder_new 0) 0 leaving_events = 700"
    by (simp_all add: leaving_events_def run_defs leave_def ctl_stop_eq task_end_def status_of_def)
  show ?thesis
    using channel_ends_only_when_idle [OF ok refl running, of EvIdle 5699]
      channel_ends_only_when_idle [OF ok refl running, of EvIdle 5700] tasks last by simp
qed

text \<open>
  Peer list. Every entry of the answer to \<open>Peers\<close> carries the source id and the name of one
  peered connection of the channel.
\<close>

theorem peers_are_peered_connections:
  assumes "fwd_reach io f" and "snd (peers io now f) = RPeers ps" and "p \<in> set ps"
  shows "\<exists>conn. map_of (connections f) (peer_source_id p) = Some conn \<and>
    user_name conn = peer_name p \<and> lifecycle (procs f ! conn_task_id conn) = Peered"
proof -
  note inv = fwd_reach_inv [OF assms(1)]
  obtain cid conn where e: "(cid, conn) \<in> set (zip (map fst (client_id_to_src_id f)) (map snd (connections f)))"
    "lifecycle (procs f ! conn_task_id conn) = Peered" "user_name conn = peer_name p"
    "peer_source_id p = vc_source_id (procs f ! conn_task_id conn)"
    using assms(2,3) by (auto simp: peers_def case_prod_beta peers_loop_eq)
  then obtain s where "(s, conn) \<in> set (connections f)"
    by (fastforce dest: set_zip_rightD)
  then have "map_of (connections f) s = Some conn"
    using inv bt.entries_get [of "connections f" s conn] by (simp add: fwd_inv_def)
  then show ?thesis using e fwd_inv_conn [OF inv] by auto
qed

theorem peers_are_peered_connections_witness:
  "\<exists>conn. map_of (connections demo_fwd) 5 = Some conn \<and>
    user_name conn = ''bob'' \<and> lifecycle (procs demo_fwd ! conn_task_id conn) = Peered"
proof -
  have "snd (peers demo_io 2 demo_fwd) = RPeers
      [\<lparr>peer_id = 1, peer_source_id = 5, peer_name = ''bob''\<rparr>,
       \<lparr>peer_id = 2, peer_source_id = 9, peer_name = ''ann''\<rparr>]"
    by (simp add: peers_def case_prod_beta peers_loop_eq demo_fwd_eq lifecycle_def)
  from peers_are_peered_connections [OF demo_fwd_reach this, of
      "\<lparr>peer_id = 1, peer_source_id = 5, peer_name = ''bob''\<rparr>"]
  show ?thesis by simp
qed

text \<open>
  Mislabelled peers. The client ids of that answer are not those of the connections: with
  client 1 (ann) on connection 9 and client 2 (bob) on connection 5 the answer gives bob's
  source id and name to client 1 and ann's to client 2.
\<close>

theorem peers_mislabels_clients:
  "snd (peers demo_io now demo_fwd) = RPeers
      [\<lparr>peer_id = 1, peer_source_id = 5, peer_name = ''bob''\<rparr>,
       \<lparr>peer_id = 2, peer_source_id = 9, peer_name = ''ann''\<rparr>] \<and>
   map_of (client_id_to_src_id demo_fwd) 1 = Some 9 \<and>
   map_of (client_id_to_src_id demo_fwd) 2 = Some 5"
  by (simp add: peers_def case_prod_beta peers_loop_eq demo_fwd_eq lifecycle_def)

definition reopen_events :: "(instant \<times> fwd_event) list" where
  "reopen_events =
     [(0, EvControl 5 [1] (OpenConnection 1 ''ann'')), (0, EvControl 9 [2] (OpenConnection 1 ''ann'')),
      (1, EvControl 0 [] (Leave 1)), (1, EvTaskEnd 1),
      (15000, EvTask 0 TTimer), (15000, EvTaskEnd 0)]"

text \<open>
  A leaked connection. A client that opens a second connection and leaves is taken out of the
  roster with the second one; when the first one times out and is reaped, its entry stays in
  \<open>connections\<close> although no task is left.
\<close>

theorem reopened_client_leaks_connection:
  "run_ok demo_io (forwarder_new 0) reopen_events \<and>
   (let f = fst (fwd_run demo_io (forwarder_new 0) reopen_events)
    in tasks f = [] \<and> client_id_to_src_id f = [] \<and> map_of (connections f) 5 \<noteq> None)"
  by (simp add: reopen_events_def run_defs leave_def ctl_stop_eq task_end_def bt_remove_def
      task_step_def task_sees_def IDLE_TIMEOUT_def)

end
