(* ===== verification/Voice_Server.thy ===== *)
theory Voice_Server
  imports Ports Forwarder "HOL-Library.Multiset"
begin

text \<open>
  The voice server, \<open>VoiceServerImpl\<close> in \<open>server/voice/core/src/lib.rs\<close>, with \<open>Channel\<close>, its
  handle on a forwarder (\<open>server/voice/core/src/channel/mod.rs\<close>), and the configuration of
  \<open>server/voice/core/src/config.rs\<close>.

  Forwarders are kept in the order they were started, each with the room it serves; a \<open>Channel\<close>
  names its forwarder by position. A request to a channel is looked up, sent and handled at three
  moments, and the forwarder may go through other events between them: these are arguments.
\<close>

section \<open>State\<close>

record channel =
  ch_fwd :: nat
  ch_port :: port_ref

record voice_server =
  host_addr :: ip_addr
  vs_ports :: ports
  channels :: "(uuid, channel) hash_map"
  forwarders :: "(uuid \<times> forwarder) list"
  cleaned :: "nat list"      \<comment> \<open>forwarders whose end notification has been handled\<close>

definition voice_server_new :: "ip_addr \<Rightarrow> ports \<Rightarrow> voice_server" where
  "voice_server_new host ports =
     \<lparr>host_addr = host, vs_ports = ports, channels = [], forwarders = [], cleaned = []\<rparr>"

definition fwd_at :: "voice_server \<Rightarrow> nat \<Rightarrow> forwarder" where
  "fwd_at srv i = snd (forwarders srv ! i)"

definition set_fwd :: "nat \<Rightarrow> forwarder \<Rightarrow> voice_server \<Rightarrow> voice_server" where
  "set_fwd i f srv =
     srv\<lparr>forwarders := (forwarders srv)[i := (fst (forwarders srv ! i), f)]\<rparr>"

section \<open>Channels\<close>

datatype assign_error = PortsExhausted | BindFailed

text \<open>
  \<open>Channel::new\<close>: bind the socket, start the forwarder. When binding fails the port reference is
  dropped and the port is free again. \<open>bind_ok\<close> is the answer of the operating system.
\<close>

definition channel_new ::
  "(port_ref \<Rightarrow> bool) \<Rightarrow> instant \<Rightarrow> uuid \<Rightarrow> port_ref \<Rightarrow> voice_server \<Rightarrow>
     voice_server \<times> channel option" where
  "channel_new bind_ok now room p srv =
     (if bind_ok p
      then (srv\<lparr>forwarders := forwarders srv @ [(room, forwarder_new now)]\<rparr>,
            Some \<lparr>ch_fwd = length (forwarders srv), ch_port = p\<rparr>)
      else (srv\<lparr>vs_ports := port_ref_drop p (vs_ports srv)\<rparr>, None))"

definition allocate_port :: "voice_server \<Rightarrow> (voice_server \<times> port_ref) option" where
  "allocate_port srv = (case ports_get (vs_ports srv) of
      None \<Rightarrow> None
    | Some (ps, p) \<Rightarrow> Some (srv\<lparr>vs_ports := ps\<rparr>, p))"

definition assign_channel ::
  "(port_ref \<Rightarrow> bool) \<Rightarrow> instant \<Rightarrow> uuid \<Rightarrow> voice_server \<Rightarrow>
     voice_server \<times> (assign_error + channel)" where
  "assign_channel bind_ok now room srv =
     (case map_of (channels srv) room of
        Some c \<Rightarrow> (srv, Inr c)
      | None \<Rightarrow>
          (case allocate_port srv of
             None \<Rightarrow> (srv, Inl PortsExhausted)
           | Some (srv', p) \<Rightarrow>
               (case channel_new bind_ok now room p srv' of
                  (srv'', None) \<Rightarrow> (srv'', Inl BindFailed)
                | (srv'', Some c) \<Rightarrow>
                    (srv''\<lparr>channels := hm_insert room c (channels srv'')\<rparr>, Inr c))))"

definition healthy :: "voice_server \<Rightarrow> channel \<Rightarrow> bool" where
  "healthy srv c = (status (fwd_at srv (ch_fwd c)) = Running)"

definition get_channel :: "voice_server \<Rightarrow> uuid \<Rightarrow> channel option" where
  "get_channel srv room = (case map_of (channels srv) room of
      None \<Rightarrow> None | Some c \<Rightarrow> (if healthy srv c then Some c else None))"

text \<open>
  The cleanup task: the end notification of a forwarder removes its room from the map, and
  dropping the \<open>Channel\<close> frees its port.
\<close>

definition cleanup :: "nat \<Rightarrow> voice_server \<Rightarrow> voice_server" where
  "cleanup i srv =
     (let room = fst (forwarders srv ! i);
          ports = (case map_of (channels srv) room of
                     None \<Rightarrow> vs_ports srv | Some c \<Rightarrow> port_ref_drop (ch_port c) (vs_ports srv))
      in srv\<lparr>channels := hm_remove room (channels srv), vs_ports := ports,
             cleaned := i # cleaned srv\<rparr>)"

section \<open>Requests to a channel\<close>

text \<open>
  What a caller may see of a request: the receiver is gone, the responder is dropped, or an
  answer. \<open>lag\<close> is what the forwarder does before the message is sent and while it is queued.
\<close>

datatype request_result = SendFailed | NoAnswer | Answer ctl_reply

type_synonym lag = "(instant \<times> fwd_event) list \<times> (instant \<times> fwd_event) list"

record request_env =
  re_io :: io
  re_now :: instant
  re_source :: u32           \<comment> \<open>\<open>rand::random\<close>\<close>
  re_key :: "u8 list"        \<comment> \<open>\<open>generate_key\<close>\<close>
  re_lag :: lag

definition channel_request ::
  "request_env \<Rightarrow> channel_ctl \<Rightarrow> channel \<Rightarrow> voice_server \<Rightarrow> voice_server \<times> request_result" where
  "channel_request e ctl c srv =
     (let f1 = fst (fwd_run (re_io e) (fwd_at srv (ch_fwd c)) (fst (re_lag e)))
      in if status f1 \<noteq> Running then (set_fwd (ch_fwd c) f1 srv, SendFailed)
         else (let f2 = fst (fwd_run (re_io e) f1 (snd (re_lag e)))
               in if status f2 \<noteq> Running then (set_fwd (ch_fwd c) f2 srv, NoAnswer)
                  else (let (f3, outs) = fwd_step (re_io e) (re_now e)
                                           (EvControl (re_source e) (re_key e) ctl) f2
                        in (set_fwd (ch_fwd c) f3 srv,
                            case outs of
                              [FReply r] \<Rightarrow> (if r = RDropped then NoAnswer else Answer r)
                            | _ \<Rightarrow> NoAnswer))))"

definition channel_open_connection ::
  "request_env \<Rightarrow> uuid \<Rightarrow> string \<Rightarrow> channel \<Rightarrow> voice_server \<Rightarrow> voice_server \<times> (voice_error + u32)"
  where
  "channel_open_connection e client name c srv =
     (let (srv', r) = channel_request e (OpenConnection client name) c srv
      in (srv', case r of
                  SendFailed \<Rightarrow> Inl ChannelNotFound
                | Answer (ROpen s) \<Rightarrow> Inr s
                | _ \<Rightarrow> Inl OtherError))"

definition channel_establish_session ::
  "request_env \<Rightarrow> uuid \<Rightarrow> socket_addr \<Rightarrow> channel \<Rightarrow> voice_server \<Rightarrow>
     voice_server \<times> (voice_error + init_response)" where
  "channel_establish_session e client addr c srv =
     (let (srv', r) = channel_request e (Establish client addr) c srv
      in (srv', case r of Answer (REstablish x) \<Rightarrow> x | _ \<Rightarrow> Inl OtherError))"

definition channel_peers ::
  "request_env \<Rightarrow> channel \<Rightarrow> voice_server \<Rightarrow> voice_server \<times> (voice_error + peer list)" where
  "channel_peers e c srv =
     (let (srv', r) = channel_request e Peers c srv
      in (srv', case r of Answer (RPeers ps) \<Rightarrow> Inr ps | _ \<Rightarrow> Inl OtherError))"

definition channel_status ::
  "request_env \<Rightarrow> uuid \<Rightarrow> channel \<Rightarrow> voice_server \<Rightarrow>
     voice_server \<times> (voice_error + connection_state)" where
  "channel_status e client c srv =
     (let (srv', r) = channel_request e (Status client) c srv
      in (srv', case r of Answer (RStatus x) \<Rightarrow> x | _ \<Rightarrow> Inl OtherError))"

definition channel_leave ::
  "request_env \<Rightarrow> uuid \<Rightarrow> channel \<Rightarrow> voice_server \<Rightarrow> voice_server \<times> bool" where
  "channel_leave e client c srv =
     (let (srv', r) = channel_request e (Leave client) c srv in (srv', r = Answer RLeft))"

section \<open>The server's operations\<close>

definition open_connection ::
  "request_env \<Rightarrow> open_connection_req \<Rightarrow> voice_server \<Rightarrow>
     voice_server \<times> (voice_error + connection_data)" where
  "open_connection e req srv =
     (case get_channel srv (oc_channel_id req) of
        None \<Rightarrow> (srv, Inl ChannelNotFound)
      | Some room \<Rightarrow>
          (case channel_open_connection e (oc_client_id req) (oc_user_name req) room srv of
             (srv', Inr s) \<Rightarrow>
               (srv', Inr \<lparr>cd_sock = sa_from (host_addr srv') (port (ch_port room)),
                           cd_source_id = s\<rparr>)
           | (srv', Inl err) \<Rightarrow> (srv', Inl err)))"

definition establish_session ::
  "request_env \<Rightarrow> establish_session_req \<Rightarrow> voice_server \<Rightarrow>
     voice_server \<times> (voice_error + session_data)" where
  "establish_session e req srv =
     (case get_channel srv (es_channel_id req) of
        None \<Rightarrow> (srv, Inl ChannelNotFound)
      | Some c \<Rightarrow>
          (case channel_establish_session e (es_client_id req) (es_client_addr req) c srv of
             (srv', Inr resp) \<Rightarrow> (srv', Inr \<lparr>sd_crypt_key = crypt_key resp\<rparr>)
           | (srv', Inl err) \<Rightarrow> (srv', Inl err)))"

definition leave :: "request_env \<Rightarrow> uuid \<Rightarrow> uuid \<Rightarrow> voice_server \<Rightarrow> voice_server \<times> (voice_error + unit)"
  where
  "leave e channel_id client_id srv =
     (case get_channel srv channel_id of
        None \<Rightarrow> (srv, Inl ChannelNotFound)
      | Some room \<Rightarrow>
          (let (srv', ok) = channel_leave e client_id room srv
           in (srv', if ok then Inr () else Inl PeerNotFound)))"

definition user_status ::
  "request_env \<Rightarrow> uuid \<Rightarrow> uuid \<Rightarrow> voice_server \<Rightarrow> voice_server \<times> (voice_error + connection_state)"
  where
  "user_status e channel_id client_id srv =
     (case get_channel srv channel_id of
        None \<Rightarrow> (srv, Inl ChannelNotFound)
      | Some room \<Rightarrow> channel_status e client_id room srv)"

text \<open>\<open>status\<close> looks at \<open>healthy\<close> a second time, after the events \<open>pre\<close>.\<close>

definition channel_peers_of ::
  "request_env \<Rightarrow> (instant \<times> fwd_event) list \<Rightarrow> uuid \<Rightarrow> voice_server \<Rightarrow>
     voice_server \<times> (voice_error + peer list)" where
  "channel_peers_of e pre channel_id srv =
     (case get_channel srv channel_id of
        None \<Rightarrow> (srv, Inl ChannelNotFound)
      | Some room \<Rightarrow>
          (let srv' = set_fwd (ch_fwd room)
                        (fst (fwd_run (re_io e) (fwd_at srv (ch_fwd room)) pre)) srv
           in if \<not> healthy srv' room then (srv', Inl ChannelNotFound)
              else channel_peers e room srv'))"

section \<open>Configuration\<close>

record voice_server_config =
  first_udp_port :: u16
  udp_ports :: u16
  udp_host :: string

definition default_config :: voice_server_config where
  "default_config = \<lparr>first_udp_port = 33333, udp_ports = 2, udp_host = ''localhost''\<rparr>"

definition config_udp_ports :: "u16 option \<Rightarrow> voice_server_config \<Rightarrow> ports option" where
  "config_udp_ports os_port cfg = ports_new os_port (first_udp_port cfg) (udp_ports cfg)"

text \<open>\<open>lookup_host\<close> is the resolver: \<open>None\<close> when it fails, else the addresses it found.\<close>

definition config_udp_host ::
  "(string \<Rightarrow> socket_addr list option) \<Rightarrow> voice_server_config \<Rightarrow> ip_addr option" where
  "config_udp_host lookup_host cfg =
     (case lookup_host (udp_host cfg) of
        None \<Rightarrow> None
      | Some [] \<Rightarrow> None
      | Some (a # as) \<Rightarrow> Some (sa_ip a))"

definition config_server ::
  "(string \<Rightarrow> socket_addr list option) \<Rightarrow> u16 option \<Rightarrow> voice_server_config \<Rightarrow>
     voice_server option" where
  "config_server lookup_host os_port cfg =
     Option.bind (config_udp_host lookup_host cfg) (\<lambda>ip.
       Option.bind (config_udp_ports os_port cfg) (\<lambda>ps. Some (voice_server_new ip ps)))"

section \<open>Reachable states\<close>

text \<open>
  Channels are assigned, forwarders take steps, on requests and on their own, and end
  notifications are handled, once each.
\<close>

inductive srv_step :: "io \<Rightarrow> voice_server \<Rightarrow> voice_server \<Rightarrow> bool" for io :: io where
  assign: "srv_step io srv (fst (assign_channel bind_ok now room srv))"
| forward: "i < length (forwarders srv) \<Longrightarrow>
     fresh_source ev (fwd_at srv i) \<Longrightarrow> has_room ev (fwd_at srv i) \<Longrightarrow>
     srv_step io srv (set_fwd i (fst (fwd_step io now ev (fwd_at srv i))) srv)"
| cleanup: "i < length (forwarders srv) \<Longrightarrow> status (fwd_at srv i) = Ended \<Longrightarrow>
     i \<notin> set (cleaned srv) \<Longrightarrow> srv_step io srv (cleanup i srv)"

inductive srv_reach :: "io \<Rightarrow> u16 option \<Rightarrow> u16 \<Rightarrow> u16 \<Rightarrow> voice_server \<Rightarrow> bool"
  for io :: io and os_port :: "u16 option" and first_port :: u16 and limit :: u16 where
  init: "ports_new os_port first_port limit = Some ps \<Longrightarrow>
     srv_reach io os_port first_port limit (voice_server_new host ps)"
| step: "srv_reach io os_port first_port limit srv \<Longrightarrow> srv_step io srv srv' \<Longrightarrow>
     srv_reach io os_port first_port limit srv'"

inductive_cases srv_stepE: "srv_step io srv srv'"

section \<open>The invariant\<close>

text \<open>The ports in use are those of the channels in the map.\<close>

definition ports_held :: "u16 option \<Rightarrow> u16 \<Rightarrow> u16 \<Rightarrow> voice_server \<Rightarrow> bool" where
  "ports_held os_port first_port limit srv \<longleftrightarrow>
     (\<exists>held. pool_history os_port first_port limit (vs_ports srv) held \<and>
        mset held = mset (map (ch_port \<circ> snd) (channels srv)))"

text \<open>Each channel names the forwarder of its room, and each forwarder not cleaned up has one.\<close>

definition rooms_ok :: "voice_server \<Rightarrow> bool" where
  "rooms_ok srv \<longleftrightarrow> hm_ok (channels srv) \<and>
     (\<forall>room c. map_of (channels srv) room = Some c \<longrightarrow>
        ch_fwd c < length (forwarders srv) \<and> fst (forwarders srv ! ch_fwd c) = room \<and>
        ch_fwd c \<notin> set (cleaned srv)) \<and>
     (\<forall>i < length (forwarders srv). i \<notin> set (cleaned srv) \<longrightarrow>
        (\<exists>c. map_of (channels srv) (fst (forwarders srv ! i)) = Some c \<and> ch_fwd c = i)) \<and>
     (\<forall>i \<in> set (cleaned srv). i < length (forwarders srv) \<and> status (fwd_at srv i) = Ended)"

lemma rooms_okD:
  assumes "rooms_ok srv"
  shows "hm_ok (channels srv)"
    and "map_of (channels srv) room = Some c \<Longrightarrow> ch_fwd c < length (forwarders srv)"
    and "map_of (channels srv) room = Some c \<Longrightarrow> fst (forwarders srv ! ch_fwd c) = room"
    and "map_of (channels srv) room = Some c \<Longrightarrow> ch_fwd c \<notin> set (cleaned srv)"
    and "i < length (forwarders srv) \<Longrightarrow> i \<notin> set (cleaned srv) \<Longrightarrow>
      \<exists>c. map_of (channels srv) (fst (forwarders srv ! i)) = Some c \<and> ch_fwd c = i"
    and "i \<in> set (cleaned srv) \<Longrightarrow> i < length (forwarders srv)"
    and "i \<in> set (cleaned srv) \<Longrightarrow> status (fwd_at srv i) = Ended"
  using assms by (auto simp: rooms_ok_def)

lemma rooms_okI:
  assumes "hm_ok (channels srv)"
    and "\<And>room c. map_of (channels srv) room = Some c \<Longrightarrow>
      ch_fwd c < length (forwarders srv) \<and> fst (forwarders srv ! ch_fwd c) = room \<and>
      ch_fwd c \<notin> set (cleaned srv)"
    and "\<And>i. i < length (forwarders srv) \<Longrightarrow> i \<notin> set (cleaned srv) \<Longrightarrow>
      \<exists>c. map_of (channels srv) (fst (forwarders srv ! i)) = Some c \<and> ch_fwd c = i"
    and "\<And>i. i \<in> set (cleaned srv) \<Longrightarrow>
      i < length (forwarders srv) \<and> status (fwd_at srv i) = Ended"
  shows "rooms_ok srv"
  using assms by (simp add: rooms_ok_def)

definition srv_inv :: "io \<Rightarrow> u16 option \<Rightarrow> u16 \<Rightarrow> u16 \<Rightarrow> voice_server \<Rightarrow> bool" where
  "srv_inv io os_port first_port limit srv \<longleftrightarrow>
     rooms_ok srv \<and> ports_held os_port first_port limit srv \<and>
     (\<forall>i < length (forwarders srv). fwd_reach io (fwd_at srv i))"

lemma ports_get_drop: "ports_get p = Some (p', r) \<Longrightarrow> port_ref_drop r p' = p"
proof -
  assume got: "ports_get p = Some (p', r)"
  have "(state p)[slot r := True] = state p"
    using ports_get_SomeD(2) [OF got] list_update_id [of "state p" "slot r"] by simp
  then show "port_ref_drop r p' = p"
    using ports_get_SomeD(4) [OF got] by (simp add: port_ref_drop_def)
qed

lemma mset_values_update:
  "map_of m k = None \<Longrightarrow>
     mset (map (g \<circ> snd) (AList.update k v m)) = add_mset (g v) (mset (map (g \<circ> snd) m))"
  by (induction m) (auto split: if_splits)

lemma mset_values_delete:
  "distinct (map fst m) \<Longrightarrow> map_of m k = Some v \<Longrightarrow>
     add_mset (g v) (mset (map (g \<circ> snd) (AList.delete k m))) = mset (map (g \<circ> snd) m)"
proof (induction m)
  case (Cons e m)
  show ?case
  proof (cases "fst e = k")
    case True
    then have "k \<notin> fst ` set m" using Cons.prems(1) by auto
    then have "AList.delete k m = m" by (rule delete_id)
    then show ?thesis using True Cons.prems(2) by (cases e) simp
  next
    case False
    then show ?thesis using Cons by (cases e) simp
  qed
qed simp

text \<open>The outcomes of an assignment.\<close>

lemma assign_channel_cases:
  obtains (known) c where "map_of (channels srv) room = Some c"
      "assign_channel bind_ok now room srv = (srv, Inr c)"
    | (full) "map_of (channels srv) room = None" "ports_get (vs_ports srv) = None"
      "assign_channel bind_ok now room srv = (srv, Inl PortsExhausted)"
    | (unbound) ps p where "map_of (channels srv) room = None"
      "ports_get (vs_ports srv) = Some (ps, p)" "\<not> bind_ok p"
      "assign_channel bind_ok now room srv = (srv, Inl BindFailed)"
    | (started) ps p where "map_of (channels srv) room = None"
      "ports_get (vs_ports srv) = Some (ps, p)" "bind_ok p"
      "assign_channel bind_ok now room srv =
        (srv\<lparr>vs_ports := ps, forwarders := forwarders srv @ [(room, forwarder_new now)],
           channels := hm_insert room
             \<lparr>ch_fwd = length (forwarders srv), ch_port = p\<rparr> (channels srv)\<rparr>,
         Inr \<lparr>ch_fwd = length (forwarders srv), ch_port = p\<rparr>)"
proof (cases "map_of (channels srv) room")
  case (Some c)
  then show ?thesis using known by (simp add: assign_channel_def)
next
  case None
  show ?thesis
  proof (cases "ports_get (vs_ports srv)")
    case None
    then show ?thesis
      using full \<open>map_of (channels srv) room = None\<close>
      by (simp add: assign_channel_def allocate_port_def)
  next
    case (Some x)
    then obtain ps p where x: "ports_get (vs_ports srv) = Some (ps, p)" by (cases x) auto
    show ?thesis
    proof (cases "bind_ok p")
      case True
      then show ?thesis
        using started [OF None x True] x None
        by (simp add: assign_channel_def allocate_port_def channel_new_def)
    next
      case False
      then show ?thesis
        using unbound [OF None x False] x None ports_get_drop [OF x]
        by (simp add: assign_channel_def allocate_port_def channel_new_def)
    qed
  qed
qed

lemma srv_inv_new:
  "ports_new os_port first_port limit = Some ps \<Longrightarrow>
     srv_inv io os_port first_port limit (voice_server_new host ps)"
  using pool_history.fresh [of os_port first_port limit ps]
  by (auto simp: srv_inv_def rooms_ok_def ports_held_def voice_server_new_def)

lemma srv_inv_assign:
  assumes inv: "srv_inv io os_port first_port limit srv"
  shows "srv_inv io os_port first_port limit (fst (assign_channel bind_ok now room srv))"
proof (cases rule: assign_channel_cases [of srv room bind_ok now])
  case (started ps p)
  let ?srv = "fst (assign_channel bind_ok now room srv)"
  let ?c = "\<lparr>ch_fwd = length (forwarders srv), ch_port = p\<rparr>"
  have rooms: "rooms_ok srv" using inv by (simp add: srv_inv_def)
  have at: "fwd_at ?srv i = (if i < length (forwarders srv) then fwd_at srv i else forwarder_new now)"
    if "i < length (forwarders ?srv)" for i
    using that started(4) by (auto simp: fwd_at_def nth_append less_Suc_eq)
  have srv: "channels ?srv = hm_insert room ?c (channels srv)" "cleaned ?srv = cleaned srv"
    "forwarders ?srv = forwarders srv @ [(room, forwarder_new now)]"
    using started(4) by simp_all
  have "rooms_ok ?srv"
  proof (rule rooms_okI)
    show "hm_ok (channels ?srv)"
      using rooms_okD(1) [OF rooms] by (simp add: srv distinct_update)
  next
    fix r c assume r: "map_of (channels ?srv) r = Some c"
    show "ch_fwd c < length (forwarders ?srv) \<and> fst (forwarders ?srv ! ch_fwd c) = r \<and>
        ch_fwd c \<notin> set (cleaned ?srv)"
    proof (cases "r = room")
      case True
      then show ?thesis
        using r rooms_okD(6) [OF rooms, of "length (forwarders srv)"]
        by (auto simp: srv update_conv')
    next
      case False
      then show ?thesis
        using r rooms_okD(2-4) [OF rooms, of r c] by (auto simp: srv update_conv' nth_append)
    qed
  next
    fix i assume "i < length (forwarders ?srv)" "i \<notin> set (cleaned ?srv)"
    then consider "i < length (forwarders srv)" "i \<notin> set (cleaned srv)"
      | "i = length (forwarders srv)"
      by (force simp: srv)
    then show "\<exists>c. map_of (channels ?srv) (fst (forwarders ?srv ! i)) = Some c \<and> ch_fwd c = i"
    proof cases
      case 1
      with rooms_okD(5) [OF rooms this] started(1) show ?thesis
        by (auto simp: srv update_conv' nth_append)
    next
      case 2
      then show ?thesis by (simp add: srv update_conv')
    qed
  next
    fix i assume "i \<in> set (cleaned ?srv)"
    then show "i < length (forwarders ?srv) \<and> status (fwd_at ?srv i) = Ended"
      using rooms_okD(6,7) [OF rooms, of i] by (auto simp: srv fwd_at_def nth_append)
  qed
  moreover have "ports_held os_port first_port limit ?srv"
  proof -
    obtain held where held: "pool_history os_port first_port limit (vs_ports srv) held"
        "mset held = mset (map (ch_port \<circ> snd) (channels srv))"
      using inv by (auto simp: srv_inv_def ports_held_def)
    then have "pool_history os_port first_port limit ps (p # held)"
      using started(2) by (auto intro: pool_history.get)
    then show ?thesis
      using held(2) started mset_values_update [of "channels srv" room ch_port ?c]
      unfolding ports_held_def by (intro exI [of _ "p # held"]) simp
  qed
  ultimately show ?thesis
    using inv started(4) at fwd_reach.init [of io now] by (auto simp: srv_inv_def less_Suc_eq)
qed (use inv in simp_all)

lemma set_fwd_facts [simp]:
  "channels (set_fwd i f srv) = channels srv" "vs_ports (set_fwd i f srv) = vs_ports srv"
  "cleaned (set_fwd i f srv) = cleaned srv" "host_addr (set_fwd i f srv) = host_addr srv"
  "length (forwarders (set_fwd i f srv)) = length (forwarders srv)"
  "j < length (forwarders srv) \<Longrightarrow>
     fst (forwarders (set_fwd i f srv) ! j) = fst (forwarders srv ! j)"
  "i < length (forwarders srv) \<Longrightarrow> fwd_at (set_fwd i f srv) i = f"
  "j \<noteq> i \<Longrightarrow> fwd_at (set_fwd i f srv) j = fwd_at srv j"
  by (cases "i = j"; simp add: set_fwd_def fwd_at_def)+

lemma ended_stays: "status f \<noteq> Running \<Longrightarrow> fwd_step io now ev f = (f, [])"
  by (simp add: fwd_step_def)

lemma srv_inv_forward:
  assumes inv: "srv_inv io os_port first_port limit srv" and i: "i < length (forwarders srv)"
    and "fresh_source ev (fwd_at srv i)" and "has_room ev (fwd_at srv i)"
  shows "srv_inv io os_port first_port limit
    (set_fwd i (fst (fwd_step io now ev (fwd_at srv i))) srv)"
proof -
  let ?f = "fst (fwd_step io now ev (fwd_at srv i))"
  have "fwd_reach io ?f"
    using inv i assms(3,4) by (auto simp: srv_inv_def intro: fwd_reach.step)
  then have "fwd_reach io (fwd_at (set_fwd i ?f srv) j)" if "j < length (forwarders srv)" for j
    using inv i that by (cases "j = i") (auto simp: srv_inv_def)
  moreover have "status (fwd_at (set_fwd i ?f srv) j) = Ended" if "j \<in> set (cleaned srv)" for j
    using inv i that ended_stays [of "fwd_at srv i" io now ev]
    by (cases "j = i") (auto simp: srv_inv_def rooms_ok_def)
  ultimately show ?thesis
    using inv by (auto simp: srv_inv_def rooms_ok_def ports_held_def)
qed

lemma srv_inv_cleanup:
  assumes inv: "srv_inv io os_port first_port limit srv" and i: "i < length (forwarders srv)"
    and ended: "status (fwd_at srv i) = Ended" and new: "i \<notin> set (cleaned srv)"
  shows "srv_inv io os_port first_port limit (cleanup i srv)"
proof -
  let ?room = "fst (forwarders srv ! i)"
  have rooms: "rooms_ok srv" using inv by (simp add: srv_inv_def)
  obtain c where c: "map_of (channels srv) ?room = Some c" "ch_fwd c = i"
    using rooms_okD(5) [OF rooms i new] by blast
  have eq: "cleanup i srv = srv\<lparr>channels := hm_remove ?room (channels srv),
      vs_ports := port_ref_drop (ch_port c) (vs_ports srv), cleaned := i # cleaned srv\<rparr>"
    using c by (simp add: cleanup_def)
  have at: "fwd_at (cleanup i srv) j = fwd_at srv j" for j by (simp add: eq fwd_at_def)
  have other: "fst (forwarders srv ! j) \<noteq> ?room"
    if "j < length (forwarders srv)" "j \<notin> set (cleaned srv)" "j \<noteq> i" for j
    using rooms_okD(5) [OF rooms that(1,2)] that(3) c by auto
  have "rooms_ok (cleanup i srv)"
  proof (rule rooms_okI)
    show "hm_ok (channels (cleanup i srv))"
      using rooms_okD(1) [OF rooms] by (simp add: eq distinct_delete)
  next
    fix r d assume "map_of (channels (cleanup i srv)) r = Some d"
    then have "r \<noteq> ?room" "map_of (channels srv) r = Some d"
      by (auto simp: eq delete_conv' split: if_splits)
    with rooms_okD(2-4) [OF rooms this(2)]
    show "ch_fwd d < length (forwarders (cleanup i srv)) \<and>
        fst (forwarders (cleanup i srv) ! ch_fwd d) = r \<and>
        ch_fwd d \<notin> set (cleaned (cleanup i srv))"
      by (auto simp: eq)
  next
    fix j assume "j < length (forwarders (cleanup i srv))" "j \<notin> set (cleaned (cleanup i srv))"
    then have "j < length (forwarders srv)" "j \<notin> set (cleaned srv)" "j \<noteq> i" by (auto simp: eq)
    with rooms_okD(5) [OF rooms this(1,2)] other [OF this]
    show "\<exists>c. map_of (channels (cleanup i srv)) (fst (forwarders (cleanup i srv) ! j)) = Some c \<and>
        ch_fwd c = j"
      by (auto simp: eq delete_conv')
  next
    fix j assume "j \<in> set (cleaned (cleanup i srv))"
    then show "j < length (forwarders (cleanup i srv)) \<and> status (fwd_at (cleanup i srv) j) = Ended"
      using rooms_okD(6,7) [OF rooms, of j] i ended unfolding at by (auto simp: eq)
  qed
  moreover have "ports_held os_port first_port limit (cleanup i srv)"
  proof -
    obtain held where held: "pool_history os_port first_port limit (vs_ports srv) held"
        "mset held = mset (map (ch_port \<circ> snd) (channels srv))"
      using inv by (auto simp: srv_inv_def ports_held_def)
    have del: "add_mset (ch_port c) (mset (map (ch_port \<circ> snd) (hm_remove ?room (channels srv)))) =
        mset held"
      using mset_values_delete [of "channels srv" ?room c ch_port] rooms c held
      by (simp add: rooms_ok_def)
    then have "ch_port c \<in> set held" by (metis set_mset_mset union_single_eq_member)
    then obtain xs ys where xs: "held = xs @ ch_port c # ys" by (auto simp: in_set_conv_decomp)
    then have "pool_history os_port first_port limit (port_ref_drop (ch_port c) (vs_ports srv)) (xs @ ys)"
      using held(1) pool_history.drop by blast
    then show ?thesis
      using del xs unfolding ports_held_def by (intro exI [of _ "xs @ ys"]) (simp add: eq)
  qed
  ultimately show ?thesis using inv at by (simp add: srv_inv_def eq)
qed

lemma srv_reach_inv:
  "srv_reach io os_port first_port limit srv \<Longrightarrow> srv_inv io os_port first_port limit srv"
  by (induction rule: srv_reach.induct)
    (auto simp: srv_inv_new srv_inv_assign srv_inv_forward srv_inv_cleanup elim!: srv_stepE)

section \<open>Requests are steps of forwarders\<close>

text \<open>A request with the events around it is a run the forwarder can make.\<close>

definition lag_ok :: "request_env \<Rightarrow> channel_ctl \<Rightarrow> forwarder \<Rightarrow> bool" where
  "lag_ok e ctl f =
     (let f1 = fst (fwd_run (re_io e) f (fst (re_lag e)));
          f2 = fst (fwd_run (re_io e) f1 (snd (re_lag e)))
      in run_ok (re_io e) f (fst (re_lag e)) \<and> run_ok (re_io e) f1 (snd (re_lag e)) \<and>
         fresh_source (EvControl (re_source e) (re_key e) ctl) f2)"

lemma set_fwd_twice [simp]:
  "i < length (forwarders srv) \<Longrightarrow> set_fwd i g (set_fwd i f srv) = set_fwd i g srv"
  by (simp add: set_fwd_def)

lemma set_fwd_same: "i < length (forwarders srv) \<Longrightarrow> set_fwd i (fwd_at srv i) srv = srv"
  by (simp add: set_fwd_def fwd_at_def)

lemma srv_reach_run:
  "srv_reach io os_port first_port limit srv \<Longrightarrow> i < length (forwarders srv) \<Longrightarrow>
     run_ok io (fwd_at srv i) es \<Longrightarrow>
     srv_reach io os_port first_port limit (set_fwd i (fst (fwd_run io (fwd_at srv i) es)) srv)"
proof (induction es arbitrary: srv)
  case Nil
  then show ?case by (simp add: set_fwd_same)
next
  case (Cons e es)
  obtain now ev where e: "e = (now, ev)" by fastforce
  let ?srv = "set_fwd i (fst (fwd_step io now ev (fwd_at srv i))) srv"
  have "srv_reach io os_port first_port limit ?srv"
    using Cons.prems e by (auto intro: srv_reach.step srv_step.forward)
  from Cons.IH [OF this] show ?case
    using Cons.prems e by (simp add: case_prod_beta)
qed

lemma channel_request_reach:
  assumes reach: "srv_reach (re_io e) os_port first_port limit srv"
    and c: "ch_fwd c < length (forwarders srv)" and ok: "lag_ok e ctl (fwd_at srv (ch_fwd c))"
  shows "srv_reach (re_io e) os_port first_port limit (fst (channel_request e ctl c srv))"
proof -
  let ?i = "ch_fwd c"
  let ?f1 = "fst (fwd_run (re_io e) (fwd_at srv ?i) (fst (re_lag e)))"
  let ?f2 = "fst (fwd_run (re_io e) ?f1 (snd (re_lag e)))"
  have r1: "srv_reach (re_io e) os_port first_port limit (set_fwd ?i ?f1 srv)"
    using srv_reach_run [OF reach c] ok by (simp add: lag_ok_def Let_def)
  have r2: "srv_reach (re_io e) os_port first_port limit (set_fwd ?i ?f2 srv)"
    using srv_reach_run [OF r1, of ?i "snd (re_lag e)"] ok c by (simp add: lag_ok_def Let_def)
  have r3: "srv_reach (re_io e) os_port first_port limit
      (set_fwd ?i (fst (fwd_step (re_io e) (re_now e) (EvControl (re_source e) (re_key e) ctl) ?f2)) srv)"
    using srv_reach.step [OF r2 srv_step.forward, of ?i "EvControl (re_source e) (re_key e) ctl" "re_now e"]
      ok c by (simp add: lag_ok_def Let_def)
  show ?thesis
    using r1 r2 r3 by (simp add: channel_request_def Let_def case_prod_beta)
qed

text \<open>A request that is handled at once, with a source id not drawn before.\<close>

definition prompt :: "request_env \<Rightarrow> voice_server \<Rightarrow> bool" where
  "prompt e srv \<longleftrightarrow> re_lag e = ([], []) \<and>
     re_source e \<notin> (\<Union>(room, f) \<in> set (forwarders srv). vc_source_id ` set (procs f))"

text \<open>The rosters of the rooms a server hosts.\<close>

definition hosted :: "voice_server \<Rightarrow> uuid \<Rightarrow> roster option" where
  "hosted srv room = map_option (\<lambda>c. roster_of (fwd_at srv (ch_fwd c))) (get_channel srv room)"

lemma get_channel_Some:
  "get_channel srv room = Some c \<longleftrightarrow>
     map_of (channels srv) room = Some c \<and> status (fwd_at srv (ch_fwd c)) = Running"
  by (auto simp: get_channel_def healthy_def split: option.splits)

lemma hosted_None: "hosted srv room = None \<longleftrightarrow> get_channel srv room = None"
  by (simp add: hosted_def)

lemma roster_of_idle [simp]: "roster_of (f\<lparr>idle_from := t\<rparr>) = roster_of f"
  by (simp add: roster_of_def fun_eq_iff)

lemma control_open_reply:
  "control_msg io now src key (OpenConnection c name) f = Done (f', r) \<Longrightarrow> r = ROpen src"
  by (auto simp: Forwarder.open_connection_def Let_def)

lemma request_prompt:
  assumes inv: "srv_inv (re_io e) os_port first_port limit srv" and e: "prompt e srv"
    and c: "get_channel srv room = Some c"
  obtains f' r where
    "control_msg (re_io e) (re_now e) (re_source e) (re_key e) ctl (fwd_at srv (ch_fwd c)) = Done (f', r)"
    and "channel_request e ctl c srv =
      (set_fwd (ch_fwd c) (f'\<lparr>idle_from := re_now e\<rparr>) srv,
       if r = RDropped then NoAnswer else Answer r)"
    and "spec_reply ctl (roster_of (fwd_at srv (ch_fwd c))) r"
    and "hosted (set_fwd (ch_fwd c) (f'\<lparr>idle_from := re_now e\<rparr>) srv) =
      (hosted srv)(room \<mapsto> spec_ctl ctl (roster_of (fwd_at srv (ch_fwd c))))"
proof -
  let ?f = "fwd_at srv (ch_fwd c)"
  have rooms: "rooms_ok srv" using inv by (simp add: srv_inv_def)
  have c': "map_of (channels srv) room = Some c" "status ?f = Running"
    using c by (simp_all add: get_channel_Some)
  note i = rooms_okD(2) [OF rooms c'(1)]
  have reach: "fwd_reach (re_io e) ?f" using inv i by (simp add: srv_inv_def)
  have "(fst (forwarders srv ! ch_fwd c), ?f) \<in> set (forwarders srv)"
    using i by (simp add: fwd_at_def)
  then have "re_source e \<notin> vc_source_id ` set (procs ?f)"
    using e unfolding prompt_def by blast
  then obtain f' r where ctl: "control_msg (re_io e) (re_now e) (re_source e) (re_key e) ctl ?f = Done (f', r)"
    and roster: "roster_of f' = spec_ctl ctl (roster_of ?f)" "spec_reply ctl (roster_of ?f) r"
    using control_refines [OF fwd_reach_inv [OF reach]] by blast
  let ?g = "f'\<lparr>idle_from := re_now e\<rparr>"
  have req: "channel_request e ctl c srv =
      (set_fwd (ch_fwd c) ?g srv, if r = RDropped then NoAnswer else Answer r)"
    using e c'(2) ctl by (simp add: channel_request_def prompt_def fwd_step_def)
  have "status f' = Running" using status_kept(1) [OF ctl] c'(2) by simp
  then have same: "get_channel (set_fwd (ch_fwd c) ?g srv) r' = get_channel srv r'" for r'
    using c'(2) i by (cases "map_of (channels srv) r'")
      (auto simp: get_channel_def healthy_def set_fwd_def fwd_at_def nth_list_update)
  have "hosted (set_fwd (ch_fwd c) ?g srv) = (hosted srv)(room \<mapsto> spec_ctl ctl (roster_of ?f))"
  proof (rule ext)
    fix r'
    show "hosted (set_fwd (ch_fwd c) ?g srv) r' =
        ((hosted srv)(room \<mapsto> spec_ctl ctl (roster_of ?f))) r'"
    proof (cases "r' = room")
      case True
      then show ?thesis using same c i roster(1) by (simp add: hosted_def)
    next
      case False
      have "ch_fwd d \<noteq> ch_fwd c" if "get_channel srv r' = Some d" for d
        using rooms_okD(3) [OF rooms, of r' d] rooms_okD(3) [OF rooms c'(1)] that False
        by (auto simp: get_channel_Some)
      then show ?thesis
        using same False by (cases "get_channel srv r'") (auto simp: hosted_def)
    qed
  qed
  from that [OF ctl req roster(2) this] show ?thesis .
qed

lemma srv_reach_ports:
  assumes "srv_reach io os_port first_port limit srv"
  shows "distinct (map (port \<circ> ch_port \<circ> snd) (channels srv))"
    and "length (channels srv) \<le> unat limit"
    and "ports_get (vs_ports srv) = None \<longleftrightarrow> length (channels srv) = unat limit"
proof -
  obtain held where held: "pool_history os_port first_port limit (vs_ports srv) held"
      "mset held = mset (map (ch_port \<circ> snd) (channels srv))"
    using srv_reach_inv [OF assms] by (auto simp: srv_inv_def ports_held_def)
  note facts = pool_history_facts [OF held(1)]
  have len: "length held = length (channels srv)"
    using arg_cong [OF held(2), of size] by simp
  have "mset (map port held) = mset (map port (map (ch_port \<circ> snd) (channels srv)))"
    using held(2) by (simp only: mset_map)
  then have "distinct (map port (map (ch_port \<circ> snd) (channels srv)))"
    using facts mset_eq_imp_distinct_iff by blast
  then show "distinct (map (port \<circ> ch_port \<circ> snd) (channels srv))"
    by (simp add: comp_assoc)
  show "length (channels srv) \<le> unat limit"
    "ports_get (vs_ports srv) = None \<longleftrightarrow> length (channels srv) = unat limit"
    using facts len by simp_all
qed

lemma channel_fwds_distinct: "rooms_ok srv \<Longrightarrow> distinct (map (ch_fwd \<circ> snd) (channels srv))"
proof -
  assume rooms: "rooms_ok srv"
  have ok: "distinct (map fst (channels srv))" using rooms_okD(1) [OF rooms] by simp
  have fst: "fst e = fst (forwarders srv ! ch_fwd (snd e))" if "e \<in> set (channels srv)" for e
    using rooms_okD(3) [OF rooms, of "fst e" "snd e"] ok that by simp
  then have "map fst (channels srv) =
      map (\<lambda>i. fst (forwarders srv ! i)) (map (ch_fwd \<circ> snd) (channels srv))"
    by simp
  then have "distinct (map (\<lambda>i. fst (forwarders srv ! i)) (map (ch_fwd \<circ> snd) (channels srv)))"
    using ok by argo
  then show ?thesis unfolding distinct_map [of "\<lambda>i. fst (forwarders srv ! i)"] by blast
qed

lemma spec_reply_status: "spec_reply (Status cl) m r \<Longrightarrow>
    r = RStatus (case m cl of None \<Rightarrow> Inl PeerNotFound | Some st \<Rightarrow> Inr st)"
  by simp

lemma user_status_prompt:
  assumes inv: "srv_inv (re_io e) os_port first_port limit srv" and e: "prompt e srv"
  shows "user_status e room cl srv = (srv', r) \<Longrightarrow>
    r = (case hosted srv room of
           None \<Rightarrow> Inl ChannelNotFound
         | Some m \<Rightarrow> (case m cl of None \<Rightarrow> Inl PeerNotFound | Some st \<Rightarrow> Inr st)) \<and>
    hosted srv' = hosted srv"
proof (cases "get_channel srv room")
  case (Some c)
  assume res: "user_status e room cl srv = (srv', r)"
  show ?thesis
    by (rule request_prompt [OF inv e Some, of "Status cl"])
      (use res Some in \<open>auto simp: user_status_def channel_status_def hosted_def fun_eq_iff\<close>)
qed (simp add: user_status_def hosted_def)

lemma leave_prompt:
  assumes inv: "srv_inv (re_io e) os_port first_port limit srv" and e: "prompt e srv"
  shows "leave e room cl srv = (srv', r) \<Longrightarrow>
    (case hosted srv room of
       None \<Rightarrow> r = Inl ChannelNotFound \<and> srv' = srv
     | Some m \<Rightarrow> r = Inr () \<and> hosted srv' = (hosted srv)(room \<mapsto> spec_ctl (Leave cl) m))"
proof (cases "get_channel srv room")
  case (Some c)
  assume res: "leave e room cl srv = (srv', r)"
  show ?thesis
    by (rule request_prompt [OF inv e Some, of "Leave cl"])
      (use res Some in \<open>auto simp: leave_def channel_leave_def hosted_def\<close>)
qed (simp add: leave_def hosted_def)

lemma open_prompt:
  assumes inv: "srv_inv (re_io e) os_port first_port limit srv" and e: "prompt e srv"
  shows "open_connection e req srv = (srv', r) \<Longrightarrow>
    (case get_channel srv (oc_channel_id req) of
       None \<Rightarrow> r = Inl ChannelNotFound \<and> srv' = srv
     | Some c \<Rightarrow> r = Inr \<lparr>cd_sock = sa_from (host_addr srv) (port (ch_port c)),
                        cd_source_id = re_source e\<rparr> \<and>
         hosted srv' = (hosted srv)(oc_channel_id req \<mapsto>
           (the (hosted srv (oc_channel_id req)))(oc_client_id req \<mapsto> Waiting)))"
proof (cases "get_channel srv (oc_channel_id req)")
  case (Some c)
  assume res: "open_connection e req srv = (srv', r)"
  show ?thesis
  proof (rule request_prompt [OF inv e Some, of "OpenConnection (oc_client_id req) (oc_user_name req)"])
    fix f' rep
    assume ctl: "control_msg (re_io e) (re_now e) (re_source e) (re_key e)
        (OpenConnection (oc_client_id req) (oc_user_name req)) (fwd_at srv (ch_fwd c)) = Done (f', rep)"
      and "channel_request e (OpenConnection (oc_client_id req) (oc_user_name req)) c srv =
        (set_fwd (ch_fwd c) (f'\<lparr>idle_from := re_now e\<rparr>) srv,
         if rep = RDropped then NoAnswer else Answer rep)"
      and "hosted (set_fwd (ch_fwd c) (f'\<lparr>idle_from := re_now e\<rparr>) srv) =
        (hosted srv)(oc_channel_id req \<mapsto> spec_ctl (OpenConnection (oc_client_id req) (oc_user_name req))
           (roster_of (fwd_at srv (ch_fwd c))))"
    then show ?thesis
      using res Some control_open_reply [OF ctl]
      by (auto simp: open_connection_def channel_open_connection_def hosted_def)
  qed
qed (simp add: open_connection_def)

lemma establish_prompt:
  assumes inv: "srv_inv (re_io e) os_port first_port limit srv" and e: "prompt e srv"
  shows "establish_session e req srv = (srv', r) \<Longrightarrow>
    (case hosted srv (es_channel_id req) of
       None \<Rightarrow> r = Inl ChannelNotFound \<and> srv' = srv
     | Some m \<Rightarrow>
         hosted srv' = (hosted srv)(es_channel_id req \<mapsto>
           spec_ctl (Establish (es_client_id req) (es_client_addr req)) m) \<and>
         (case m (es_client_id req) of
            None \<Rightarrow> r = Inl PeerNotFound
          | Some Stopped \<Rightarrow> r = Inl OtherError
          | Some _ \<Rightarrow> (case r of Inr k \<Rightarrow> True | Inl x \<Rightarrow> False)))"
proof (cases "get_channel srv (es_channel_id req)")
  case (Some c)
  assume res: "establish_session e req srv = (srv', r)"
  show ?thesis
  proof (rule request_prompt [OF inv e Some, of "Establish (es_client_id req) (es_client_addr req)"])
    fix f' rep
    assume "channel_request e (Establish (es_client_id req) (es_client_addr req)) c srv =
        (set_fwd (ch_fwd c) (f'\<lparr>idle_from := re_now e\<rparr>) srv,
         if rep = RDropped then NoAnswer else Answer rep)"
      and "spec_reply (Establish (es_client_id req) (es_client_addr req))
        (roster_of (fwd_at srv (ch_fwd c))) rep"
      and "hosted (set_fwd (ch_fwd c) (f'\<lparr>idle_from := re_now e\<rparr>) srv) =
        (hosted srv)(es_channel_id req \<mapsto> spec_ctl (Establish (es_client_id req) (es_client_addr req))
           (roster_of (fwd_at srv (ch_fwd c))))"
    then show ?thesis
      using res Some
      by (auto simp: establish_session_def channel_establish_session_def hosted_def
          split: option.splits connection_state.splits ctl_reply.splits sum.splits)
  qed
qed (auto simp: establish_session_def hosted_def)

lemma crashed_stays:
  assumes "srv_inv io os_port first_port limit srv" and "srv_step io srv srv'"
    and c: "map_of (channels srv) room = Some c" and crash: "status (fwd_at srv (ch_fwd c)) = Crashed"
  shows "map_of (channels srv') room = Some c \<and> status (fwd_at srv' (ch_fwd c)) = Crashed"
proof -
  have rooms: "rooms_ok srv" using assms(1) by (simp add: srv_inv_def)
  note len = rooms_okD(2) [OF rooms c]
  from assms(2) show ?thesis
  proof (cases rule: srv_step.cases)
    case (assign bind_ok now r)
    show ?thesis
    proof (cases rule: assign_channel_cases [of srv r bind_ok now])
      case (started ps p)
      then show ?thesis using assign c crash len by (auto simp: update_conv' fwd_at_def nth_append)
    qed (use assign c crash in simp_all)
  next
    case (forward i ev now)
    then show ?thesis
      using c crash len ended_stays [of "fwd_at srv i" io now ev]
      by (cases "i = ch_fwd c") auto
  next
    case (cleanup i)
    have "fst (forwarders srv ! i) \<noteq> room"
      using rooms_okD(5) [OF rooms cleanup(2) cleanup(4)] c crash cleanup(3) by auto
    then show ?thesis using cleanup(1) c crash by (simp add: cleanup_def Let_def delete_conv' fwd_at_def)
  qed
qed

section \<open>Properties\<close>

text \<open>
  C22: Rooms and ports. In every reachable state of the voice server no two rooms share a UDP port
  or a forwarder, and there are never more rooms than ports.
\<close>

theorem rooms_never_share_ports:
  assumes "srv_reach io os_port first_port limit srv"
  shows "distinct (map (port \<circ> ch_port \<circ> snd) (channels srv)) \<and>
    distinct (map (ch_fwd \<circ> snd) (channels srv)) \<and> length (channels srv) \<le> unat limit"
  using srv_reach_ports [OF assms] channel_fwds_distinct srv_reach_inv [OF assms]
  by (simp add: srv_inv_def)

text \<open>A server with two ports that has assigned two rooms.\<close>

definition demo_server0 :: voice_server where
  "demo_server0 = voice_server_new (V4 0x7F000001) \<lparr>start = 33333, state = [True, True]\<rparr>"

definition demo_server :: voice_server where
  "demo_server = fst (assign_channel (\<lambda>p. True) 0 2 (fst (assign_channel (\<lambda>p. True) 0 1 demo_server0)))"

lemma demo_server_eq:
  "demo_server = \<lparr>host_addr = V4 0x7F000001, vs_ports = \<lparr>start = 33333, state = [False, False]\<rparr>,
     channels = [(1, \<lparr>ch_fwd = 0, ch_port = \<lparr>port = 33333, slot = 0\<rparr>\<rparr>),
                 (2, \<lparr>ch_fwd = 1, ch_port = \<lparr>port = 33334, slot = 1\<rparr>\<rparr>)],
     forwarders = [(1, forwarder_new 0), (2, forwarder_new 0)], cleaned = []\<rparr>"
  by (simp add: demo_server_def demo_server0_def voice_server_new_def assign_channel_def
      allocate_port_def channel_new_def ports_get_def)

lemma demo_server_reach: "srv_reach demo_io None 33333 2 demo_server"
  unfolding demo_server_def demo_server0_def
  by (intro srv_reach.step [OF _ srv_step.assign] srv_reach.init demo_new)

lemma demo_server0_reach: "srv_reach demo_io None 33333 2 demo_server0"
  unfolding demo_server0_def by (intro srv_reach.init demo_new)

theorem rooms_never_share_ports_witness:
  "distinct (map (port \<circ> ch_port \<circ> snd) (channels demo_server)) \<and>
    distinct (map (ch_fwd \<circ> snd) (channels demo_server)) \<and>
    length (channels demo_server) \<le> unat (2 :: u16)"
  by (rule rooms_never_share_ports [OF demo_server_reach])

text \<open>
  Assigning a room. A room the server does not know is refused as exhausted exactly when
  every port is taken; a refused room, exhausted or not bound, leaves the server as it was, its
  port free again; otherwise the room is hosted with an empty roster, on a port no other room
  has, and the other rooms are untouched.
\<close>

theorem assign_channel_outcomes:
  assumes "srv_reach io os_port first_port limit srv" and "map_of (channels srv) room = None"
    and "assign_channel bind_ok now room srv = (srv', r)"
  shows "(r = Inl PortsExhausted \<longleftrightarrow> length (channels srv) = unat limit) \<and>
    (case r of
       Inl e \<Rightarrow> srv' = srv
     | Inr c \<Rightarrow> bind_ok (ch_port c) \<and> get_channel srv' room = Some c \<and>
         hosted srv' = (hosted srv)(room \<mapsto> Map.empty) \<and>
         port (ch_port c) \<notin> (port \<circ> ch_port \<circ> snd) ` set (channels srv))"
proof -
  note ports = srv_reach_ports [OF assms(1)]
  have rooms: "rooms_ok srv" using srv_reach_inv [OF assms(1)] by (simp add: srv_inv_def)
  show ?thesis
  proof (cases rule: assign_channel_cases [of srv room bind_ok now])
    case (started ps p)
    let ?c = "\<lparr>ch_fwd = length (forwarders srv), ch_port = p\<rparr>"
    have r: "r = Inr ?c" "channels srv' = hm_insert room ?c (channels srv)"
      "forwarders srv' = forwarders srv @ [(room, forwarder_new now)]"
      using started(4) assms(3) by auto
    have new: "get_channel srv' room = Some ?c"
      using r by (simp add: get_channel_Some update_conv' fwd_at_def forwarder_new_def)
    have "get_channel srv' r' = get_channel srv r'" "hosted srv' r' = hosted srv r'" if "r' \<noteq> room" for r'
      using rooms_okD(2) [OF rooms, of r'] that
      by (cases "map_of (channels srv) r'";
          simp add: hosted_def get_channel_def healthy_def r update_conv' fwd_at_def nth_append)+
    moreover have "hosted srv' room = Some Map.empty"
      using new r by (simp add: hosted_def fwd_at_def roster_of_def forwarder_new_def fun_eq_iff)
    ultimately have "hosted srv' = (hosted srv)(room \<mapsto> Map.empty)" by auto
    moreover have "port p \<notin> (port \<circ> ch_port \<circ> snd) ` set (channels srv)"
    proof -
      have "srv_reach io os_port first_port limit srv'"
        using srv_reach.step [OF assms(1) srv_step.assign, of bind_ok now room] assms(3) by simp
      then have "distinct (map (port \<circ> ch_port \<circ> snd) (hm_insert room ?c (channels srv)))"
        using srv_reach_ports(1) r(2) by metis
      moreover have "mset (map (port \<circ> ch_port \<circ> snd) (hm_insert room ?c (channels srv))) =
          mset (port p # map (port \<circ> ch_port \<circ> snd) (channels srv))"
        using mset_values_update [OF assms(2), of "port \<circ> ch_port" ?c] by (simp add: comp_assoc)
      ultimately have "distinct (port p # map (port \<circ> ch_port \<circ> snd) (channels srv))"
        using mset_eq_imp_distinct_iff by blast
      then show ?thesis by simp
    qed
    ultimately show ?thesis
      using started(2,3) ports(3) new r(1) by auto
  qed (use assms ports(3) in auto)
qed

theorem assign_channel_outcomes_witness:
  "assign_channel (\<lambda>p. True) 5 3 demo_server = (demo_server, Inl PortsExhausted)"
proof -
  obtain srv' r where a: "assign_channel (\<lambda>p. True) 5 3 demo_server = (srv', r)" by fastforce
  have "map_of (channels demo_server) 3 = None" "length (channels demo_server) = unat (2 :: u16)"
    by (simp_all add: demo_server_eq)
  with assign_channel_outcomes [OF demo_server_reach this(1) a] a show ?thesis by auto
qed

text \<open>
  C14: Requests to a server. A request handled promptly on a reachable server answers and acts on
  the roster of its room: opening a connection yields the room's socket and the new source id,
  establishing needs an open connection that has not stopped, the user status is the roster's,
  leaving always succeeds; on a room not hosted each fails with \<open>ChannelNotFound\<close>, and no request
  touches another room.
\<close>

theorem requests_refine_hosted_rosters:
  assumes "srv_reach (re_io e) os_port first_port limit srv" and "prompt e srv"
  shows "(case (open_connection e oreq srv, get_channel srv (oc_channel_id oreq)) of
       ((srv', r), None) \<Rightarrow> r = Inl ChannelNotFound \<and> srv' = srv
     | ((srv', r), Some c) \<Rightarrow> r = Inr \<lparr>cd_sock = sa_from (host_addr srv) (port (ch_port c)),
                        cd_source_id = re_source e\<rparr> \<and>
         hosted srv' = (hosted srv)(oc_channel_id oreq \<mapsto>
           (the (hosted srv (oc_channel_id oreq)))(oc_client_id oreq \<mapsto> Waiting))) \<and>
    (case (establish_session e ereq srv, hosted srv (es_channel_id ereq)) of
       ((srv', r), None) \<Rightarrow> r = Inl ChannelNotFound \<and> srv' = srv
     | ((srv', r), Some m) \<Rightarrow>
         hosted srv' = (hosted srv)(es_channel_id ereq \<mapsto>
           spec_ctl (Establish (es_client_id ereq) (es_client_addr ereq)) m) \<and>
         (case m (es_client_id ereq) of
            None \<Rightarrow> r = Inl PeerNotFound
          | Some Stopped \<Rightarrow> r = Inl OtherError
          | Some _ \<Rightarrow> (case r of Inr k \<Rightarrow> True | Inl x \<Rightarrow> False))) \<and>
    (case user_status e room cl srv of (srv', r) \<Rightarrow>
       r = (case hosted srv room of
           None \<Rightarrow> Inl ChannelNotFound
         | Some m \<Rightarrow> (case m cl of None \<Rightarrow> Inl PeerNotFound | Some st \<Rightarrow> Inr st)) \<and>
       hosted srv' = hosted srv) \<and>
    (case (leave e room cl srv, hosted srv room) of
       ((srv', r), None) \<Rightarrow> r = Inl ChannelNotFound \<and> srv' = srv
     | ((srv', r), Some m) \<Rightarrow>
         r = Inr () \<and> hosted srv' = (hosted srv)(room \<mapsto> spec_ctl (Leave cl) m))"
proof (intro conjI)
  note inv = srv_reach_inv [OF assms(1)]
  show "case (open_connection e oreq srv, get_channel srv (oc_channel_id oreq)) of
       ((srv', r), None) \<Rightarrow> r = Inl ChannelNotFound \<and> srv' = srv
     | ((srv', r), Some c) \<Rightarrow> r = Inr \<lparr>cd_sock = sa_from (host_addr srv) (port (ch_port c)),
                        cd_source_id = re_source e\<rparr> \<and>
         hosted srv' = (hosted srv)(oc_channel_id oreq \<mapsto>
           (the (hosted srv (oc_channel_id oreq)))(oc_client_id oreq \<mapsto> Waiting))"
    using open_prompt [OF inv assms(2), of oreq]
    by (cases "open_connection e oreq srv") (auto split: option.splits)
  show "case (establish_session e ereq srv, hosted srv (es_channel_id ereq)) of
       ((srv', r), None) \<Rightarrow> r = Inl ChannelNotFound \<and> srv' = srv
     | ((srv', r), Some m) \<Rightarrow>
         hosted srv' = (hosted srv)(es_channel_id ereq \<mapsto>
           spec_ctl (Establish (es_client_id ereq) (es_client_addr ereq)) m) \<and>
         (case m (es_client_id ereq) of
            None \<Rightarrow> r = Inl PeerNotFound
          | Some Stopped \<Rightarrow> r = Inl OtherError
          | Some _ \<Rightarrow> (case r of Inr k \<Rightarrow> True | Inl x \<Rightarrow> False))"
    using establish_prompt [OF inv assms(2), of ereq]
    by (cases "establish_session e ereq srv"; cases "hosted srv (es_channel_id ereq)") simp_all
  show "case user_status e room cl srv of (srv', r) \<Rightarrow>
       r = (case hosted srv room of
           None \<Rightarrow> Inl ChannelNotFound
         | Some m \<Rightarrow> (case m cl of None \<Rightarrow> Inl PeerNotFound | Some st \<Rightarrow> Inr st)) \<and>
       hosted srv' = hosted srv"
    using user_status_prompt [OF inv assms(2), of room cl]
    by (cases "user_status e room cl srv") simp
  show "case (leave e room cl srv, hosted srv room) of
       ((srv', r), None) \<Rightarrow> r = Inl ChannelNotFound \<and> srv' = srv
     | ((srv', r), Some m) \<Rightarrow>
         r = Inr () \<and> hosted srv' = (hosted srv)(room \<mapsto> spec_ctl (Leave cl) m)"
    using leave_prompt [OF inv assms(2), of room cl]
    by (cases "leave e room cl srv"; cases "hosted srv room") simp_all
qed

definition demo_env :: request_env where
  "demo_env = \<lparr>re_io = demo_io, re_now = 3, re_source = 77, re_key = [4], re_lag = ([], [])\<rparr>"

lemma demo_prompt: "prompt demo_env demo_server"
  by (simp add: prompt_def demo_env_def demo_server_eq forwarder_new_def)

lemma demo_hosted: "hosted demo_server 3 = None" "get_channel demo_server 1 \<noteq> None"
  by (simp_all add: hosted_def get_channel_def healthy_def demo_server_eq fwd_at_def forwarder_new_def)

theorem requests_refine_hosted_rosters_witness:
  "leave demo_env 3 5 demo_server = (demo_server, Inl ChannelNotFound) \<and>
   snd (open_connection demo_env
      \<lparr>oc_user_name = ''ann'', oc_channel_id = 1, oc_client_id = 5\<rparr> demo_server) =
     Inr \<lparr>cd_sock = SocketV4 0x7F000001 33333, cd_source_id = 77\<rparr>"
proof -
  have reach: "srv_reach (re_io demo_env) None 33333 2 demo_server"
    using demo_server_reach by (simp add: demo_env_def)
  have c: "get_channel demo_server 1 = Some \<lparr>ch_fwd = 0, ch_port = \<lparr>port = 33333, slot = 0\<rparr>\<rparr>"
    by (simp add: get_channel_def healthy_def demo_server_eq fwd_at_def forwarder_new_def)
  let ?req = "\<lparr>oc_user_name = ''ann'', oc_channel_id = 1, oc_client_id = 5\<rparr>"
  note R = requests_refine_hosted_rosters [OF reach demo_prompt, of ?req _ 5 3]
  have facts: "host_addr demo_server = V4 0x7F000001" "re_source demo_env = 77"
    by (simp_all add: demo_server_eq demo_env_def)
  have "leave demo_env 3 5 demo_server = (demo_server, Inl ChannelNotFound)"
    using R demo_hosted(1) by (cases "leave demo_env 3 5 demo_server") simp
  moreover have "snd (open_connection demo_env ?req demo_server) =
      Inr \<lparr>cd_sock = SocketV4 0x7F000001 33333, cd_source_id = 77\<rparr>"
    using R c facts by (cases "open_connection demo_env ?req demo_server") simp
  ultimately show ?thesis by simp
qed

text \<open>
  Cleanup. When the end notification of a channel is handled, its room is no longer known, a
  port is free again, and every hosted room stays hosted with its roster.
\<close>

theorem cleanup_frees_room_and_port:
  assumes "srv_reach io os_port first_port limit srv" and "i < length (forwarders srv)"
    and "status (fwd_at srv i) = Ended" and "i \<notin> set (cleaned srv)"
  shows "map_of (channels (cleanup i srv)) (fst (forwarders srv ! i)) = None \<and>
    hosted (cleanup i srv) = hosted srv \<and> ports_get (vs_ports (cleanup i srv)) \<noteq> None"
proof -
  let ?room = "fst (forwarders srv ! i)"
  have rooms: "rooms_ok srv" using srv_reach_inv [OF assms(1)] by (simp add: srv_inv_def)
  obtain c where c: "map_of (channels srv) ?room = Some c" "ch_fwd c = i"
    using rooms_okD(5) [OF rooms assms(2,4)] by blast
  have chans: "channels (cleanup i srv) = hm_remove ?room (channels srv)"
    by (simp add: cleanup_def Let_def)
  have at: "fwd_at (cleanup i srv) j = fwd_at srv j" for j
    by (simp add: cleanup_def Let_def fwd_at_def)
  have "hosted (cleanup i srv) r = hosted srv r" for r
    using c assms(3) by (cases "r = ?room"; cases "map_of (channels srv) r")
      (auto simp: hosted_def get_channel_def healthy_def chans delete_conv' at)
  moreover have "ports_get (vs_ports (cleanup i srv)) \<noteq> None"
  proof -
    have "srv_reach io os_port first_port limit (cleanup i srv)"
      using srv_reach.step [OF assms(1) srv_step.cleanup] assms(2-4) by blast
    moreover have "length (channels (cleanup i srv)) < length (channels srv)"
      using mset_values_delete [of "channels srv" ?room c id] rooms_okD(1) [OF rooms] c chans
      by (metis lessI length_map size_add_mset size_mset)
    ultimately show ?thesis
      using srv_reach_ports(2) [OF assms(1)] srv_reach_ports(3) by fastforce
  qed
  ultimately show ?thesis by (simp add: chans delete_conv' fun_eq_iff)
qed

definition demo_ended :: voice_server where
  "demo_ended = set_fwd 1 (fst (fwd_step demo_io 5000 EvIdle (fwd_at demo_server 1))) demo_server"

lemma demo_ended_facts:
  "srv_reach demo_io None 33333 2 demo_ended" "1 < length (forwarders demo_ended)"
  "status (fwd_at demo_ended 1) = Ended" "1 \<notin> set (cleaned demo_ended)"
proof -
  show "srv_reach demo_io None 33333 2 demo_ended"
    unfolding demo_ended_def
    by (rule srv_reach.step [OF demo_server_reach srv_step.forward]) (simp_all add: demo_server_eq)
qed (simp_all add: demo_ended_def demo_server_eq fwd_at_def fwd_step_def forwarder_new_def
    CHANNEL_IDLE_TIMEOUT_def set_fwd_def)

theorem cleanup_frees_room_and_port_witness:
  "map_of (channels (cleanup 1 demo_ended)) (fst (forwarders demo_ended ! 1)) = None \<and>
    hosted (cleanup 1 demo_ended) = hosted demo_ended \<and>
    ports_get (vs_ports (cleanup 1 demo_ended)) \<noteq> None"
  by (rule cleanup_frees_room_and_port [OF demo_ended_facts])

text \<open>
  A crashed channel is for ever. Once the forwarder of a room has panicked, whatever the
  server does next, assigning the room hands out the dead channel and every request for the
  room fails with \<open>ChannelNotFound\<close>.
\<close>

theorem crashed_room_never_recovers:
  assumes "srv_reach io os_port first_port limit srv" and "(srv_step io)\<^sup>*\<^sup>* srv srv'"
    and "map_of (channels srv) room = Some c" and "status (fwd_at srv (ch_fwd c)) = Crashed"
  shows "assign_channel bind_ok now room srv' = (srv', Inr c) \<and>
    user_status e room cl srv' = (srv', Inl ChannelNotFound)"
proof -
  have "srv_reach io os_port first_port limit srv' \<and> map_of (channels srv') room = Some c \<and>
      status (fwd_at srv' (ch_fwd c)) = Crashed"
    using assms(2)
  proof (induction rule: rtranclp_induct)
    case (step y z)
    then show ?case
      using crashed_stays [OF srv_reach_inv step(2)] by (blast intro: srv_reach.step)
  qed (use assms in simp)
  then show ?thesis
    by (simp add: assign_channel_def user_status_def get_channel_def healthy_def)
qed

definition demo_crashed :: voice_server where
  "demo_crashed = set_fwd 0 (fst (fwd_step demo_io 5 (EvDatagram demo_addr \<lparr>cm_payload = None\<rparr>)
     (fwd_at demo_server 0))) demo_server"

lemma demo_crashed_facts:
  "srv_reach demo_io None 33333 2 demo_crashed"
  "map_of (channels demo_crashed) 1 = Some \<lparr>ch_fwd = 0, ch_port = \<lparr>port = 33333, slot = 0\<rparr>\<rparr>"
  "status (fwd_at demo_crashed 0) = Crashed"
proof -
  show "srv_reach demo_io None 33333 2 demo_crashed"
    unfolding demo_crashed_def
    by (rule srv_reach.step [OF demo_server_reach srv_step.forward]) (simp_all add: demo_server_eq)
qed (simp_all add: demo_crashed_def demo_server_eq fwd_at_def fwd_step_def forwarder_new_def
    socket_msg_def set_fwd_def)

theorem crashed_room_never_recovers_witness:
  "assign_channel (\<lambda>p. True) 9 1 demo_crashed =
     (demo_crashed, Inr \<lparr>ch_fwd = 0, ch_port = \<lparr>port = 33333, slot = 0\<rparr>\<rparr>) \<and>
   user_status demo_env 1 5 demo_crashed = (demo_crashed, Inl ChannelNotFound)"
  by (rule crashed_room_never_recovers [OF demo_crashed_facts(1) _ demo_crashed_facts(2)])
    (simp_all add: demo_crashed_facts(3))

end
