(* ===== verification/Registry.thy ===== *)
theory Registry
  imports Voices_Prelude
begin

text \<open>
  The channel registry, \<open>ChannelsImpl\<close> in \<open>server/channels/core/src/lib.rs\<close>, over the tables of
  \<open>server/channels/core/migrations\<close> and the queries of \<open>db_models/\<close> and \<open>db.rs\<close>. A table is the
  list of its rows. UUIDs the database generates and the time are arguments. PostgreSQL decides
  which row a tie in \<open>ORDER BY\<close> yields; \<open>tie\<close> is that decision.
\<close>

section \<open>Tables\<close>

record server_row =
  sr_id :: uuid
  sr_name :: string

record channel_row =
  cr_id :: uuid
  cr_server_id :: uuid
  cr_assigned_to :: "uuid option"
  cr_name :: string
  cr_updated_at :: instant

record voice_server_row =
  vr_id :: uuid
  vr_host_url :: string
  vr_last_seen :: instant

record db =
  servers :: "server_row list"
  channel_rows :: "channel_row list"
  voice_servers :: "voice_server_row list"
  servers_members :: "(uuid \<times> uuid) list"

definition empty_db :: db where
  "empty_db = \<lparr>servers = [], channel_rows = [], voice_servers = [], servers_members = []\<rparr>"

datatype db_error = ForeignKeyViolation | UniqueViolation | BadLimit

text \<open>\<open>voice_server_staleness_duration\<close>: 35 seconds.\<close>

definition STALENESS :: instant where
  "STALENESS = 35000"

text \<open>The trigger \<open>set_updated_at\<close>: a row that really changes gets the current time.\<close>

definition touched :: "instant \<Rightarrow> channel_row \<Rightarrow> channel_row \<Rightarrow> channel_row" where
  "touched now old new =
     (if new \<noteq> old \<and> cr_updated_at new = cr_updated_at old then new\<lparr>cr_updated_at := now\<rparr> else new)"

section \<open>Queries\<close>

definition server_get :: "uuid \<Rightarrow> db \<Rightarrow> server_row option" where
  "server_get i d = List.find (\<lambda>r. sr_id r = i) (servers d)"

definition server_create :: "uuid \<Rightarrow> string \<Rightarrow> db \<Rightarrow> db \<times> (db_error + uuid)" where
  "server_create new_id name d =
     (if new_id \<in> sr_id ` set (servers d) then (d, Inl UniqueViolation)
      else (d\<lparr>servers := servers d @ [\<lparr>sr_id = new_id, sr_name = name\<rparr>]\<rparr>, Inr new_id))"

definition get_many :: "nat \<Rightarrow> nat \<Rightarrow> db \<Rightarrow> server_row list" where
  "get_many offset limit d = take limit (drop offset (servers d))"

definition server_channels :: "server_row \<Rightarrow> db \<Rightarrow> channel_row list" where
  "server_channels s d = filter (\<lambda>c. cr_server_id c = sr_id s) (channel_rows d)"

definition get_members_by_id :: "uuid \<Rightarrow> db \<Rightarrow> uuid list" where
  "get_members_by_id i d = map fst (filter (\<lambda>m. snd m = i) (servers_members d))"

definition join_by_id :: "uuid \<Rightarrow> uuid \<Rightarrow> db \<Rightarrow> db \<times> (db_error + unit)" where
  "join_by_id i member d =
     (if i \<notin> sr_id ` set (servers d) then (d, Inl ForeignKeyViolation)
      else if (member, i) \<in> set (servers_members d) then (d, Inl UniqueViolation)
      else (d\<lparr>servers_members := servers_members d @ [(member, i)]\<rparr>, Inr ()))"

definition channel_row_get :: "uuid \<Rightarrow> db \<Rightarrow> channel_row option" where
  "channel_row_get i d = List.find (\<lambda>r. cr_id r = i) (channel_rows d)"

definition channel_create ::
  "instant \<Rightarrow> uuid \<Rightarrow> uuid \<Rightarrow> string \<Rightarrow> db \<Rightarrow> db \<times> (db_error + uuid)" where
  "channel_create now new_id sid name d =
     (if sid \<notin> sr_id ` set (servers d) then (d, Inl ForeignKeyViolation)
      else if new_id \<in> cr_id ` set (channel_rows d) then (d, Inl UniqueViolation)
      else (d\<lparr>channel_rows := channel_rows d @ [\<lparr>cr_id = new_id, cr_server_id = sid,
              cr_assigned_to = None, cr_name = name, cr_updated_at = now\<rparr>]\<rparr>, Inr new_id))"

definition update_channels ::
  "instant \<Rightarrow> (channel_row \<Rightarrow> bool) \<Rightarrow> (channel_row \<Rightarrow> channel_row) \<Rightarrow> db \<Rightarrow> db" where
  "update_channels now sel g d =
     d\<lparr>channel_rows := map (\<lambda>c. if sel c then touched now c (g c) else c) (channel_rows d)\<rparr>"

definition assign_to ::
  "instant \<Rightarrow> uuid \<Rightarrow> uuid \<Rightarrow> bool \<Rightarrow> db \<Rightarrow> db \<times> (db_error + channel_row option)" where
  "assign_to now cid sid reassign d =
     (case channel_row_get cid d of
        None \<Rightarrow> (d, Inr None)
      | Some c \<Rightarrow>
          (if cr_assigned_to c \<noteq> None \<and> \<not> reassign then (d, Inr (Some c))
           else if sid \<notin> vr_id ` set (voice_servers d) then (d, Inl ForeignKeyViolation)
           else (let d' = update_channels now (\<lambda>r. cr_id r = cid)
                            (\<lambda>r. r\<lparr>cr_assigned_to := Some sid\<rparr>) d
                 in (d', Inr (channel_row_get cid d')))))"

definition unassign :: "instant \<Rightarrow> uuid \<Rightarrow> uuid \<Rightarrow> db \<Rightarrow> db" where
  "unassign now cid sid d =
     update_channels now (\<lambda>r. cr_id r = cid \<and> cr_assigned_to r = Some sid)
       (\<lambda>r. r\<lparr>cr_assigned_to := None\<rparr>) d"

text \<open>\<open>execute\<close> yields the number of rows, so the answer never tells whether there was one.\<close>

definition channel_delete :: "uuid \<Rightarrow> db \<Rightarrow> db \<times> bool" where
  "channel_delete cid d =
     (d\<lparr>channel_rows := filter (\<lambda>c. cr_id c \<noteq> cid) (channel_rows d)\<rparr>, True)"

text \<open>\<open>INSERT ... ON CONFLICT (id) DO UPDATE SET last_seen\<close>.\<close>

definition create_or_update :: "instant \<Rightarrow> uuid \<Rightarrow> string \<Rightarrow> db \<Rightarrow> db \<times> instant" where
  "create_or_update now i url d =
     (if i \<in> vr_id ` set (voice_servers d)
      then d\<lparr>voice_servers := map (\<lambda>r. if vr_id r = i then r\<lparr>vr_last_seen := now\<rparr> else r)
               (voice_servers d)\<rparr>
      else d\<lparr>voice_servers := voice_servers d @
               [\<lparr>vr_id = i, vr_host_url = url, vr_last_seen = now\<rparr>]\<rparr>, now)"

definition voice_server_get :: "uuid \<Rightarrow> db \<Rightarrow> voice_server_row option" where
  "voice_server_get i d = List.find (\<lambda>r. vr_id r = i) (voice_servers d)"

text \<open>\<open>last_seen > now - threshold\<close> and \<open>last_seen < now - threshold\<close>.\<close>

definition is_active :: "instant \<Rightarrow> instant \<Rightarrow> voice_server_row \<Rightarrow> bool" where
  "is_active now threshold r \<longleftrightarrow> now < vr_last_seen r + threshold"

definition is_stale :: "instant \<Rightarrow> instant \<Rightarrow> voice_server_row \<Rightarrow> bool" where
  "is_stale now threshold r \<longleftrightarrow> vr_last_seen r + threshold < now"

definition get_active :: "instant \<Rightarrow> uuid \<Rightarrow> instant \<Rightarrow> db \<Rightarrow> voice_server_row option" where
  "get_active now i threshold d =
     (case voice_server_get i d of
        None \<Rightarrow> None | Some r \<Rightarrow> (if is_active now threshold r then Some r else None))"

text \<open>Deleting a voice server sets \<open>assigned_to\<close> of its channels to null.\<close>

definition cleanup_stale :: "instant \<Rightarrow> instant \<Rightarrow> db \<Rightarrow> db \<times> uuid list" where
  "cleanup_stale now threshold d =
     (let gone = map vr_id (filter (is_stale now threshold) (voice_servers d));
          d1 = d\<lparr>voice_servers := filter (\<lambda>r. \<not> is_stale now threshold r) (voice_servers d)\<rparr>
      in (update_channels now (\<lambda>c. \<exists>i \<in> set gone. cr_assigned_to c = Some i)
            (\<lambda>c. c\<lparr>cr_assigned_to := None\<rparr>) d1, gone))"

definition load_of :: "db \<Rightarrow> voice_server_row \<Rightarrow> nat" where
  "load_of d r = length (filter (\<lambda>c. cr_assigned_to c = Some (vr_id r)) (channel_rows d))"

definition get_smallest_load ::
  "nat \<Rightarrow> instant \<Rightarrow> instant \<Rightarrow> db \<Rightarrow> (voice_server_row \<times> nat) option" where
  "get_smallest_load tie now threshold d =
     (let active = filter (is_active now threshold) (voice_servers d)
      in if active = [] then None
         else (let least = Min (set (map (load_of d) active));
                   best = filter (\<lambda>r. load_of d r = least) active;
                   r = best ! (tie mod length best)
               in Some (r, load_of d r)))"

section \<open>Pagination\<close>

text \<open>\<open>i64\<close> arithmetic that wraps in a release build.\<close>

definition wrap64 :: "int \<Rightarrow> int" where
  "wrap64 x = signed_take_bit 63 x"

definition DEFAULT_PER_PAGE :: int where
  "DEFAULT_PER_PAGE = 10"

record paginated =
  pg_page :: int
  pg_per_page :: int
  pg_offset :: int

definition paginate :: "int \<Rightarrow> paginated" where
  "paginate page = \<lparr>pg_page = page, pg_per_page = DEFAULT_PER_PAGE,
     pg_offset = wrap64 (wrap64 (page - 1) * DEFAULT_PER_PAGE)\<rparr>"

definition per_page :: "int \<Rightarrow> paginated \<Rightarrow> paginated" where
  "per_page n p = p\<lparr>pg_per_page := n, pg_offset := wrap64 (wrap64 (pg_page p - 1) * n)\<rparr>"

text \<open>
  \<open>SELECT *, COUNT( * ) OVER () ... LIMIT ... OFFSET\<close>: every row carries the total; a negative
  limit or offset is refused.
\<close>

definition run_paginated :: "paginated \<Rightarrow> 'r list \<Rightarrow> db_error + ('r \<times> int) list" where
  "run_paginated p rows =
     (if pg_per_page p < 0 \<or> pg_offset p < 0 then Inl BadLimit
      else Inr (map (\<lambda>r. (r, int (length rows)))
             (take (nat (pg_per_page p)) (drop (nat (pg_offset p)) rows))))"

text \<open>The quotient is rounded up; for a page size of 0 it is not a number, which casts to 0.\<close>

definition load_and_count_pages :: "paginated \<Rightarrow> 'r list \<Rightarrow> db_error + ('r list \<times> int)" where
  "load_and_count_pages p rows =
     (case run_paginated p rows of
        Inl e \<Rightarrow> Inl e
      | Inr results \<Rightarrow>
          (let total = (case results of [] \<Rightarrow> 0 | x # xs \<Rightarrow> snd x);
               pages = (if pg_per_page p = 0 then 0
                        else (total + pg_per_page p - 1) div pg_per_page p)
           in Inr (map fst results, pages)))"

section \<open>The operations of the registry\<close>

record channel_info =
  ch_id :: uuid
  ch_name :: string

record server_with_channels =
  swc_id :: uuid
  swc_name :: string
  swc_channels :: "channel_info list"

record channel_model =
  cm_info :: channel_info
  cm_server_id :: uuid
  cm_assigned_to :: "string option"
  cm_updated_at :: instant

definition cleanup_stale_voice_servers :: "instant \<Rightarrow> db \<Rightarrow> db \<times> uuid list" where
  "cleanup_stale_voice_servers now d = cleanup_stale now STALENESS d"

definition register_voice_server :: "instant \<Rightarrow> uuid \<Rightarrow> string \<Rightarrow> db \<Rightarrow> db \<times> instant" where
  "register_voice_server now i url d =
     (let (d', refreshed_at) = create_or_update now i url d in (d', refreshed_at + STALENESS))"

definition get_servers :: "int \<Rightarrow> int \<Rightarrow> db \<Rightarrow> db_error + (server_row list \<times> int)" where
  "get_servers page n d = load_and_count_pages (per_page n (paginate page)) (servers d)"

definition info_of :: "channel_row \<Rightarrow> channel_info" where
  "info_of c = \<lparr>ch_id = cr_id c, ch_name = cr_name c\<rparr>"

definition get_server :: "uuid \<Rightarrow> db \<Rightarrow> server_with_channels option" where
  "get_server sid d = (case server_get sid d of
      None \<Rightarrow> None
    | Some s \<Rightarrow> Some \<lparr>swc_id = sr_id s, swc_name = sr_name s,
                      swc_channels = map info_of (server_channels s d)\<rparr>)"

definition get_channel :: "instant \<Rightarrow> uuid \<Rightarrow> db \<Rightarrow> channel_model option" where
  "get_channel now cid d =
     (case channel_row_get cid d of
        None \<Rightarrow> None
      | Some c \<Rightarrow> Some \<lparr>cm_info = info_of c, cm_server_id = cr_server_id c,
          cm_assigned_to = Option.bind (cr_assigned_to c)
            (\<lambda>i. map_option vr_host_url (get_active now i STALENESS d)),
          cm_updated_at = cr_updated_at c\<rparr>)"

datatype assign_failure = NoVoiceServers | AssignDb db_error

text \<open>The result of \<open>assign_to\<close> is not looked at, only its error.\<close>

definition assign_channel ::
  "nat \<Rightarrow> instant \<Rightarrow> uuid \<Rightarrow> bool \<Rightarrow> db \<Rightarrow> db \<times> (assign_failure + voice_server_row)" where
  "assign_channel tie now cid reassign d =
     (case get_smallest_load tie now STALENESS d of
        None \<Rightarrow> (d, Inl NoVoiceServers)
      | Some (srv, load) \<Rightarrow>
          (case assign_to now cid (vr_id srv) reassign d of
             (d', Inl e) \<Rightarrow> (d', Inl (AssignDb e))
           | (d', Inr c) \<Rightarrow> (d', Inr srv)))"

definition unassign_channel :: "instant \<Rightarrow> uuid \<Rightarrow> uuid \<Rightarrow> db \<Rightarrow> db" where
  "unassign_channel now sid cid d = unassign now cid sid d"

section \<open>Histories\<close>

text \<open>Every database the operations can produce.\<close>

inductive db_reach :: "db \<Rightarrow> bool" where
  empty: "db_reach empty_db"
| server: "db_reach d \<Longrightarrow> db_reach (fst (server_create i name d))"
| channel: "db_reach d \<Longrightarrow> db_reach (fst (channel_create now i sid name d))"
| member: "db_reach d \<Longrightarrow> db_reach (fst (join_by_id i m d))"
| register: "db_reach d \<Longrightarrow> db_reach (fst (register_voice_server now i url d))"
| assign: "db_reach d \<Longrightarrow> db_reach (fst (assign_channel tie now cid reassign d))"
| unassign: "db_reach d \<Longrightarrow> db_reach (unassign_channel now sid cid d)"
| delete: "db_reach d \<Longrightarrow> db_reach (fst (channel_delete cid d))"
| cleanup: "db_reach d \<Longrightarrow> db_reach (fst (cleanup_stale_voice_servers now d))"

section \<open>Referential integrity\<close>

definition db_ok :: "db \<Rightarrow> bool" where
  "db_ok d \<longleftrightarrow> distinct (map sr_id (servers d)) \<and> distinct (map cr_id (channel_rows d)) \<and>
     distinct (map vr_id (voice_servers d)) \<and> distinct (servers_members d) \<and>
     cr_server_id ` set (channel_rows d) \<subseteq> sr_id ` set (servers d) \<and>
     snd ` set (servers_members d) \<subseteq> sr_id ` set (servers d) \<and>
     (\<forall>c \<in> set (channel_rows d). set_option (cr_assigned_to c) \<subseteq> vr_id ` set (voice_servers d))"

lemma touched_facts [simp]:
  "cr_id (touched now old new) = cr_id new" "cr_server_id (touched now old new) = cr_server_id new"
  "cr_assigned_to (touched now old new) = cr_assigned_to new"
  "cr_name (touched now old new) = cr_name new"
  by (simp_all add: touched_def)

lemma update_channels_facts [simp]:
  "servers (update_channels now sel g d) = servers d"
  "voice_servers (update_channels now sel g d) = voice_servers d"
  "servers_members (update_channels now sel g d) = servers_members d"
  by (simp_all add: update_channels_def)

lemma find_distinct:
  "distinct (map key xs) \<Longrightarrow> List.find (\<lambda>r. key r = k) xs = Some x \<longleftrightarrow> x \<in> set xs \<and> key x = k"
  by (induction xs) auto

lemma find_none: "List.find (\<lambda>r. key r = k) xs = None \<longleftrightarrow> k \<notin> key ` set xs"
  by (auto simp: find_None_iff)

lemma update_channels_map:
  assumes "\<And>r. f (touched now r (g r)) = f r"
  shows "map f (channel_rows (update_channels now sel g d)) = map f (channel_rows d)"
  by (simp add: update_channels_def assms)

lemma db_ok_update:
  assumes "db_ok d" and "\<And>r. cr_id (g r) = cr_id r" and "\<And>r. cr_server_id (g r) = cr_server_id r"
    and "\<And>r. r \<in> set (channel_rows d) \<Longrightarrow> sel r \<Longrightarrow>
      set_option (cr_assigned_to (g r)) \<subseteq> vr_id ` set (voice_servers d)"
  shows "db_ok (update_channels now sel g d)"
proof -
  have "map cr_id (channel_rows (update_channels now sel g d)) = map cr_id (channel_rows d)"
    "map cr_server_id (channel_rows (update_channels now sel g d)) = map cr_server_id (channel_rows d)"
    using assms(2,3) by (auto intro!: update_channels_map)
  then have "distinct (map cr_id (channel_rows (update_channels now sel g d)))"
    "cr_server_id ` set (channel_rows (update_channels now sel g d)) = cr_server_id ` set (channel_rows d)"
    using assms(1) by (auto simp: db_ok_def simp flip: set_map)
  moreover have "\<forall>c \<in> set (channel_rows (update_channels now sel g d)).
      set_option (cr_assigned_to c) \<subseteq> vr_id ` set (voice_servers d)"
  proof
    fix c assume "c \<in> set (channel_rows (update_channels now sel g d))"
    then obtain c0 where c0: "c0 \<in> set (channel_rows d)"
        "c = (if sel c0 then touched now c0 (g c0) else c0)"
      by (auto simp: update_channels_def)
    then show "set_option (cr_assigned_to c) \<subseteq> vr_id ` set (voice_servers d)"
      using assms(1) assms(4) [OF c0(1)] unfolding db_ok_def by (cases "sel c0") simp_all
  qed
  ultimately show ?thesis using assms(1) by (simp add: db_ok_def)
qed

lemma db_ok_assign_to: "db_ok d \<Longrightarrow> db_ok (fst (assign_to now cid sid reassign d))"
  by (auto simp: assign_to_def Let_def split: option.splits intro!: db_ok_update)

lemma db_ok_voice:
  assumes "db_ok d" and "distinct (map vr_id vs)"
    and "vr_id ` set (voice_servers d) \<subseteq> vr_id ` set vs"
  shows "db_ok (d\<lparr>voice_servers := vs\<rparr>)"
  using assms unfolding db_ok_def by (auto simp: subset_iff)

lemma db_ok_register: "db_ok d \<Longrightarrow> db_ok (fst (create_or_update now i url d))"
proof -
  assume ok: "db_ok d"
  let ?vs = "map (\<lambda>r. if vr_id r = i then r\<lparr>vr_last_seen := now\<rparr> else r) (voice_servers d)"
  have ids: "map vr_id ?vs = map vr_id (voice_servers d)" by simp
  show ?thesis
  proof (cases "i \<in> vr_id ` set (voice_servers d)")
    case True
    have "vr_id ` set ?vs = vr_id ` set (voice_servers d)"
      unfolding set_map [symmetric] ids ..
    moreover have "distinct (map vr_id ?vs)"
      unfolding ids using ok by (simp only: db_ok_def)
    ultimately have "db_ok (d\<lparr>voice_servers := ?vs\<rparr>)"
      using db_ok_voice [OF ok, of ?vs] by simp
    then show ?thesis unfolding create_or_update_def using True by simp
  next
    case False
    then have "db_ok (d\<lparr>voice_servers := voice_servers d @
        [\<lparr>vr_id = i, vr_host_url = url, vr_last_seen = now\<rparr>]\<rparr>)"
      using ok by (intro db_ok_voice [OF ok]) (auto simp: db_ok_def)
    then show ?thesis unfolding create_or_update_def using False by simp
  qed
qed

lemma db_ok_cleanup: "db_ok d \<Longrightarrow> db_ok (fst (cleanup_stale now threshold d))"
proof -
  assume ok: "db_ok d"
  let ?d1 = "d\<lparr>voice_servers := filter (\<lambda>r. \<not> is_stale now threshold r) (voice_servers d)\<rparr>"
  let ?gone = "map vr_id (filter (is_stale now threshold) (voice_servers d))"
  let ?d2 = "update_channels now (\<lambda>c. \<exists>i \<in> set ?gone. cr_assigned_to c = Some i)
    (\<lambda>c. c\<lparr>cr_assigned_to := None\<rparr>) ?d1"
  have "map cr_id (channel_rows ?d2) = map cr_id (channel_rows d)"
    "map cr_server_id (channel_rows ?d2) = map cr_server_id (channel_rows d)"
    using update_channels_map [of cr_id now "\<lambda>c. c\<lparr>cr_assigned_to := None\<rparr>" _ ?d1]
      update_channels_map [of cr_server_id now "\<lambda>c. c\<lparr>cr_assigned_to := None\<rparr>" _ ?d1] by auto
  then have "distinct (map cr_id (channel_rows ?d2))"
    "cr_server_id ` set (channel_rows ?d2) = cr_server_id ` set (channel_rows d)"
    using ok by (auto simp: db_ok_def simp flip: set_map)
  moreover have "set_option (cr_assigned_to c) \<subseteq> vr_id ` set (voice_servers ?d1)"
    if c: "c \<in> set (channel_rows ?d2)" for c
  proof -
    have "c \<in> (\<lambda>c0. if \<exists>i \<in> set ?gone. cr_assigned_to c0 = Some i
        then touched now c0 (c0\<lparr>cr_assigned_to := None\<rparr>) else c0) ` set (channel_rows d)"
      using c unfolding update_channels_def by simp
    then obtain c0 where c0: "c0 \<in> set (channel_rows d)"
        "c = (if \<exists>i \<in> set ?gone. cr_assigned_to c0 = Some i
          then touched now c0 (c0\<lparr>cr_assigned_to := None\<rparr>) else c0)"
      by blast
    then have "set_option (cr_assigned_to c0) \<subseteq> vr_id ` set (voice_servers d)"
      using ok by (auto simp: db_ok_def)
    then show ?thesis using c0(2) by (cases "cr_assigned_to c0") auto
  qed
  moreover have "distinct (map vr_id (voice_servers ?d1))"
    using ok by (simp add: db_ok_def distinct_map_filter)
  ultimately show ?thesis using ok by (auto simp: cleanup_stale_def Let_def db_ok_def)
qed

text \<open>Every operation keeps the references valid.\<close>

lemma db_ok_kept:
  assumes "db_ok d"
  shows "db_ok (fst (server_create i name d))"
    and "db_ok (fst (channel_create now i sid name d))"
    and "db_ok (fst (join_by_id i m d))"
    and "db_ok (fst (register_voice_server now i url d))"
    and "db_ok (fst (assign_channel tie now cid reassign d))"
    and "db_ok (unassign_channel now sid cid d)"
    and "db_ok (fst (channel_delete cid d))"
    and "db_ok (fst (cleanup_stale_voice_servers now d))"
proof -
  show "db_ok (fst (register_voice_server now i url d))"
    using db_ok_register [OF assms, of now i url] by (simp add: register_voice_server_def case_prod_beta)
  show "db_ok (fst (assign_channel tie now cid reassign d))"
  proof (cases "get_smallest_load tie now STALENESS d")
    case (Some p)
    then show ?thesis
      using db_ok_assign_to [OF assms, of now cid "vr_id (fst p)" reassign]
      by (simp add: assign_channel_def case_prod_beta split: sum.split)
  qed (simp add: assign_channel_def assms)
  show "db_ok (unassign_channel now sid cid d)"
    using assms by (auto simp: unassign_channel_def unassign_def intro!: db_ok_update)
  show "db_ok (fst (channel_delete cid d))"
    using assms by (auto simp: channel_delete_def db_ok_def distinct_map_filter)
  show "db_ok (fst (cleanup_stale_voice_servers now d))"
    using db_ok_cleanup [OF assms] by (simp add: cleanup_stale_voice_servers_def)
qed (use assms in \<open>auto simp: db_ok_def server_create_def channel_create_def join_by_id_def\<close>)

lemma db_reach_ok: "db_reach d \<Longrightarrow> db_ok d"
  by (induction rule: db_reach.induct) (simp_all add: db_ok_kept, simp add: db_ok_def empty_db_def)

section \<open>The smallest load\<close>

lemma smallest_load_Some:
  assumes "get_smallest_load tie now threshold d = Some (r, n)"
  shows "r \<in> set (voice_servers d)" and "is_active now threshold r" and "n = load_of d r"
    and "r' \<in> set (voice_servers d) \<Longrightarrow> is_active now threshold r' \<Longrightarrow> load_of d r \<le> load_of d r'"
proof -
  let ?active = "filter (is_active now threshold) (voice_servers d)"
  let ?least = "Min (set (map (load_of d) ?active))"
  let ?best = "filter (\<lambda>r. load_of d r = ?least) ?active"
  have ne: "?active \<noteq> []" and r: "r = ?best ! (tie mod length ?best)" "n = load_of d r"
    using assms by (auto simp: get_smallest_load_def Let_def split: if_splits)
  have "set (map (load_of d) ?active) \<noteq> {}" using ne by (simp only: set_empty map_is_Nil_conv) simp
  then have "?least \<in> set (map (load_of d) ?active)" by (intro Min_in) simp
  then obtain s where "s \<in> set ?active" "load_of d s = ?least" by auto
  then have "?best \<noteq> []" by (auto simp: filter_empty_conv)
  then have best: "r \<in> set ?best" unfolding r(1) by (intro nth_mem) simp
  then show "r \<in> set (voice_servers d)" "is_active now threshold r" "n = load_of d r"
    using r by auto
  have "load_of d r = ?least" using best by simp
  then show "r' \<in> set (voice_servers d) \<Longrightarrow> is_active now threshold r' \<Longrightarrow> load_of d r \<le> load_of d r'"
    by (simp add: Min_le_iff)
qed

lemma smallest_load_None:
  "get_smallest_load tie now threshold d = None \<longleftrightarrow>
     (\<forall>r \<in> set (voice_servers d). \<not> is_active now threshold r)"
proof (cases "filter (is_active now threshold) (voice_servers d)")
  case Nil
  then show ?thesis by (simp add: get_smallest_load_def filter_empty_conv)
next
  case (Cons r rs)
  have "r \<in> set (filter (is_active now threshold) (voice_servers d))" unfolding Cons by simp
  then have "r \<in> set (voice_servers d)" "is_active now threshold r" by auto
  then show ?thesis using Cons by (auto simp: get_smallest_load_def Let_def)
qed

section \<open>Facts about single rows\<close>

lemma channel_row_get_Some:
  "db_ok d \<Longrightarrow> channel_row_get cid d = Some c \<longleftrightarrow> c \<in> set (channel_rows d) \<and> cr_id c = cid"
  unfolding channel_row_get_def db_ok_def by (intro find_distinct) blast

lemma voice_server_get_Some:
  "db_ok d \<Longrightarrow> voice_server_get i d = Some r \<longleftrightarrow> r \<in> set (voice_servers d) \<and> vr_id r = i"
  unfolding voice_server_get_def db_ok_def by (intro find_distinct) blast

text \<open>A lookup after an update of rows that keeps their ids.\<close>

lemma find_map:
  "(\<And>r. key (h r) = key r) \<Longrightarrow>
     List.find (\<lambda>r. key r = k) (map h xs) = map_option h (List.find (\<lambda>r. key r = k) xs)"
  by (induction xs) auto

lemma channel_row_get_update:
  assumes "\<And>r. cr_id (g r) = cr_id r"
  shows "channel_row_get cid (update_channels now sel g d) =
    map_option (\<lambda>c. if sel c then touched now c (g c) else c) (channel_row_get cid d)"
  unfolding channel_row_get_def update_channels_def
  by (simp add: find_map [of cr_id "\<lambda>c. if sel c then touched now c (g c) else c"] assms)

lemma channel_row_get_id: "channel_row_get cid d = Some c \<Longrightarrow> cr_id c = cid"
  by (auto simp: channel_row_get_def find_Some_iff)

lemma assign_to_row:
  assumes "db_ok d" and "sid \<in> vr_id ` set (voice_servers d)"
  shows "\<exists>d' res. assign_to now cid sid reassign d = (d', Inr res) \<and>
    voice_servers d' = voice_servers d \<and> servers d' = servers d \<and>
    map_option cr_assigned_to (channel_row_get cid d') =
      map_option (\<lambda>c. if cr_assigned_to c = None \<or> reassign then Some sid else cr_assigned_to c)
        (channel_row_get cid d) \<and>
    (\<forall>other. other = cid \<or> channel_row_get other d' = channel_row_get other d)"
proof (cases "channel_row_get cid d")
  case None
  then show ?thesis by (simp add: assign_to_def)
next
  case (Some c)
  note c = Some channel_row_get_id [OF Some]
  show ?thesis
  proof (cases "cr_assigned_to c \<noteq> None \<and> \<not> reassign")
    case True
    then show ?thesis using c by (simp add: assign_to_def)
  next
    case False
    let ?d' = "update_channels now (\<lambda>r. cr_id r = cid) (\<lambda>r. r\<lparr>cr_assigned_to := Some sid\<rparr>) d"
    have "assign_to now cid sid reassign d = (?d', Inr (channel_row_get cid ?d'))"
      using c False assms(2) by (auto simp: assign_to_def Let_def)
    moreover have "channel_row_get other ?d' = channel_row_get other d" if "other \<noteq> cid" for other
      using channel_row_get_id [of other d] that
      by (cases "channel_row_get other d") (auto simp: channel_row_get_update)
    ultimately show ?thesis using c False by (auto simp: channel_row_get_update)
  qed
qed

lemma option_ext: "(\<And>r. x = Some r \<longleftrightarrow> y = Some r) \<Longrightarrow> x = y"
  by (metis not_None_eq)

section \<open>Properties\<close>

text \<open>
  C23: Referential integrity. In every database the registry can produce, server, channel and voice
  server ids are unique, every channel and every membership belongs to an existing server, and
  every channel that is assigned is assigned to a voice server that is still registered.
\<close>

theorem registry_keeps_references_valid:
  assumes "db_reach d"
  shows "distinct (map sr_id (servers d)) \<and> distinct (map cr_id (channel_rows d)) \<and>
    distinct (map vr_id (voice_servers d)) \<and> distinct (servers_members d) \<and>
    (\<forall>c \<in> set (channel_rows d). server_get (cr_server_id c) d \<noteq> None \<and>
       (\<forall>i. cr_assigned_to c = Some i \<longrightarrow> voice_server_get i d \<noteq> None)) \<and>
    (\<forall>m \<in> set (servers_members d). server_get (snd m) d \<noteq> None)"
proof -
  note ok = db_reach_ok [OF assms, unfolded db_ok_def]
  from ok have 1: "cr_server_id ` set (channel_rows d) \<subseteq> sr_id ` set (servers d)"
    and 2: "snd ` set (servers_members d) \<subseteq> sr_id ` set (servers d)"
    and 3: "\<forall>c \<in> set (channel_rows d).
      set_option (cr_assigned_to c) \<subseteq> vr_id ` set (voice_servers d)"
    by simp_all
  have "server_get (cr_server_id c) d \<noteq> None" if "c \<in> set (channel_rows d)" for c
    unfolding server_get_def find_none using subsetD [OF 1 imageI [OF that]] by simp
  moreover have "voice_server_get i d \<noteq> None"
    if "c \<in> set (channel_rows d)" and "cr_assigned_to c = Some i" for c i
    unfolding voice_server_get_def find_none using bspec [OF 3 that(1)] that(2) by simp
  moreover have "server_get (snd m) d \<noteq> None" if "m \<in> set (servers_members d)" for m
    unfolding server_get_def find_none using subsetD [OF 2 imageI [OF that]] by simp
  ultimately show ?thesis using ok by (intro conjI ballI allI impI) simp_all
qed

definition sample_db :: db where
  "sample_db = fst (assign_channel 0 1000 (7 :: uuid) False
     (fst (register_voice_server 1000 (9 :: uuid) ''u''
       (fst (channel_create 1 (7 :: uuid) (5 :: uuid) ''c'' (fst (server_create (5 :: uuid) ''s'' empty_db)))))))"

lemma sample_db_reach: "db_reach sample_db"
  unfolding sample_db_def
  by (rule db_reach.assign, rule db_reach.register, rule db_reach.channel, rule db_reach.server,
      rule db_reach.empty)

lemma sample_db_value:
  "sample_db = \<lparr>servers = [\<lparr>sr_id = 5, sr_name = ''s''\<rparr>],
     channel_rows = [\<lparr>cr_id = 7, cr_server_id = 5, cr_assigned_to = Some 9, cr_name = ''c'',
       cr_updated_at = 1000\<rparr>],
     voice_servers = [\<lparr>vr_id = 9, vr_host_url = ''u'', vr_last_seen = 1000\<rparr>],
     servers_members = []\<rparr>"
  by (simp add: sample_db_def empty_db_def server_create_def channel_create_def
      register_voice_server_def create_or_update_def assign_channel_def get_smallest_load_def
      is_active_def STALENESS_def load_of_def assign_to_def channel_row_get_def
      update_channels_def touched_def)

theorem registry_keeps_references_valid_witness:
  "\<exists>c \<in> set (channel_rows sample_db). cr_assigned_to c = Some 9 \<and>
     voice_server_get 9 sample_db \<noteq> None"
  using registry_keeps_references_valid [OF sample_db_reach] by (simp add: sample_db_value)

text \<open>
  C24: Placement. Assigning a channel fails only when no voice server is active, and then changes
  nothing. Otherwise it answers with an active voice server, none of the active ones has less load,
  and the channel, when it exists, is then assigned to the answered server if it was unassigned or
  a reassignment was asked for; an assignment that is kept, the other channels and the other tables
  are not touched.
\<close>

theorem assign_channel_picks_least_loaded:
  assumes "db_reach d"
  shows "case assign_channel tie now cid reassign d of
      (d', Inl e) \<Rightarrow> d' = d \<and> e = NoVoiceServers \<and>
        filter (is_active now STALENESS) (voice_servers d) = []
    | (d', Inr r) \<Rightarrow> r \<in> set (voice_servers d) \<and> is_active now STALENESS r \<and>
        (\<forall>r' \<in> set (filter (is_active now STALENESS) (voice_servers d)). load_of d r \<le> load_of d r') \<and>
        map_option cr_assigned_to (channel_row_get cid d') =
          map_option (\<lambda>c. if cr_assigned_to c = None \<or> reassign then Some (vr_id r)
            else cr_assigned_to c) (channel_row_get cid d) \<and>
        (\<forall>other. other = cid \<or> channel_row_get other d' = channel_row_get other d) \<and>
        servers d' = servers d \<and> voice_servers d' = voice_servers d"
proof (cases "get_smallest_load tie now STALENESS d")
  case None
  then show ?thesis
    using smallest_load_None [of tie now STALENESS d]
    by (simp add: assign_channel_def filter_empty_conv)
next
  case (Some p)
  obtain r n where p: "p = (r, n)" by (cases p)
  note least = smallest_load_Some [OF Some [unfolded p]]
  from least(1) have "vr_id r \<in> vr_id ` set (voice_servers d)" by (rule imageI)
  from assign_to_row [OF db_reach_ok [OF assms] this, of now cid reassign]
  show ?thesis using Some p least by (auto simp: assign_channel_def)
qed

theorem assign_channel_picks_least_loaded_witness:
  "let (d', r) = assign_channel 0 1000 7 True sample_db in
     r = Inr \<lparr>vr_id = 9, vr_host_url = ''u'', vr_last_seen = 1000\<rparr> \<and>
     map_option cr_assigned_to (channel_row_get 7 d') = Some (Some 9)"
proof -
  have "snd (assign_channel 0 1000 7 True sample_db) =
      Inr \<lparr>vr_id = 9, vr_host_url = ''u'', vr_last_seen = 1000\<rparr>"
    by (simp add: sample_db_value assign_channel_def get_smallest_load_def is_active_def
        STALENESS_def load_of_def assign_to_def channel_row_get_def Let_def)
  then show ?thesis
    using assign_channel_picks_least_loaded [OF sample_db_reach, where tie = 0 and now = 1000 and cid = 7 and reassign = True]
    by (auto split: prod.splits simp: channel_row_get_def sample_db_value)
qed

definition two_servers_db :: db where
  "two_servers_db = fst (register_voice_server 1000 (10 :: uuid) ''v'' sample_db)"

text \<open>
  A wrong answer. \<open>assign_channel\<close> without a reassignment answers with the least loaded voice
  server even when the channel stays with another one: there is a database the registry produces
  in which the answered server is not the one the channel is assigned to.
\<close>

theorem assign_may_answer_another_server:
  "\<exists>d r c. db_reach d \<and> assign_channel 0 1000 7 False d = (d, Inr r) \<and>
     channel_row_get 7 d = Some c \<and> cr_assigned_to c = Some 9 \<and> vr_id r = 10"
proof -
  have "db_reach two_servers_db"
    unfolding two_servers_db_def by (rule db_reach.register [OF sample_db_reach])
  moreover have "assign_channel 0 1000 7 False two_servers_db =
      (two_servers_db, Inr \<lparr>vr_id = 10, vr_host_url = ''v'', vr_last_seen = 1000\<rparr>)"
    by (simp add: two_servers_db_def register_voice_server_def create_or_update_def
        sample_db_value assign_channel_def get_smallest_load_def is_active_def
        STALENESS_def load_of_def assign_to_def channel_row_get_def Let_def)
  moreover have "map_option cr_assigned_to (channel_row_get 7 two_servers_db) = Some (Some 9)"
    by (simp add: two_servers_db_def register_voice_server_def create_or_update_def
        sample_db_value channel_row_get_def)
  ultimately show ?thesis by (auto simp: map_option_eq_Some)
qed

text \<open>
  Registration. A registration at time \<open>now\<close> is active until exactly the expiry it answers,
  35 seconds later, and concerns no other voice server. A server that registers again under its id
  keeps the URL of its first registration, whatever URL it sends.
\<close>

theorem registration_is_active_until_expiry:
  assumes "db_reach d"
  shows "let (d', expiry) = register_voice_server now i url d in
    expiry = now + 35000 \<and>
    voice_server_get i d' = Some \<lparr>vr_id = i, vr_host_url =
      (case voice_server_get i d of None \<Rightarrow> url | Some r \<Rightarrow> vr_host_url r), vr_last_seen = now\<rparr> \<and>
    (\<forall>t. get_active t i STALENESS d' \<noteq> None \<longleftrightarrow> t < expiry) \<and>
    (\<forall>j. j = i \<or> voice_server_get j d' = voice_server_get j d)"
proof (cases "voice_server_get i d")
  case None
  then have fresh: "i \<notin> vr_id ` set (voice_servers d)"
    by (simp add: voice_server_get_def find_none)
  have find_append: "List.find P (xs @ ys) = (case List.find P xs of None \<Rightarrow> List.find P ys | Some x \<Rightarrow> Some x)"
    for P and xs ys :: "voice_server_row list" by (induction xs) auto
  show ?thesis
    using None fresh
    by (auto simp: register_voice_server_def create_or_update_def voice_server_get_def find_append
        get_active_def is_active_def STALENESS_def split: option.splits)
next
  case (Some r)
  then have "r \<in> set (voice_servers d)" "vr_id r = i"
    using voice_server_get_Some [OF db_reach_ok [OF assms]] by auto
  then have known: "i \<in> vr_id ` set (voice_servers d)" by blast
  let ?h = "\<lambda>r. if vr_id r = i then r\<lparr>vr_last_seen := now\<rparr> else r"
  have found: "List.find (\<lambda>r. vr_id r = j) (map ?h (voice_servers d)) =
      map_option ?h (voice_server_get j d)" for j
    unfolding voice_server_get_def by (rule find_map) simp
  have row: "voice_server_get j d = Some r' \<Longrightarrow> vr_id r' = j" for j r'
    by (auto simp: voice_server_get_def find_Some_iff)
  have other: "map_option ?h (voice_server_get j d) = voice_server_get j d" if "j \<noteq> i" for j
    using row that by (cases "voice_server_get j d") auto
  have d': "register_voice_server now i url d =
      (d\<lparr>voice_servers := map ?h (voice_servers d)\<rparr>, now + 35000)"
    using known by (simp add: register_voice_server_def create_or_update_def STALENESS_def)
  have "voice_server_get j (d\<lparr>voice_servers := map ?h (voice_servers d)\<rparr>) =
      map_option ?h (voice_server_get j d)" for j
    unfolding found [symmetric] by (simp add: voice_server_get_def)
  then show ?thesis
    using Some other \<open>vr_id r = i\<close>
    by (auto simp: d' get_active_def is_active_def STALENESS_def)
qed

theorem registration_is_active_until_expiry_witness:
  "let (d', expiry) = register_voice_server 5000 9 ''w'' sample_db in
    expiry = 40000 \<and> map_option vr_host_url (voice_server_get 9 d') = Some ''u'' \<and>
    get_active 39999 9 STALENESS d' \<noteq> None \<and> get_active 40000 9 STALENESS d' = None"
  using registration_is_active_until_expiry [OF sample_db_reach, where now = 5000 and i = 9 and url = "''w''"]
  by (auto simp: Let_def voice_server_get_def sample_db_value split: prod.splits)

text \<open>
  Stale servers. The cleanup deletes exactly the voice servers that were last seen more than 35
  seconds ago and answers their ids; the channels that were assigned to one of them are unassigned
  and all other assignments stay.
\<close>

theorem cleanup_removes_exactly_stale_servers:
  assumes "db_reach d"
  shows "let (d', gone) = cleanup_stale_voice_servers now d in
    gone = map vr_id (filter (\<lambda>r. vr_last_seen r + 35000 < now) (voice_servers d)) \<and>
    (\<forall>i. voice_server_get i d' = (if i \<in> set gone then None else voice_server_get i d)) \<and>
    (\<forall>cid. map_option cr_assigned_to (channel_row_get cid d') =
      map_option (\<lambda>c. Option.bind (cr_assigned_to c) (\<lambda>i. if i \<in> set gone then None else Some i))
        (channel_row_get cid d)) \<and>
    (\<forall>t i. get_active t i STALENESS d' = (if i \<in> set gone then None else get_active t i STALENESS d)) \<and>
    servers d' = servers d \<and> servers_members d' = servers_members d"
proof -
  let ?stale = "is_stale now STALENESS"
  let ?gone = "map vr_id (filter ?stale (voice_servers d))"
  let ?d1 = "d\<lparr>voice_servers := filter (\<lambda>r. \<not> ?stale r) (voice_servers d)\<rparr>"
  let ?d' = "fst (cleanup_stale_voice_servers now d)"
  have result: "cleanup_stale_voice_servers now d = (?d', ?gone)"
    by (simp add: cleanup_stale_voice_servers_def cleanup_stale_def Let_def)
  have ok: "db_ok d" "db_ok ?d'"
    using db_reach_ok [OF assms] db_ok_cleanup [of d now STALENESS]
    by (simp_all add: cleanup_stale_voice_servers_def)
  have vs: "voice_servers ?d' = filter (\<lambda>r. \<not> ?stale r) (voice_servers d)"
    by (simp add: cleanup_stale_voice_servers_def cleanup_stale_def Let_def)
  have inj: "r = r'" if "r \<in> set (voice_servers d)" "r' \<in> set (voice_servers d)" "vr_id r = vr_id r'" for r r'
    using that voice_server_get_Some [OF ok(1), of "vr_id r"] by (metis option.inject)
  have lookup: "voice_server_get i ?d' = Some r \<longleftrightarrow>
      i \<notin> set ?gone \<and> voice_server_get i d = Some r" for i r
  proof
    assume "voice_server_get i ?d' = Some r"
    then have r: "r \<in> set (voice_servers d)" "\<not> ?stale r" "vr_id r = i"
      unfolding voice_server_get_Some [OF ok(2)] vs by auto
    have "i \<notin> set ?gone"
    proof
      assume "i \<in> set ?gone"
      then obtain r' where "r' \<in> set (voice_servers d)" "?stale r'" "vr_id r' = i" by auto
      then show False using inj [of r' r] r by simp
    qed
    then show "i \<notin> set ?gone \<and> voice_server_get i d = Some r"
      unfolding voice_server_get_Some [OF ok(1)] using r by simp
  next
    assume r: "i \<notin> set ?gone \<and> voice_server_get i d = Some r"
    then show "voice_server_get i ?d' = Some r"
      unfolding voice_server_get_Some [OF ok(1)] voice_server_get_Some [OF ok(2)] vs by auto
  qed
  have get: "voice_server_get i ?d' = (if i \<in> set ?gone then None else voice_server_get i d)" for i
  proof (rule option_ext)
    show "voice_server_get i ?d' = Some r \<longleftrightarrow>
        (if i \<in> set ?gone then None else voice_server_get i d) = Some r" for r
      unfolding lookup by (cases "i \<in> set ?gone") (simp_all only: if_True if_False simp_thms option.distinct)
  qed
  have same: "channel_row_get cid ?d1 = channel_row_get cid d" for cid
    unfolding channel_row_get_def by simp
  have row: "channel_row_get cid ?d' =
      map_option (\<lambda>c. if \<exists>i \<in> set ?gone. cr_assigned_to c = Some i
          then touched now c (c\<lparr>cr_assigned_to := None\<rparr>) else c) (channel_row_get cid d)" for cid
    unfolding cleanup_stale_voice_servers_def cleanup_stale_def Let_def fst_conv same [symmetric]
    by (rule channel_row_get_update) simp
  have "map_option cr_assigned_to (channel_row_get cid ?d') =
      map_option (\<lambda>c. Option.bind (cr_assigned_to c) (\<lambda>i. if i \<in> set ?gone then None else Some i))
        (channel_row_get cid d)" for cid
  proof (cases "channel_row_get cid d")
    case None
    then show ?thesis unfolding row by simp
  next
    case (Some c)
    show ?thesis unfolding row Some by (cases "cr_assigned_to c") (simp_all del: set_map)
  qed
  moreover have "get_active t i STALENESS ?d' =
      (if i \<in> set ?gone then None else get_active t i STALENESS d)" for t i
    using get [of i] by (simp add: get_active_def)
  moreover have "servers ?d' = servers d" "servers_members ?d' = servers_members d"
    by (simp_all add: cleanup_stale_voice_servers_def cleanup_stale_def Let_def)
  moreover have "?gone = map vr_id (filter (\<lambda>r. vr_last_seen r + 35000 < now) (voice_servers d))"
    by (simp add: is_stale_def [abs_def] STALENESS_def)
  ultimately show ?thesis
    using get by (subst result) (simp del: set_map)
qed

theorem cleanup_removes_exactly_stale_servers_witness:
  "let (d', gone) = cleanup_stale_voice_servers 36001 sample_db in
    gone = [9] \<and> map_option cr_assigned_to (channel_row_get 7 d') = Some None"
proof -
  obtain d' gone where p: "cleanup_stale_voice_servers 36001 sample_db = (d', gone)"
    by (rule prod.exhaust)
  note facts = cleanup_removes_exactly_stale_servers [OF sample_db_reach, where now = 36001,
      unfolded p Let_def prod.case]
  from facts have "gone = [9]" by (simp add: sample_db_value)
  moreover from facts have "map_option cr_assigned_to (channel_row_get 7 d') =
      map_option (\<lambda>c. Option.bind (cr_assigned_to c) (\<lambda>i. if i \<in> set gone then None else Some i))
        (channel_row_get 7 sample_db)" by blast
  moreover have "channel_row_get 7 sample_db = Some \<lparr>cr_id = 7, cr_server_id = 5,
      cr_assigned_to = Some 9, cr_name = ''c'', cr_updated_at = 1000\<rparr>"
    by (simp add: channel_row_get_def sample_db_value)
  ultimately show ?thesis unfolding p by simp
qed


text \<open>
  A channel can be found. After a channel that exists was assigned with a reassignment, its
  lookup gives the URL of the answered voice server until exactly 35 seconds after that server was
  last seen, and no URL from then on.
\<close>

theorem assigned_channel_is_found:
  assumes "db_reach d" and "channel_row_get cid d \<noteq> None"
    and "assign_channel tie now cid True d = (d', Inr r)"
  shows "map_option cm_assigned_to (get_channel t cid d') =
    Some (if t < vr_last_seen r + 35000 then Some (vr_host_url r) else None)"
proof -
  note ok = db_reach_ok [OF assms(1)]
  obtain n where least: "get_smallest_load tie now STALENESS d = Some (r, n)"
      and to: "\<exists>c. assign_to now cid (vr_id r) True d = (d', Inr c)"
    using assms(3) by (auto simp: assign_channel_def split: option.splits prod.splits sum.splits)
  have r: "r \<in> set (voice_servers d)" by (rule smallest_load_Some(1) [OF least])
  have facts: "voice_servers d' = voice_servers d"
      "map_option cr_assigned_to (channel_row_get cid d') = Some (Some (vr_id r))"
    using assign_to_row [OF ok imageI [OF r, of vr_id], of now cid True] to assms(2) by auto
  have "voice_server_get (vr_id r) d' = Some r"
    using r voice_server_get_Some [OF ok, of "vr_id r" r] facts(1)
    by (simp add: voice_server_get_def)
  then show ?thesis
    using facts(2) by (auto simp: get_channel_def get_active_def is_active_def STALENESS_def)
qed

theorem assigned_channel_is_found_witness:
  "map_option cm_assigned_to (get_channel 35999 7 (fst (assign_channel 0 2000 7 True sample_db))) =
     Some (Some ''u'')"
proof -
  let ?r = "\<lparr>vr_id = 9, vr_host_url = ''u'', vr_last_seen = 1000\<rparr>"
  have "snd (assign_channel 0 2000 7 True sample_db) = Inr ?r"
    by (simp add: sample_db_value assign_channel_def get_smallest_load_def is_active_def
        STALENESS_def load_of_def assign_to_def channel_row_get_def Let_def)
  then obtain d' where d': "assign_channel 0 2000 7 True sample_db = (d', Inr ?r)"
    by (metis prod.collapse)
  have ne: "channel_row_get 7 sample_db \<noteq> None"
    by (simp add: channel_row_get_def sample_db_value)
  show ?thesis
    using assigned_channel_is_found [OF sample_db_reach ne d', of 35999] by (simp add: d')
qed

section \<open>Paging\<close>

lemma wrap64_id: "0 \<le> x \<Longrightarrow> x < 2 ^ 63 \<Longrightarrow> wrap64 x = x"
  by (simp add: wrap64_def signed_take_bit_int_eq_self)

lemma page_offset:
  assumes "1 \<le> page" and "1 \<le> n" and "page * n < 2 ^ 63"
  shows "pg_offset (per_page n (paginate page)) = (page - 1) * n"
proof -
  have "page * 1 \<le> page * n" using assms by (intro mult_left_mono) auto
  then have "page - 1 < 2 ^ 63" using assms(3) by linarith
  moreover have "(page - 1) * n < 2 ^ 63" "0 \<le> (page - 1) * n"
    using assms by (simp_all add: left_diff_distrib)
  ultimately show ?thesis using assms by (simp add: per_page_def paginate_def wrap64_id)
qed

lemma page_chunks: "concat (map (\<lambda>k. take n (drop (k * n) xs)) [0..<p]) = take (p * n) xs"
proof (induction p)
  case (Suc p)
  have "Suc p * n = p * n + n" by simp
  then show ?case using Suc by (simp add: take_add del: mult_Suc)
qed simp

lemma load_page:
  assumes "1 \<le> n" and "(int k + 1) * int n < 2 ^ 63"
  shows "get_servers (int k + 1) (int n) d = Inr (take n (drop (k * n) (servers d)),
    if k * n < length (servers d) then (int (length (servers d)) + int n - 1) div int n else 0)"
proof -
  have "pg_offset (per_page (int n) (paginate (int k + 1))) = int (k * n)"
    using page_offset [of "int k + 1" "int n"] assms by simp
  moreover have "pg_per_page (per_page (int n) (paginate (int k + 1))) = int n"
    by (simp add: per_page_def)
  ultimately have run: "run_paginated (per_page (int n) (paginate (int k + 1))) (servers d) =
      Inr (map (\<lambda>r. (r, int (length (servers d)))) (take n (drop (k * n) (servers d))))"
    by (simp add: run_paginated_def del: of_nat_mult)
  have size: "pg_per_page (per_page (int n) (paginate (int k + 1))) = int n"
    by (simp add: per_page_def)
  show ?thesis
  proof (cases "take n (drop (k * n) (servers d))")
    case Nil
    then have "length (servers d) \<le> k * n" using assms(1) by simp
    then show ?thesis
      unfolding get_servers_def load_and_count_pages_def run size Nil using assms(1) by simp
  next
    case (Cons r rs)
    then have "k * n < length (servers d)" by (metis drop_all leI list.distinct(1) take_Nil)
    then show ?thesis
      unfolding get_servers_def load_and_count_pages_def run size Cons using assms(1)
      by (simp add: comp_def)
  qed
qed

text \<open>
  Paging. When a page size of at least 1 and the pages asked for stay in the range of an
  \<open>i64\<close>, page \<open>k + 1\<close> holds its share of the servers, the first \<open>p\<close> pages in order are the list of
  servers when \<open>p\<close> is the number of servers divided by the page size and rounded up, and every
  page up to \<open>p\<close> reports \<open>p\<close>. Any later page is empty and reports that there are no pages at all.
\<close>

theorem pages_are_the_servers:
  fixes n p :: nat
  assumes "1 \<le> n" and "p = (length (servers d) + n - 1) div n"
    and "(int (max p k) + 1) * int n < 2 ^ 63"
  shows "get_servers (int k + 1) (int n) d =
      Inr (take n (drop (k * n) (servers d)), if k < p then int p else 0) \<and>
    concat (map (\<lambda>j. case get_servers (int j + 1) (int n) d of Inl e \<Rightarrow> [] | Inr (rows, _) \<Rightarrow> rows)
      [0..<p]) = servers d"
proof -
  let ?l = "length (servers d)"
  have p: "k < p \<longleftrightarrow> k * n < ?l" for k
  proof -
    have "k < p \<longleftrightarrow> (k + 1) * n \<le> ?l + n - 1"
      using assms(1,2) by (simp add: Suc_le_eq [symmetric] less_eq_div_iff_mult_less_eq)
    also have "\<dots> \<longleftrightarrow> k * n < ?l" using assms(1) by auto
    finally show ?thesis .
  qed
  have pages: "(int ?l + int n - 1) div int n = int p"
    using assms(1,2) by (simp add: zdiv_int of_nat_diff)
  have range: "(int j + 1) * int n < 2 ^ 63" if "j \<le> max p k" for j
  proof -
    have "(int j + 1) * int n \<le> (int (max p k) + 1) * int n"
      using that by (intro mult_right_mono) auto
    then show ?thesis using assms(3) by linarith
  qed
  have page: "get_servers (int j + 1) (int n) d =
      Inr (take n (drop (j * n) (servers d)), if j < p then int p else 0)" if "j \<le> max p k" for j
    using load_page [OF assms(1) range [OF that], of d] unfolding pages p .
  have "map (\<lambda>j. case get_servers (int j + 1) (int n) d of Inl e \<Rightarrow> [] | Inr (rows, _) \<Rightarrow> rows) [0..<p] =
      map (\<lambda>j. take n (drop (j * n) (servers d))) [0..<p]"
    by (simp add: page)
  then have all: "concat (map (\<lambda>j. case get_servers (int j + 1) (int n) d of Inl e \<Rightarrow> []
      | Inr (rows, _) \<Rightarrow> rows) [0..<p]) = take (p * n) (servers d)"
    by (simp only: page_chunks)
  have "?l \<le> p * n" using p [of p] by simp
  then show ?thesis unfolding all using page [of k] by simp
qed

definition three_servers_db :: db where
  "three_servers_db = \<lparr>servers = [\<lparr>sr_id = 1, sr_name = ''a''\<rparr>, \<lparr>sr_id = 2, sr_name = ''b''\<rparr>,
     \<lparr>sr_id = 3, sr_name = ''c''\<rparr>], channel_rows = [], voice_servers = [], servers_members = []\<rparr>"

theorem pages_are_the_servers_witness:
  "get_servers 2 2 three_servers_db = Inr ([\<lparr>sr_id = 3, sr_name = ''c''\<rparr>], 2) \<and>
   get_servers 3 2 three_servers_db = Inr ([], 0)"
proof -
  have p: "2 = (length (servers three_servers_db) + 2 - 1) div 2"
    by (simp add: three_servers_db_def)
  show ?thesis
    using pages_are_the_servers [of 2, OF _ p, of 1] pages_are_the_servers [of 2, OF _ p, of 2]
    by (simp add: three_servers_db_def)
qed

end
