(* ===== verification/Gateway.thy ===== *)
theory Gateway
  imports Session_World Voice_Server Registry
begin

text \<open>
  The standalone gateway: the voice host and the channel registry it integrates
  (\<open>server/gateway/src/voice_instance/integrated.rs\<close>, \<open>channel_registry/integrated.rs\<close>), the channel
  map (\<open>Channels\<close>, \<open>ChannelMap\<close> in \<open>server/channels/mod.rs\<close>), and all its sessions running
  concurrently: the world answers the calls of the sessions one at a time, in any order.
\<close>

section \<open>The integrated voice host\<close>

text \<open>The four \<open>From\<close> implementations agree on the errors they share.\<close>

definition voice_host_error_from :: "voice_error \<Rightarrow> voice_host_error" where
  "voice_host_error_from e = (case e of
      PeerNotFound \<Rightarrow> NotFound ''peer''
    | ChannelNotFound \<Rightarrow> NotFound ''channel''
    | NoOpenPorts \<Rightarrow> HostOther
    | OtherError \<Rightarrow> HostOther)"

abbreviation host_result :: "'s \<times> (voice_error + 'a) \<Rightarrow> 's \<times> (voice_host_error + 'a)" where
  "host_result \<equiv> map_prod id (map_sum voice_host_error_from id)"

definition host_open_connection ::
  "request_env \<Rightarrow> open_connection_req \<Rightarrow> voice_server \<Rightarrow>
     voice_server \<times> (voice_host_error + connection_data)" where
  "host_open_connection e req srv = host_result (open_connection e req srv)"

definition host_establish_session ::
  "request_env \<Rightarrow> establish_session_req \<Rightarrow> voice_server \<Rightarrow>
     voice_server \<times> (voice_host_error + session_data)" where
  "host_establish_session e req srv = host_result (establish_session e req srv)"

definition host_leave ::
  "request_env \<Rightarrow> uuid \<Rightarrow> uuid \<Rightarrow> voice_server \<Rightarrow> voice_server \<times> (voice_host_error + unit)" where
  "host_leave e room client srv = host_result (leave e room client srv)"

definition host_user_status ::
  "request_env \<Rightarrow> uuid \<Rightarrow> uuid \<Rightarrow> voice_server \<Rightarrow>
     voice_server \<times> (voice_host_error + connection_state)" where
  "host_user_status e room client srv = host_result (user_status e room client srv)"

definition host_status ::
  "request_env \<Rightarrow> (instant \<times> fwd_event) list \<Rightarrow> uuid \<Rightarrow> voice_server \<Rightarrow>
     voice_server \<times> (voice_host_error + peer list)" where
  "host_status e before room srv = host_result (channel_peers_of e before room srv)"

definition host_assign_channel ::
  "(port_ref \<Rightarrow> bool) \<Rightarrow> instant \<Rightarrow> uuid \<Rightarrow> voice_server \<Rightarrow> voice_server \<times> bool" where
  "host_assign_channel bind_ok now room srv =
     (case Voice_Server.assign_channel bind_ok now room srv of
        (srv', Inl e) \<Rightarrow> (srv', False) | (srv', Inr c) \<Rightarrow> (srv', True))"

section \<open>The integrated registry\<close>

text \<open>
  \<open>None\<close> when the call fails, \<open>Some None\<close> when there is no such channel. The voice host is the
  only one there is, and \<open>reassign\<close> is not looked at.
\<close>

definition get_voice_host_for ::
  "(port_ref \<Rightarrow> bool) \<Rightarrow> instant \<Rightarrow> uuid \<Rightarrow> bool \<Rightarrow> db \<Rightarrow> voice_server \<Rightarrow>
     voice_server \<times> unit option option" where
  "get_voice_host_for bind_ok now room reassign d srv =
     (case Registry.get_channel now room d of
        None \<Rightarrow> (srv, Some None)
      | Some c \<Rightarrow> (case host_assign_channel bind_ok now room srv of
            (srv', True) \<Rightarrow> (srv', Some (Some ()))
          | (srv', False) \<Rightarrow> (srv', None)))"

definition registry_get_servers ::
  "int option \<Rightarrow> int option \<Rightarrow> db \<Rightarrow> db_error + (server_row list \<times> int)" where
  "registry_get_servers page n d =
     get_servers (case page of None \<Rightarrow> 1 | Some p \<Rightarrow> p) (case n of None \<Rightarrow> 100 | Some k \<Rightarrow> k) d"

section \<open>The gateway's state\<close>

text \<open>
  \<open>gw_states\<close> holds every channel state ever made; a channel in the map names one by its position.
  \<open>gw_leaves\<close> are the spawned tasks that will leave a voice connection.
\<close>

record gateway =
  gw_map :: "(uuid, unit gateway_channel) hash_map"
  gw_states :: "local_channel list"
  gw_voice :: voice_server
  gw_db :: db
  gw_leaves :: "(uuid \<times> uuid) list"

definition gateway_new :: "voice_server \<Rightarrow> db \<Rightarrow> gateway" where
  "gateway_new srv d =
     \<lparr>gw_map = [], gw_states = [], gw_voice = srv, gw_db = d, gw_leaves = []\<rparr>"

definition channels_get :: "uuid \<Rightarrow> gateway \<Rightarrow> unit gateway_channel option" where
  "channels_get room g = map_of (gw_map g) room"

definition channel_map_close :: "uuid \<Rightarrow> gateway \<Rightarrow> gateway" where
  "channel_map_close room g = g\<lparr>gw_map := hm_remove room (gw_map g)\<rparr>"

definition channels_close :: "uuid \<Rightarrow> gateway \<Rightarrow> gateway \<times> uuid option" where
  "channels_close room g =
     (channel_map_close room g, map_option (\<lambda>c. room) (channels_get room g))"

definition init_state :: "uuid \<Rightarrow> gateway \<Rightarrow> gateway \<times> nat" where
  "init_state room g =
     (g\<lparr>gw_states := gw_states g @ [local_channel_new room]\<rparr>, length (gw_states g))"

definition or_insert :: "unit gateway_channel \<Rightarrow> gateway \<Rightarrow> gateway \<times> unit gateway_channel" where
  "or_insert c g = (case channels_get (gc_room_id c) g of
      Some c' \<Rightarrow> (g, c')
    | None \<Rightarrow> (g\<lparr>gw_map := hm_insert (gc_room_id c) c (gw_map g)\<rparr>, c))"

definition replace_voice :: "uuid \<Rightarrow> unit \<Rightarrow> gateway \<Rightarrow> gateway \<times> unit gateway_channel" where
  "replace_voice room v g = (case channels_get room g of
      Some c \<Rightarrow> (g\<lparr>gw_map := hm_insert room (c\<lparr>gc_voice := v\<rparr>) (gw_map g)\<rparr>, c\<lparr>gc_voice := v\<rparr>)
    | None \<Rightarrow>
        (let (g', st) = init_state room g;
             c = \<lparr>gc_room_id = room, gc_state = st, gc_voice = v\<rparr>
         in (g'\<lparr>gw_map := hm_insert room c (gw_map g')\<rparr>, c)))"

definition at_state :: "nat \<Rightarrow> (local_channel \<Rightarrow> local_channel) \<Rightarrow> gateway \<Rightarrow> gateway" where
  "at_state st f g = g\<lparr>gw_states := (gw_states g)[st := f (gw_states g ! st)]\<rparr>"

definition join_room :: "nat \<Rightarrow> client_info \<Rightarrow> gateway \<Rightarrow> gateway \<times> room_handle option" where
  "join_room st info g =
     (at_state st (\<lambda>c. fst (local_join info c)) g,
      map_option (\<lambda>j. \<lparr>rh_state = st, rh_joined = j\<rparr>) (snd (local_join info (gw_states g ! st))))"

definition drop_room :: "room_handle \<Rightarrow> gateway \<Rightarrow> gateway" where
  "drop_room rh g = at_state (rh_state rh) (drop_handle (rh_joined rh)) g"

text \<open>
  The task of a dropped handle: it leaves, and when nobody is left it closes the room, whatever
  channel the map holds for it by then.
\<close>

definition leave_room :: "nat \<Rightarrow> client_info \<Rightarrow> gateway \<Rightarrow> gateway" where
  "leave_room st info g =
     (let c = gw_states g ! st;
          empty = snd (present_leave (ci_client_id info) (lc_present c));
          g' = at_state st (run_leaving info) g
      in if empty then channel_map_close (lc_id c) g' else g')"

text \<open>The spawned task of a dropped voice handle; its result is ignored.\<close>

definition leave_voice :: "request_env \<Rightarrow> uuid \<times> uuid \<Rightarrow> gateway \<Rightarrow> gateway" where
  "leave_voice e task g =
     g\<lparr>gw_voice := fst (host_leave e (fst task) (snd task) (gw_voice g)),
       gw_leaves := remove1 task (gw_leaves g)\<rparr>"

section \<open>Answering the sessions\<close>

record gateway_env =
  ge_request :: request_env
  ge_bind_ok :: "port_ref \<Rightarrow> bool"
  ge_now :: instant

text \<open>
  \<open>perform e a g\<close> is the gateway after the action \<open>a\<close>, when its answer is the one the gateway gives
  at this moment, and \<open>None\<close> otherwise. What the control stream says is up to the client; a channel
  event comes from the log of some channel.
\<close>

definition perform :: "gateway_env \<Rightarrow> unit action \<Rightarrow> gateway \<Rightarrow> gateway option" where
  "perform e a g = (case a of
      ASelect b (ChanEvt ev) \<Rightarrow> answered (\<exists>c \<in> set (gw_states g). ev \<in> set (lc_log c)) g
    | ASelect b _ \<Rightarrow> Some g
    | ANext r \<Rightarrow> Some g
    | ASend m ok \<Rightarrow> Some g
    | AMapGet room r \<Rightarrow> answered (r = channels_get room g) g
    | AMapOrInsert c r \<Rightarrow> (case or_insert c g of (g', c') \<Rightarrow> answered (r = c') g')
    | AMapReassign room v r \<Rightarrow> (case replace_voice room v g of (g', c) \<Rightarrow> answered (r = Some c) g')
    | AInitState room r \<Rightarrow> (case init_state room g of (g', st) \<Rightarrow> answered (r = Some st) g')
    | AVoiceFor room reassign r \<Rightarrow>
        (case get_voice_host_for (ge_bind_ok e) (ge_now e) room reassign (gw_db g) (gw_voice g) of
           (srv, res) \<Rightarrow> answered (r = res) (g\<lparr>gw_voice := srv\<rparr>))
    | AOpen v q r \<Rightarrow> (case host_open_connection (ge_request e) q (gw_voice g) of
           (srv, res) \<Rightarrow> answered (r = res) (g\<lparr>gw_voice := srv\<rparr>))
    | AEstablish v q r \<Rightarrow> (case host_establish_session (ge_request e) q (gw_voice g) of
           (srv, res) \<Rightarrow> answered (r = res) (g\<lparr>gw_voice := srv\<rparr>))
    | AJoin st info r \<Rightarrow> (case join_room st info g of (g', rh) \<Rightarrow> answered (r = rh) g')
    | AMembers st r \<Rightarrow> answered (r = Some (local_members (gw_states g ! st))) g
    | ADropRoom rh \<Rightarrow> Some (drop_room rh g)
    | ASpawnLeave v room client \<Rightarrow> Some (g\<lparr>gw_leaves := (room, client) # gw_leaves g\<rparr>))"

section \<open>The running gateway\<close>

text \<open>Each session with the actions it has performed and what it still has to do.\<close>

record gateway_system =
  sy_gateway :: gateway
  sy_sessions :: "(unit action list \<times> (unit, unit session option) prog) list"

inductive sys_step :: "(u8 list \<Rightarrow> string) \<Rightarrow> gateway_system \<Rightarrow> gateway_system \<Rightarrow> bool"
  for b64 :: "u8 list \<Rightarrow> string" where
  connect: "sys_step b64 s (s\<lparr>sy_sessions := sy_sessions s @ [([], session_start b64 sid)]\<rparr>)"
| act: "i < length (sy_sessions s) \<Longrightarrow> sy_sessions s ! i = (tr, p) \<Longrightarrow> advance a p = Some p' \<Longrightarrow>
     perform e a (sy_gateway s) = Some g \<Longrightarrow>
     sys_step b64 s (s\<lparr>sy_gateway := g,
       sy_sessions := (sy_sessions s)[i := (tr @ [a], resume b64 p')]\<rparr>)"
| room_left: "st < length (gw_states (sy_gateway s)) \<Longrightarrow>
     info \<in> set (lc_leaving (gw_states (sy_gateway s) ! st)) \<Longrightarrow>
     sys_step b64 s (s\<lparr>sy_gateway := leave_room st info (sy_gateway s)\<rparr>)"
| voice_left: "task \<in> set (gw_leaves (sy_gateway s)) \<Longrightarrow>
     sys_step b64 s (s\<lparr>sy_gateway := leave_voice e task (sy_gateway s)\<rparr>)"
| voice: "srv_step io (gw_voice (sy_gateway s)) srv \<Longrightarrow>
     sys_step b64 s (s\<lparr>sy_gateway := (sy_gateway s)\<lparr>gw_voice := srv\<rparr>\<rparr>)"
| registry: "sys_step b64 s (s\<lparr>sy_gateway := (sy_gateway s)\<lparr>gw_db := d\<rparr>\<rparr>)"

definition system_start :: "voice_server \<Rightarrow> db \<Rightarrow> gateway_system" where
  "system_start srv d = \<lparr>sy_gateway = gateway_new srv d, sy_sessions = []\<rparr>"

inductive_cases sys_stepE: "sys_step b64 s s'"

section \<open>Rooms and sessions\<close>

text \<open>What an action does to the channel states.\<close>

lemma perform_states:
  assumes "perform e a g = Some g'"
  shows "case a of
      AJoin st info r \<Rightarrow> gw_states g' = (gw_states g)[st := fst (local_join info (gw_states g ! st))] \<and>
        r = map_option (\<lambda>j. \<lparr>rh_state = st, rh_joined = j\<rparr>) (snd (local_join info (gw_states g ! st)))
    | ADropRoom rh \<Rightarrow> gw_states g' = (gw_states g)[rh_state rh :=
        drop_handle (rh_joined rh) (gw_states g ! rh_state rh)]
    | _ \<Rightarrow> gw_states g' = gw_states g \<or> (\<exists>room. gw_states g' = gw_states g @ [local_channel_new room])"
  using assms
  by (cases a) (auto simp: perform_def answered_def or_insert_def replace_voice_def init_state_def
      join_room_def drop_room_def at_state_def Let_def split: option.splits if_splits prod.splits
      session_event.splits)

definition map_ok :: "gateway \<Rightarrow> bool" where
  "map_ok g \<longleftrightarrow> (\<forall>room c. channels_get room g = Some c \<longrightarrow> gc_state c < length (gw_states g))"

lemma perform_refs:
  assumes "perform e a g = Some g'" and "given_states a n = Some n'"
    and "n \<subseteq> {..<length (gw_states g)}" and "map_ok g"
  shows "n' \<subseteq> {..<length (gw_states g')}" and "map_ok g'"
proof -
  have "n' \<subseteq> {..<length (gw_states g')} \<and> map_ok g'"
    using assms
    by (cases a)
      (fastforce simp: perform_def answered_def given_states_def map_ok_def channels_get_def
        or_insert_def replace_voice_def init_state_def join_room_def drop_room_def at_state_def
        Let_def update_conv' simp del: map_of_eq_Some_iff
        split: option.splits if_splits prod.splits session_event.splits)+
  then show "n' \<subseteq> {..<length (gw_states g')}" "map_ok g'" by auto
qed

definition gateway_handles :: "gateway \<Rightarrow> nat \<Rightarrow> chat_room_joined list" where
  "gateway_handles g st = (if st < length (gw_states g) then lc_handles (gw_states g ! st) else [])"

lemma gateway_handles_change:
  assumes perf: "perform e a g = Some g'"
    and st: "\<forall>st' info r. a = AJoin st' info r \<longrightarrow> st' < length (gw_states g)"
    and held: "drops_open a (gateway_handles g)"
  shows "mset (gateway_handles g' st) + mset (at_room st (dropped_handle a)) =
    mset (gateway_handles g st) + mset (at_room st (joined_handle a))"
proof (cases a)
  case (AJoin st0 info r)
  then show ?thesis
    using perform_states [OF perf] st
    by (auto simp: gateway_handles_def nth_list_update local_join_eq at_room_def)
next
  case (ADropRoom rh)
  then show ?thesis
    using perform_states [OF perf] held
    by (auto simp: drops_open_def gateway_handles_def nth_list_update drop_handle_def at_room_def
      split: if_splits)
qed (use perform_states [OF perf] in \<open>auto simp: gateway_handles_def nth_append at_room_def
      local_channel_new_def\<close>)

interpretation rooms: session_world b64 "\<lambda>a g g'. \<exists>e. perform e a g = Some g'"
  "\<lambda>g. length (gw_states g)" gateway_handles map_ok for b64 :: "u8 list \<Rightarrow> string"
proof
  fix a :: "unit action" and g g' :: gateway
  assume "\<exists>e. perform e a g = Some g'"
  then obtain e where perf: "perform e a g = Some g'" ..
  show "length (gw_states g) \<le> length (gw_states g')"
    using perform_states [OF perf] by (cases a) auto
  show "n' \<subseteq> {..<length (gw_states g')} \<and> map_ok g'"
    if "given_states a n = Some n'" "n \<subseteq> {..<length (gw_states g)}" "map_ok g" for n n'
    using perform_refs [OF perf that] by blast
  show "mset (gateway_handles g' st) + mset (at_room st (dropped_handle a)) =
      mset (gateway_handles g st) + mset (at_room st (joined_handle a))"
    if "\<forall>st' info r. a = AJoin st' info r \<longrightarrow> st' < length (gw_states g)"
      "drops_open a (gateway_handles g)" for st
    using gateway_handles_change [OF perf that] .
next
  fix st info rh and g g' :: gateway
  assume "\<exists>e. perform e (AJoin st info (Some rh)) g = Some g'" and st: "st < length (gw_states g)"
  then obtain e where "perform e (AJoin st info (Some rh)) g = Some g'" by blast
  then show "rh_state rh < length (gw_states g)"
    using perform_states [of e "AJoin st info (Some rh)" g g'] st
    by (cases "snd (local_join info (gw_states g ! st))") auto
qed (simp add: gateway_handles_def)

lemma leave_room_facts:
  "length (gw_states (leave_room st info g)) = length (gw_states g)"
  "st' < length (gw_states g) \<Longrightarrow>
     lc_handles (gw_states (leave_room st info g) ! st') = lc_handles (gw_states g ! st')"
  "map_ok g \<Longrightarrow> map_ok (leave_room st info g)"
proof -
  have states: "gw_states (leave_room st info g) =
      (gw_states g)[st := run_leaving info (gw_states g ! st)]"
    by (simp add: leave_room_def Let_def at_state_def channel_map_close_def)
  then show "length (gw_states (leave_room st info g)) = length (gw_states g)" by simp
  show "st' < length (gw_states g) \<Longrightarrow>
      lc_handles (gw_states (leave_room st info g) ! st') = lc_handles (gw_states g ! st')"
    unfolding states by (cases "st' = st") (simp_all add: run_leaving_def)
  show "map_ok g \<Longrightarrow> map_ok (leave_room st info g)"
    by (auto simp: leave_room_def Let_def at_state_def channel_map_close_def map_ok_def
        channels_get_def delete_conv' simp del: map_of_eq_Some_iff split: if_splits)
qed

lemma sys_inv_keep:
  assumes "rooms.agree b64 (sy_gateway s) (sy_sessions s)" and "map_ok (sy_gateway s) \<Longrightarrow> map_ok g"
    and "length (gw_states g) = length (gw_states (sy_gateway s))"
    and "\<And>st. st < length (gw_states g) \<Longrightarrow>
      lc_handles (gw_states g ! st) = lc_handles (gw_states (sy_gateway s) ! st)"
  shows "rooms.agree b64 g (sy_sessions s)"
  using assms(2-4) rooms.agreeD(2) [OF assms(1)]
  by (intro rooms.agree_keep [OF assms(1)]) (simp_all add: gateway_handles_def)

lemma voice_left_states: "gw_states (leave_voice e task g) = gw_states g"
  by (simp add: leave_voice_def)

lemma map_ok_rest [simp]:
  "map_ok (leave_voice e task g) = map_ok g" "map_ok (g\<lparr>gw_voice := srv\<rparr>) = map_ok g"
  "map_ok (g\<lparr>gw_db := d\<rparr>) = map_ok g"
  by (simp_all add: leave_voice_def map_ok_def channels_get_def)

lemma sys_inv_step:
  "sys_step b64 s s' \<Longrightarrow> rooms.agree b64 (sy_gateway s) (sy_sessions s) \<Longrightarrow>
     rooms.agree b64 (sy_gateway s') (sy_sessions s')"
proof (induction rule: sys_step.induct)
  case (connect s sid)
  then show ?case by (simp add: rooms.agree_connect)
next
  case (act i s tr p a p' e g)
  then show ?case using rooms.agree_act [OF act.prems act(1-3)] by auto
next
  case (room_left st s info)
  then show ?case by (auto intro!: sys_inv_keep simp: leave_room_facts)
qed (auto intro!: sys_inv_keep simp del: fun_upd_apply simp: voice_left_states)

lemma sys_inv_reach:
  "(sys_step b64)\<^sup>*\<^sup>* (system_start srv d) s \<Longrightarrow> rooms.agree b64 (sy_gateway s) (sy_sessions s)"
proof (induction rule: rtranclp_induct)
  case base
  have "map_ok (gateway_new srv d)" by (simp add: map_ok_def channels_get_def gateway_new_def)
  then show ?case
    unfolding rooms.agree_def
    by (simp add: system_start_def gateway_new_def are_runs_def gateway_handles_def held_handles_def)
qed (rule sys_inv_step)

text \<open>
  C11: Rooms and sessions agree. In every reachable state of the standalone gateway, with any number
  of sessions running concurrently, the open handles of each channel are exactly the room handles
  its sessions hold, each held once; a session that has returned or failed holds none. So no
  channel is kept open by a session that is gone, and no session holds a handle its channel has
  forgotten.
\<close>

theorem rooms_and_sessions_agree:
  assumes "(sys_step b64)\<^sup>*\<^sup>* (system_start srv d) s"
    and "st < length (gw_states (sy_gateway s))"
  shows "mset (lc_handles (gw_states (sy_gateway s) ! st)) = mset (held_handles st (sy_sessions s)) \<and>
    (\<forall>(tr, p) \<in> set (sy_sessions s). p = Ret None \<or> (\<exists>e. p = Fail e) \<longrightarrow> held tr = None)"
proof -
  note inv = sys_inv_reach [OF assms(1)]
  have "held tr = None" if "(tr, p) \<in> set (sy_sessions s)" and "p = Ret None \<or> (\<exists>e. p = Fail e)" for tr p
    using over_holds_nothing rooms.agreeD(1) [OF inv] that unfolding are_runs_def by blast
  then show ?thesis
    using rooms.agreeD(5) [OF inv, of st] assms(2) by (auto simp: gateway_handles_def)
qed

section \<open>A session in a running gateway\<close>

fun perform_all :: "gateway_env \<Rightarrow> unit action list \<Rightarrow> gateway \<Rightarrow> gateway option" where
  "perform_all e [] g = Some g"
| "perform_all e (a # as) g = Option.bind (perform e a g) (perform_all e as)"

lemma act_many:
  assumes "i < length (sy_sessions s)" and "sy_sessions s ! i = (tr, p)"
    and "session_run b64 acts p = Some p'" and "perform_all e acts (sy_gateway s) = Some g"
  shows "(sys_step b64)\<^sup>*\<^sup>* s (s\<lparr>sy_gateway := g, sy_sessions := (sy_sessions s)[i := (tr @ acts, p')]\<rparr>)"
  using assms
proof (induction acts arbitrary: s tr p)
  case Nil
  have "s\<lparr>sy_gateway := g, sy_sessions := (sy_sessions s)[i := (tr @ [], p')]\<rparr> = s"
    using Nil.prems list_update_id [of "sy_sessions s" i] by simp
  then show ?case by (simp only: rtranclp.rtrancl_refl)
next
  case (Cons a acts)
  obtain q g1 where q: "advance a p = Some q" "session_run b64 acts (resume b64 q) = Some p'"
      and g1: "perform e a (sy_gateway s) = Some g1" "perform_all e acts g1 = Some g"
    using Cons.prems(3,4) by (auto split: option.splits bind_splits)
  let ?s = "s\<lparr>sy_gateway := g1, sy_sessions := (sy_sessions s)[i := (tr @ [a], resume b64 q)]\<rparr>"
  have "sys_step b64 s ?s" using sys_step.act [OF Cons.prems(1,2) q(1) g1(1)] .
  moreover have "(sys_step b64)\<^sup>*\<^sup>* ?s (?s\<lparr>sy_gateway := g,
      sy_sessions := (sy_sessions ?s)[i := ((tr @ [a]) @ acts, p')]\<rparr>)"
    using Cons.prems(1) q(2) g1(2) by (intro Cons.IH) simp_all
  ultimately show ?case by (simp add: converse_rtranclp_into_rtranclp)
qed

text \<open>A client joins channel 7 of the sample registry.\<close>

definition demo_host_env :: gateway_env where
  "demo_host_env = \<lparr>ge_request = demo_env, ge_bind_ok = (\<lambda>p. True), ge_now = 2000\<rparr>"

definition demo_member :: client_info where
  "demo_member = \<lparr>ci_client_id = 5, ci_source_id = 77, ci_name = ''ann''\<rparr>"

definition demo_joining :: "unit action list" where
  "demo_joining =
     (let ch = \<lparr>gc_room_id = 7, gc_state = 0, gc_voice = ()\<rparr> in
      [ANext (Some (CeInit \<lparr>user_id = 5, init_name = ''ann''\<rparr>)), ASend (SeInit 3) True,
       ASelect False (ClientEvt (Some (CeJoin 7))),
       AMapGet 7 None, AVoiceFor 7 False (Some (Some ())), AInitState 7 (Some 0), AMapOrInsert ch ch,
       AOpen () \<lparr>oc_user_name = ''ann'', oc_channel_id = 7, oc_client_id = 5\<rparr>
         (Inr \<lparr>cd_sock = SocketV4 0x7F000001 33333, cd_source_id = 77\<rparr>),
       AJoin 0 demo_member (Some \<lparr>rh_state = 0, rh_joined = \<lparr>updates = 0, jr_info = demo_member\<rparr>\<rparr>)])"

definition empty_server :: voice_server where
  "empty_server = voice_server_new (V4 0x7F000001) \<lparr>start = 33333, state = [True, True]\<rparr>"

definition hosting_server :: voice_server where
  "hosting_server = empty_server\<lparr>vs_ports := \<lparr>start = 33333, state = [False, True]\<rparr>,
     channels := [(7, \<lparr>ch_fwd = 0, ch_port = \<lparr>port = 33333, slot = 0\<rparr>\<rparr>)],
     forwarders := [(7, forwarder_new 2000)]\<rparr>"

lemma demo_voice_for:
  "get_voice_host_for (\<lambda>p. True) 2000 7 False sample_db empty_server =
     (hosting_server, Some (Some ()))"
  by (simp add: get_voice_host_for_def Registry.get_channel_def channel_row_get_def sample_db_value
      host_assign_channel_def Voice_Server.assign_channel_def empty_server_def hosting_server_def
      voice_server_new_def allocate_port_def ports_get_def channel_new_def)

lemma demo_open:
  "\<exists>srv. host_open_connection demo_env
     \<lparr>oc_user_name = ''ann'', oc_channel_id = 7, oc_client_id = 5\<rparr> hosting_server =
     (srv, Inr \<lparr>cd_sock = SocketV4 0x7F000001 33333, cd_source_id = 77\<rparr>)"
  by (simp add: host_open_connection_def Voice_Server.open_connection_def
      Voice_Server.get_channel_def healthy_def hosting_server_def empty_server_def fwd_at_def
      voice_server_new_def channel_open_connection_def channel_request_def demo_env_def Let_def
      forwarder_new_def fwd_step_def Forwarder.open_connection_def set_fwd_def)

lemma demo_performs:
  "\<exists>g. perform_all demo_host_env demo_joining (gateway_new empty_server sample_db) = Some g \<and>
     gw_states g = [fst (local_join demo_member (local_channel_new 7))]"
proof -
  obtain srv where "host_open_connection demo_env
      \<lparr>oc_user_name = ''ann'', oc_channel_id = 7, oc_client_id = 5\<rparr> hosting_server =
      (srv, Inr \<lparr>cd_sock = SocketV4 0x7F000001 33333, cd_source_id = 77\<rparr>)"
    using demo_open by blast
  then show ?thesis
    by (simp add: demo_joining_def Let_def perform_def answered_def gateway_new_def channels_get_def
        demo_host_env_def demo_voice_for init_state_def or_insert_def join_room_def at_state_def
        local_join_eq local_channel_new_def locally_present_new_def)
qed

lemma demo_joining_run:
  "\<exists>p. session_run demo_key demo_joining (session_start demo_key 3) = Some p"
  by (simp add: demo_joining_def Let_def session_start_def resume_def program_defs demo_member_def)

lemma demo_system:
  "\<exists>s. (sys_step demo_key)\<^sup>*\<^sup>* (system_start empty_server sample_db) s \<and>
     gw_states (sy_gateway s) = [fst (local_join demo_member (local_channel_new 7))] \<and>
     map fst (sy_sessions s) = [demo_joining]"
proof -
  obtain g where g: "perform_all demo_host_env demo_joining (gateway_new empty_server sample_db) = Some g"
      "gw_states g = [fst (local_join demo_member (local_channel_new 7))]"
    using demo_performs by blast
  obtain p where p: "session_run demo_key demo_joining (session_start demo_key 3) = Some p"
    using demo_joining_run by blast
  let ?s0 = "system_start empty_server sample_db"
  let ?s1 = "?s0\<lparr>sy_sessions := sy_sessions ?s0 @ [([], session_start demo_key 3)]\<rparr>"
  have "(sys_step demo_key)\<^sup>*\<^sup>* ?s0 ?s1" using sys_step.connect by (rule r_into_rtranclp)
  moreover have "(sys_step demo_key)\<^sup>*\<^sup>* ?s1 (?s1\<lparr>sy_gateway := g,
      sy_sessions := (sy_sessions ?s1)[0 := ([] @ demo_joining, p)]\<rparr>)"
    using p g(1) by (intro act_many) (simp_all add: system_start_def)
  ultimately have "(sys_step demo_key)\<^sup>*\<^sup>* ?s0 (?s1\<lparr>sy_gateway := g,
      sy_sessions := (sy_sessions ?s1)[0 := ([] @ demo_joining, p)]\<rparr>)"
    by (rule rtranclp_trans)
  then show ?thesis
    by (intro exI conjI) (assumption, simp_all add: g(2) system_start_def)
qed

theorem rooms_and_sessions_agree_witness:
  "\<exists>s :: gateway_system. map fst (sy_sessions s) = [demo_joining] \<and>
     mset (lc_handles (gw_states (sy_gateway s) ! 0)) = mset (held_handles 0 (sy_sessions s)) \<and>
     held_handles 0 (sy_sessions s) \<noteq> []"
proof -
  obtain s where s: "(sys_step demo_key)\<^sup>*\<^sup>* (system_start empty_server sample_db) s"
      "gw_states (sy_gateway s) = [fst (local_join demo_member (local_channel_new 7))]"
      "map fst (sy_sessions s) = [demo_joining]"
    using demo_system by (elim exE conjE) (rule that)
  have agree: "mset (lc_handles (gw_states (sy_gateway s) ! 0)) = mset (held_handles 0 (sy_sessions s))"
    using rooms_and_sessions_agree [OF s(1), of 0] s(2) by simp
  have "lc_handles (gw_states (sy_gateway s) ! 0) \<noteq> []"
    unfolding s(2) by (simp add: local_join_eq local_channel_new_def locally_present_new_def)
  then have some: "held_handles 0 (sy_sessions s) \<noteq> []"
    using agree by fastforce
  show ?thesis by (intro exI [of _ s] conjI s(3) agree some)
qed

section \<open>A channel closed by its predecessor\<close>

text \<open>
  A client is in a room with two sessions. The first one goes, and the room, believed to be empty,
  is closed. Another client opens the room anew; then the second session of the first client goes.
\<close>

definition opened_room :: "uuid \<Rightarrow> gateway \<Rightarrow> gateway" where
  "opened_room room g = (let (g, st) = init_state room g
     in fst (or_insert \<lparr>gc_room_id = room, gc_state = st, gc_voice = ()\<rparr> g))"

definition before_late_leave :: "uuid \<Rightarrow> client_info \<Rightarrow> client_info \<Rightarrow> gateway \<Rightarrow> gateway" where
  "before_late_leave room ann bob g =
     (let g = opened_room room g;
          (g, first) = join_room 0 ann g;
          (g, second) = join_room 0 ann g;
          g = leave_room 0 ann (drop_room (the first) g);
          g = opened_room room g;
          (g, other) = join_room 1 bob g
      in drop_room (the second) g)"

text \<open>
  A late leave closes a newer channel. When a client had joined a room with two sessions, the
  leave of the first closes the room, and the leave of the second removes whatever channel the map
  holds for the room by then: another client that has opened the room again stays a member of a
  channel that nobody can find any more.
\<close>

theorem late_leave_closes_newer_channel:
  fixes room ann bob srv d
  defines "g \<equiv> before_late_leave room ann bob (gateway_new srv d)"
  shows "channels_get room g = Some \<lparr>gc_room_id = room, gc_state = 1, gc_voice = ()\<rparr> \<and>
    lc_leaving (gw_states g ! 0) = [ann] \<and>
    channels_get room (leave_room 0 ann g) = None \<and>
    local_members (gw_states (leave_room 0 ann g) ! 1) = [bob]"
proof -
  let ?ch = "\<lambda>st. \<lparr>gc_room_id = room, gc_state = st, gc_voice = ()\<rparr>"
  let ?in = "event_joined (ci_client_id ann) (ci_name ann) (ci_source_id ann)"
  let ?out = "event_left (ci_client_id ann) (ci_name ann) (ci_source_id ann)"
  let ?A = "\<lambda>log ms hs ls gone. \<lparr>lc_id = room, lc_log = log, lc_present = \<lparr>inner = ms, live = \<not> gone\<rparr>,
      lc_handles = hs, lc_leaving = ls, lc_closed = gone\<rparr>"
  let ?g = "\<lambda>m sts. \<lparr>gw_map = m, gw_states = sts, gw_voice = srv, gw_db = d, gw_leaves = []\<rparr>"
  let ?h = "\<lambda>n. \<lparr>updates = n, jr_info = ann\<rparr>"
  let ?rh = "\<lambda>n. \<lparr>rh_state = 0, rh_joined = ?h n\<rparr>"
  let ?me = "(ci_client_id ann, ann)"
  let ?B = "fst (local_join bob (local_channel_new room))"
  have B: "lc_present ?B = \<lparr>inner = [(ci_client_id bob, bob)], live = True\<rparr>" "lc_id ?B = room"
    by (simp_all add: local_join_eq local_channel_new_def locally_present_new_def)
  have 1: "opened_room room (gateway_new srv d) = ?g [(room, ?ch 0)] [?A [] [] [] [] False]"
    by (simp add: opened_room_def gateway_new_def init_state_def or_insert_def channels_get_def
        local_channel_new_def locally_present_new_def)
  have 2: "join_room 0 ann (?g [(room, ?ch 0)] [?A [] [] [] [] False]) =
      (?g [(room, ?ch 0)] [?A [?in] [?me] [?h 0] [] False], Some (?rh 0))"
    by (simp add: join_room_def at_state_def local_join_eq)
  have 3: "join_room 0 ann (?g [(room, ?ch 0)] [?A [?in] [?me] [?h 0] [] False]) =
      (?g [(room, ?ch 0)] [?A [?in, ?in] [?me] [?h 1, ?h 0] [] False], Some (?rh 1))"
    by (simp add: join_room_def at_state_def local_join_eq)
  have 4: "drop_room (?rh 0) (?g [(room, ?ch 0)] [?A [?in, ?in] [?me] [?h 1, ?h 0] [] False]) =
      ?g [(room, ?ch 0)] [?A [?in, ?in] [?me] [?h 1] [ann] False]"
    by (simp add: drop_room_def at_state_def drop_handle_def)
  have 5: "leave_room 0 ann (?g [(room, ?ch 0)] [?A [?in, ?in] [?me] [?h 1] [ann] False]) =
      ?g [] [?A [?in, ?in, ?out] [] [?h 1] [] True]"
    by (simp add: leave_room_def at_state_def run_leaving_def local_leave_eq present_leave_def
        channel_map_close_def Let_def)
  have 6: "opened_room room (?g [] [?A [?in, ?in, ?out] [] [?h 1] [] True]) =
      ?g [(room, ?ch 1)] [?A [?in, ?in, ?out] [] [?h 1] [] True, local_channel_new room]"
    by (simp add: opened_room_def init_state_def or_insert_def channels_get_def)
  have 7: "fst (join_room 1 bob (?g [(room, ?ch 1)]
        [?A [?in, ?in, ?out] [] [?h 1] [] True, local_channel_new room])) =
      ?g [(room, ?ch 1)] [?A [?in, ?in, ?out] [] [?h 1] [] True, ?B]"
    by (simp add: join_room_def at_state_def)
  have 8: "drop_room (?rh 1) (?g [(room, ?ch 1)] [?A [?in, ?in, ?out] [] [?h 1] [] True, ?B]) =
      ?g [(room, ?ch 1)] [?A [?in, ?in, ?out] [] [] [ann] True, ?B]"
    by (simp add: drop_room_def at_state_def drop_handle_def)
  have g: "g = ?g [(room, ?ch 1)] [?A [?in, ?in, ?out] [] [] [ann] True, ?B]"
    unfolding g_def before_late_leave_def Let_def 1 2 3 prod.case option.sel 4 5 6
    by (simp only: case_prod_beta 7 8)
  show ?thesis
    unfolding g
    by (simp add: leave_room_def at_state_def run_leaving_def local_leave_eq present_leave_def
        channel_map_close_def channels_get_def Let_def B local_members_def present_list_def)
qed

end
