(* ===== verification/Voice_Grpc.thy ===== *)
theory Voice_Grpc
  imports Gateway
begin

text \<open>
  The voice server behind gRPC: the service of \<open>server/voice/grpc/src/service.rs\<close>, and its client in
  the gateway, \<open>RemoteVoiceHost\<close> (\<open>server/gateway/src/voice_instance/remote.rs\<close>), over the messages
  of \<open>server/voice/grpc/service.proto\<close>. How UUIDs and IP addresses are written and read is library
  code and a parameter; so is what the network does to a call.
\<close>

section \<open>Texts and statuses\<close>

record texts =
  uuid_text :: "uuid \<Rightarrow> string"
  uuid_parse :: "string \<Rightarrow> uuid option"
  ip_text :: "ip_addr \<Rightarrow> string"
  ip_parse :: "string \<Rightarrow> ip_addr option"

text \<open>What is documented of them: reading what was written gives it back.\<close>

definition texts_ok :: "texts \<Rightarrow> bool" where
  "texts_ok tx \<longleftrightarrow> (\<forall>i. uuid_parse tx (uuid_text tx i) = Some i) \<and>
     (\<forall>a. ip_parse tx (ip_text tx a) = Some a)"

datatype code = CodeNotFound | CodeInvalidArgument | CodeInternal | CodeUnavailable | CodeOther

record grpc_status =
  st_code :: code
  st_message :: string

definition invalid_argument :: "string \<Rightarrow> grpc_status" where
  "invalid_argument msg = \<lparr>st_code = CodeInvalidArgument, st_message = msg\<rparr>"

definition not_found :: "string \<Rightarrow> grpc_status" where
  "not_found msg = \<lparr>st_code = CodeNotFound, st_message = msg\<rparr>"

definition internal :: "string \<Rightarrow> grpc_status" where
  "internal msg = \<lparr>st_code = CodeInternal, st_message = msg\<rparr>"

text \<open>\<open>parse\<close> and \<open>try_opt\<close> of the service.\<close>

definition parse_field :: "(string \<Rightarrow> 'a option) \<Rightarrow> string \<Rightarrow> string \<Rightarrow> grpc_status + 'a" where
  "parse_field parse s field = (case parse s of
      None \<Rightarrow> Inl (invalid_argument (''bad '' @ field)) | Some x \<Rightarrow> Inr x)"

definition try_opt :: "'a option \<Rightarrow> string \<Rightarrow> grpc_status + 'a" where
  "try_opt v field = (case v of
      None \<Rightarrow> Inl (invalid_argument (''missing '' @ field)) | Some x \<Rightarrow> Inr x)"

definition and_then :: "'e + 'a \<Rightarrow> ('a \<Rightarrow> 'e + 'b) \<Rightarrow> 'e + 'b" where
  "and_then r f = (case r of Inl e \<Rightarrow> Inl e | Inr x \<Rightarrow> f x)"

lemma and_then_simps [simp]: "and_then (Inl e) f = Inl e" "and_then (Inr x) f = f x"
  by (simp_all add: and_then_def)

section \<open>Messages\<close>

record pb_sock_addr =
  pb_ip :: string
  pb_port :: u32

record pb_open_request =
  po_user_name :: string
  po_user_id :: string
  po_channel_id :: string

record pb_open_response =
  pb_udp_sock :: "pb_sock_addr option"
  pb_src_id :: u32

record pb_establish_request =
  pe_user_id :: string
  pe_channel_id :: string
  pe_client_sock :: "pb_sock_addr option"

record pb_establish_response =
  pe_crypt_key :: "u8 list"

record pb_user_request =
  pu_user_id :: string
  pu_channel_id :: string

datatype pb_user_status = PbWaiting | PbPeered | PbError

record pb_client_info =
  pc_client_id :: string
  pc_src_id :: u32
  pc_name :: string

section \<open>Conversions of the service\<close>

definition map_voice_error :: "voice_error \<Rightarrow> grpc_status" where
  "map_voice_error e = (case e of
      NoOpenPorts \<Rightarrow> \<lparr>st_code = CodeUnavailable, st_message = ''server full''\<rparr>
    | OtherError \<Rightarrow> internal ''internal error''
    | PeerNotFound \<Rightarrow> not_found ''client not present''
    | ChannelNotFound \<Rightarrow> not_found ''channel not hosted here'')"

definition pb_sock_addr_from :: "texts \<Rightarrow> socket_addr \<Rightarrow> pb_sock_addr" where
  "pb_sock_addr_from tx a = \<lparr>pb_ip = ip_text tx (sa_ip a), pb_port = ucast (sa_port a)\<rparr>"

definition open_request_from_pb :: "texts \<Rightarrow> pb_open_request \<Rightarrow> grpc_status + open_connection_req" where
  "open_request_from_pb tx r =
     and_then (parse_field (uuid_parse tx) (po_user_id r) ''user_id'') (\<lambda>client.
     and_then (parse_field (uuid_parse tx) (po_channel_id r) ''channel_id'') (\<lambda>room.
     Inr \<lparr>oc_user_name = po_user_name r, oc_channel_id = room, oc_client_id = client\<rparr>))"

definition open_response_to_pb :: "texts \<Rightarrow> connection_data \<Rightarrow> pb_open_response" where
  "open_response_to_pb tx c =
     \<lparr>pb_udp_sock = Some (pb_sock_addr_from tx (cd_sock c)), pb_src_id = cd_source_id c\<rparr>"

text \<open>\<open>u16::try_from\<close>.\<close>

definition port_try_from :: "u32 \<Rightarrow> u16 option" where
  "port_try_from p = (if unat p < 2 ^ 16 then Some (ucast p) else None)"

definition establish_request_from_pb ::
  "texts \<Rightarrow> pb_establish_request \<Rightarrow> grpc_status + establish_session_req" where
  "establish_request_from_pb tx r =
     and_then (parse_field (uuid_parse tx) (pe_user_id r) ''user_id'') (\<lambda>client.
     and_then (parse_field (uuid_parse tx) (pe_channel_id r) ''channel_id'') (\<lambda>room.
     and_then (try_opt (pe_client_sock r) ''client_sock'') (\<lambda>sock.
     and_then (parse_field (ip_parse tx) (pb_ip sock) ''client_sock.ip'') (\<lambda>ip.
     and_then (case port_try_from (pb_port sock) of
         None \<Rightarrow> Inl (invalid_argument ''port out of range'') | Some p \<Rightarrow> Inr p) (\<lambda>port.
     Inr \<lparr>es_channel_id = room, es_client_id = client, es_client_addr = sa_from ip port\<rparr>)))))"

definition user_status_to_pb :: "connection_state \<Rightarrow> pb_user_status" where
  "user_status_to_pb s = (case s of
      Waiting \<Rightarrow> PbWaiting | Peered \<Rightarrow> PbPeered | Stopped \<Rightarrow> PbError)"

definition client_info_to_pb :: "texts \<Rightarrow> peer \<Rightarrow> pb_client_info" where
  "client_info_to_pb tx p = \<lparr>pc_client_id = uuid_text tx (peer_id p),
     pc_src_id = peer_source_id p, pc_name = peer_name p\<rparr>"

section \<open>The service\<close>

text \<open>A call that gets past its arguments runs on the voice server; its errors become statuses.\<close>

definition serve :: "('a \<Rightarrow> 's \<Rightarrow> 's \<times> (voice_error + 'b)) \<Rightarrow> grpc_status + 'a \<Rightarrow> 's \<Rightarrow>
    's \<times> (grpc_status + 'b)" where
  "serve f arg srv = (case arg of
      Inl st \<Rightarrow> (srv, Inl st)
    | Inr a \<Rightarrow> map_prod id (map_sum map_voice_error id) (f a srv))"

definition grpc_assign_channel ::
  "texts \<Rightarrow> (port_ref \<Rightarrow> bool) \<Rightarrow> instant \<Rightarrow> string \<Rightarrow> voice_server \<Rightarrow>
     voice_server \<times> (grpc_status + unit)" where
  "grpc_assign_channel tx bind_ok now room_text srv =
     (case parse_field (uuid_parse tx) room_text ''channel_id'' of
        Inl st \<Rightarrow> (srv, Inl st)
      | Inr room \<Rightarrow> (case Voice_Server.assign_channel bind_ok now room srv of
            (srv', Inl e) \<Rightarrow> (srv', Inl (internal ''failed to create channel''))
          | (srv', Inr c) \<Rightarrow> (srv', Inr ())))"

definition grpc_open_connection ::
  "texts \<Rightarrow> request_env \<Rightarrow> pb_open_request \<Rightarrow> voice_server \<Rightarrow>
     voice_server \<times> (grpc_status + pb_open_response)" where
  "grpc_open_connection tx e r srv = map_prod id (map_sum id (open_response_to_pb tx))
     (serve (open_connection e) (open_request_from_pb tx r) srv)"

definition grpc_establish_session ::
  "texts \<Rightarrow> request_env \<Rightarrow> pb_establish_request \<Rightarrow> voice_server \<Rightarrow>
     voice_server \<times> (grpc_status + pb_establish_response)" where
  "grpc_establish_session tx e r srv =
     map_prod id (map_sum id (\<lambda>sd. \<lparr>pe_crypt_key = sd_crypt_key sd\<rparr>))
       (serve (establish_session e) (establish_request_from_pb tx r) srv)"

definition user_request_from_pb :: "texts \<Rightarrow> pb_user_request \<Rightarrow> grpc_status + (uuid \<times> uuid)" where
  "user_request_from_pb tx r =
     and_then (parse_field (uuid_parse tx) (pu_user_id r) ''user_id'') (\<lambda>client.
     and_then (parse_field (uuid_parse tx) (pu_channel_id r) ''channel_id'') (\<lambda>room.
     Inr (room, client)))"

definition grpc_leave ::
  "texts \<Rightarrow> request_env \<Rightarrow> pb_user_request \<Rightarrow> voice_server \<Rightarrow> voice_server \<times> (grpc_status + unit)"
  where
  "grpc_leave tx e r srv =
     serve (\<lambda>(room, client). leave e room client) (user_request_from_pb tx r) srv"

definition grpc_user_status ::
  "texts \<Rightarrow> request_env \<Rightarrow> pb_user_request \<Rightarrow> voice_server \<Rightarrow>
     voice_server \<times> (grpc_status + pb_user_status option)" where
  "grpc_user_status tx e r srv = map_prod id (map_sum id (\<lambda>s. Some (user_status_to_pb s)))
     (serve (\<lambda>(room, client). user_status e room client) (user_request_from_pb tx r) srv)"

definition grpc_status_of_room ::
  "texts \<Rightarrow> request_env \<Rightarrow> (instant \<times> fwd_event) list \<Rightarrow> string \<Rightarrow> voice_server \<Rightarrow>
     voice_server \<times> (grpc_status + pb_client_info list)" where
  "grpc_status_of_room tx e before room_text srv =
     map_prod id (map_sum id (map (client_info_to_pb tx)))
       (serve (channel_peers_of e before) (parse_field (uuid_parse tx) room_text ''channel_id'') srv)"

section \<open>The client in the gateway\<close>

text \<open>
  What the network does to a call: it is delivered and answered, it does not arrive, or its answer
  is lost after the server has acted; in the last two cases the client sees some status.
\<close>

datatype net = Delivered | Lost grpc_status | AnswerLost grpc_status

definition over_network :: "net \<Rightarrow> ('s \<Rightarrow> 's \<times> (grpc_status + 'a)) \<Rightarrow> 's \<Rightarrow> 's \<times> (grpc_status + 'a)"
  where
  "over_network net f srv = (case net of
      Delivered \<Rightarrow> f srv
    | Lost st \<Rightarrow> (srv, Inl st)
    | AnswerLost st \<Rightarrow> (fst (f srv), Inl st))"

text \<open>\<open>str::contains\<close>.\<close>

fun contains :: "string \<Rightarrow> string \<Rightarrow> bool" where
  "contains [] pat = (pat = [])"
| "contains (c # s) pat = (take (length pat) (c # s) = pat \<or> contains s pat)"

definition voice_host_error_of :: "grpc_status \<Rightarrow> voice_host_error" where
  "voice_host_error_of st = (case st_code st of
      CodeNotFound \<Rightarrow>
        (if contains (st_message st) ''peer'' then NotFound ''client''
         else if contains (st_message st) ''channel'' then NotFound ''channel''
         else NotFound ''something'')
    | _ \<Rightarrow> HostOther)"

definition open_request_to_pb :: "texts \<Rightarrow> open_connection_req \<Rightarrow> pb_open_request" where
  "open_request_to_pb tx r = \<lparr>po_user_name = oc_user_name r,
     po_user_id = uuid_text tx (oc_client_id r), po_channel_id = uuid_text tx (oc_channel_id r)\<rparr>"

definition open_response_from_pb :: "texts \<Rightarrow> pb_open_response \<Rightarrow> connection_data option" where
  "open_response_from_pb tx r =
     Option.bind (pb_udp_sock r) (\<lambda>sock.
     Option.bind (ip_parse tx (pb_ip sock)) (\<lambda>ip.
     Option.bind (port_try_from (pb_port sock)) (\<lambda>port.
     Some \<lparr>cd_sock = sa_from ip port, cd_source_id = pb_src_id r\<rparr>)))"

definition establish_request_to_pb :: "texts \<Rightarrow> establish_session_req \<Rightarrow> pb_establish_request" where
  "establish_request_to_pb tx r = \<lparr>pe_user_id = uuid_text tx (es_client_id r),
     pe_channel_id = uuid_text tx (es_channel_id r),
     pe_client_sock = Some \<lparr>pb_ip = ip_text tx (sa_ip (es_client_addr r)),
       pb_port = ucast (sa_port (es_client_addr r))\<rparr>\<rparr>"

definition peer_from_pb :: "texts \<Rightarrow> pb_client_info \<Rightarrow> peer option" where
  "peer_from_pb tx v = map_option (\<lambda>i. \<lparr>peer_id = i, peer_source_id = pc_src_id v,
     peer_name = pc_name v\<rparr>) (uuid_parse tx (pc_client_id v))"

text \<open>\<open>collect\<close> into a \<open>Result\<close>: the first failure is the result.\<close>

fun collect :: "'a option list \<Rightarrow> 'a list option" where
  "collect [] = Some []"
| "collect (x # xs) = (case x of None \<Rightarrow> None | Some y \<Rightarrow> map_option (\<lambda>ys. y # ys) (collect xs))"

definition user_status_from_pb :: "pb_user_status option \<Rightarrow> connection_state option" where
  "user_status_from_pb s = map_option (\<lambda>s. case s of
      PbError \<Rightarrow> Stopped | PbPeered \<Rightarrow> Peered | PbWaiting \<Rightarrow> Waiting) s"

text \<open>A status becomes a host error, and so does an answer that cannot be converted.\<close>

definition received :: "('b \<Rightarrow> 'c option) \<Rightarrow> 's \<times> (grpc_status + 'b) \<Rightarrow> 's \<times> (voice_host_error + 'c)" where
  "received conv r = (fst r, case snd r of
      Inl st \<Rightarrow> Inl (voice_host_error_of st)
    | Inr x \<Rightarrow> (case conv x of None \<Rightarrow> Inl HostOther | Some y \<Rightarrow> Inr y))"

definition remote_open_connection ::
  "texts \<Rightarrow> net \<Rightarrow> request_env \<Rightarrow> open_connection_req \<Rightarrow> voice_server \<Rightarrow>
     voice_server \<times> (voice_host_error + connection_data)" where
  "remote_open_connection tx net e r srv = received (open_response_from_pb tx)
     (over_network net (grpc_open_connection tx e (open_request_to_pb tx r)) srv)"

definition remote_establish_session ::
  "texts \<Rightarrow> net \<Rightarrow> request_env \<Rightarrow> establish_session_req \<Rightarrow> voice_server \<Rightarrow>
     voice_server \<times> (voice_host_error + session_data)" where
  "remote_establish_session tx net e r srv =
     received (\<lambda>x. Some \<lparr>sd_crypt_key = pe_crypt_key x\<rparr>)
       (over_network net (grpc_establish_session tx e (establish_request_to_pb tx r)) srv)"

definition user_request_to_pb :: "texts \<Rightarrow> uuid \<Rightarrow> uuid \<Rightarrow> pb_user_request" where
  "user_request_to_pb tx room client =
     \<lparr>pu_user_id = uuid_text tx client, pu_channel_id = uuid_text tx room\<rparr>"

definition remote_leave ::
  "texts \<Rightarrow> net \<Rightarrow> request_env \<Rightarrow> uuid \<Rightarrow> uuid \<Rightarrow> voice_server \<Rightarrow>
     voice_server \<times> (voice_host_error + unit)" where
  "remote_leave tx net e room client srv =
     received Some (over_network net (grpc_leave tx e (user_request_to_pb tx room client)) srv)"

definition remote_user_status ::
  "texts \<Rightarrow> net \<Rightarrow> request_env \<Rightarrow> uuid \<Rightarrow> uuid \<Rightarrow> voice_server \<Rightarrow>
     voice_server \<times> (voice_host_error + connection_state)" where
  "remote_user_status tx net e room client srv = received user_status_from_pb
     (over_network net (grpc_user_status tx e (user_request_to_pb tx room client)) srv)"

definition remote_status ::
  "texts \<Rightarrow> net \<Rightarrow> request_env \<Rightarrow> (instant \<times> fwd_event) list \<Rightarrow> uuid \<Rightarrow> voice_server \<Rightarrow>
     voice_server \<times> (voice_host_error + peer list)" where
  "remote_status tx net e before room srv = received (\<lambda>xs. collect (map (peer_from_pb tx) xs))
     (over_network net (grpc_status_of_room tx e before (uuid_text tx room)) srv)"

definition remote_assign_channel ::
  "texts \<Rightarrow> net \<Rightarrow> (port_ref \<Rightarrow> bool) \<Rightarrow> instant \<Rightarrow> uuid \<Rightarrow> voice_server \<Rightarrow>
     voice_server \<times> (grpc_status + unit)" where
  "remote_assign_channel tx net bind_ok now room srv =
     over_network net (grpc_assign_channel tx bind_ok now (uuid_text tx room)) srv"

section \<open>Round trips\<close>

lemma port_round_trip [simp]: "port_try_from (ucast (p :: u16)) = Some p"
proof -
  have "unat (ucast p :: u32) = unat p"
    by (simp add: unsigned_ucast_eq take_bit_nat_eq_self order_less_trans [OF unat_u16_less])
  moreover have "ucast (ucast p :: u32) = p"
    by (rule bit_word_eqI) (auto simp: bit_simps dest: bit_imp_le_length)
  ultimately show ?thesis
    using unat_u16_less [of p] by (simp add: port_try_from_def)
qed

lemma texts_okD [simp]:
  assumes "texts_ok tx"
  shows "uuid_parse tx (uuid_text tx i) = Some i" and "ip_parse tx (ip_text tx a) = Some a"
  using assms by (simp_all add: texts_ok_def)

lemma open_request_round_trip [simp]:
  "texts_ok tx \<Longrightarrow> open_request_from_pb tx (open_request_to_pb tx r) = Inr r"
  by (simp add: open_request_from_pb_def open_request_to_pb_def parse_field_def)

lemma user_request_round_trip [simp]:
  "texts_ok tx \<Longrightarrow> user_request_from_pb tx (user_request_to_pb tx room client) = Inr (room, client)"
  by (simp add: user_request_from_pb_def user_request_to_pb_def parse_field_def)

lemma establish_request_round_trip:
  "texts_ok tx \<Longrightarrow> establish_request_from_pb tx (establish_request_to_pb tx r) =
     Inr (r\<lparr>es_client_addr := sa_from (sa_ip (es_client_addr r)) (sa_port (es_client_addr r))\<rparr>)"
  by (simp add: establish_request_from_pb_def establish_request_to_pb_def parse_field_def try_opt_def)

lemma open_response_round_trip:
  "texts_ok tx \<Longrightarrow> open_response_from_pb tx (open_response_to_pb tx c) =
     Some (c\<lparr>cd_sock := sa_from (sa_ip (cd_sock c)) (sa_port (cd_sock c))\<rparr>)"
  by (simp add: open_response_from_pb_def open_response_to_pb_def pb_sock_addr_from_def)

lemma peers_round_trip [simp]:
  "texts_ok tx \<Longrightarrow> collect (map (peer_from_pb tx) (map (client_info_to_pb tx) ps)) = Some ps"
  by (induction ps) (simp_all add: peer_from_pb_def client_info_to_pb_def)

lemma user_status_round_trip [simp]: "user_status_from_pb (Some (user_status_to_pb s)) = Some s"
  by (cases s) (simp_all add: user_status_from_pb_def user_status_to_pb_def)

section \<open>Remote and integrated\<close>

text \<open>
  The text of an error is all that differs: the service says \<open>client not present\<close>, which the client
  does not recognise as a missing peer.
\<close>

definition relabel :: "voice_host_error \<Rightarrow> voice_host_error" where
  "relabel e = (if e = NotFound ''peer'' then NotFound ''something'' else e)"

lemma error_over_the_wire:
  "voice_host_error_of (map_voice_error e) = relabel (voice_host_error_from e)"
  by (cases e) (simp_all add: voice_host_error_of_def map_voice_error_def relabel_def
      voice_host_error_from_def not_found_def internal_def)

lemma received_serve:
  assumes "\<And>x. x \<in> Basic_BNFs.setr (snd (f a srv)) \<Longrightarrow> conv (g x) = Some (h x)"
  shows "received conv (over_network Delivered (\<lambda>srv. map_prod id (map_sum id g) (serve f (Inr a) srv)) srv) =
    map_prod id (map_sum relabel h) (host_result (f a srv))"
  using assms
  by (cases "f a srv"; cases "snd (f a srv)")
    (auto simp: received_def over_network_def serve_def error_over_the_wire setr.simps)

lemma open_connection_addr:
  assumes "snd (open_connection e r srv) = Inr c"
  shows "sa_from (sa_ip (cd_sock c)) (sa_port (cd_sock c)) = cd_sock c"
  using assms by (auto simp: Voice_Server.open_connection_def split: option.splits prod.splits sum.splits)

lemma remote_open_delivered:
  assumes "texts_ok tx"
  shows "remote_open_connection tx Delivered e req srv =
    map_prod id (map_sum relabel id) (host_open_connection e req srv)"
  unfolding remote_open_connection_def grpc_open_connection_def host_open_connection_def
    open_request_round_trip [OF assms]
  by (rule received_serve)
    (use open_connection_addr [of e req srv] in
      \<open>auto simp: open_response_round_trip [OF assms] setr.simps\<close>)

lemma remote_status_delivered:
  assumes "texts_ok tx"
  shows "remote_status tx Delivered e before room srv =
    map_prod id (map_sum relabel id) (host_status e before room srv)"
proof -
  have "parse_field (uuid_parse tx) (uuid_text tx room) ''channel_id'' = Inr room"
    by (simp add: parse_field_def assms)
  then show ?thesis
    unfolding remote_status_def grpc_status_of_room_def host_status_def
    by (simp only:) (rule received_serve, simp only: peers_round_trip [OF assms] id_apply)
qed

text \<open>
  C21: The remote voice host is the integrated one. Over a network that delivers, each request of
  the gateway to a remote voice server has the effect on it and the answer that the integrated
  voice host would have, for socket addresses without flow label and scope; only the text of the
  error for a missing peer differs.
\<close>

theorem remote_host_is_integrated_host:
  assumes "texts_ok tx" and "es_client_addr est = sa_from addr_ip addr_port"
  shows "remote_open_connection tx Delivered e req srv =
      map_prod id (map_sum relabel id) (host_open_connection e req srv) \<and>
    remote_establish_session tx Delivered e est srv =
      map_prod id (map_sum relabel id) (host_establish_session e est srv) \<and>
    remote_leave tx Delivered e room client srv =
      map_prod id (map_sum relabel id) (host_leave e room client srv) \<and>
    remote_user_status tx Delivered e room client srv =
      map_prod id (map_sum relabel id) (host_user_status e room client srv) \<and>
    remote_status tx Delivered e before room srv =
      map_prod id (map_sum relabel id) (host_status e before room srv)"
proof (intro conjI)
  note ok = assms(1)
  show "remote_open_connection tx Delivered e req srv =
      map_prod id (map_sum relabel id) (host_open_connection e req srv)"
    by (rule remote_open_delivered [OF ok])
  have est: "establish_request_from_pb tx (establish_request_to_pb tx est) = Inr est"
    using establish_request_round_trip [OF ok, of est] assms(2) by simp
  show "remote_establish_session tx Delivered e est srv =
      map_prod id (map_sum relabel id) (host_establish_session e est srv)"
    unfolding remote_establish_session_def grpc_establish_session_def host_establish_session_def est
    by (rule received_serve) simp
  show "remote_leave tx Delivered e room client srv =
      map_prod id (map_sum relabel id) (host_leave e room client srv)"
    using received_serve [of "\<lambda>(room, client). leave e room client" "(room, client)" srv Some id id] ok
    by (simp add: remote_leave_def grpc_leave_def host_leave_def over_network_def sum.map_id0 map_prod.id)
  show "remote_user_status tx Delivered e room client srv =
      map_prod id (map_sum relabel id) (host_user_status e room client srv)"
    unfolding remote_user_status_def grpc_user_status_def host_user_status_def
      user_request_round_trip [OF ok]
    using received_serve [of "\<lambda>(room, client). user_status e room client" "(room, client)" srv
        user_status_from_pb "\<lambda>s. Some (user_status_to_pb s)" id] by simp
  show "remote_status tx Delivered e before room srv =
      map_prod id (map_sum relabel id) (host_status e before room srv)"
    by (rule remote_status_delivered [OF ok])
qed

text \<open>Texts that are easy to read back, for the witnesses.\<close>

definition tally_texts :: texts where
  "tally_texts = \<lparr>uuid_text = (\<lambda>i. replicate (unat i) CHR ''x''),
     uuid_parse = (\<lambda>s. Some (of_nat (length s))),
     ip_text = (\<lambda>a. case a of V4 w \<Rightarrow> CHR ''4'' # replicate (unat w) CHR ''x''
       | V6 w \<Rightarrow> CHR ''6'' # replicate (unat w) CHR ''x''),
     ip_parse = (\<lambda>s. case s of [] \<Rightarrow> None
       | c # s \<Rightarrow> Some (if c = CHR ''4'' then V4 (of_nat (length s)) else V6 (of_nat (length s))))\<rparr>"

lemma tally_texts_ok: "texts_ok tally_texts"
  by (auto simp: texts_ok_def tally_texts_def split: ip_addr.splits)

theorem remote_host_is_integrated_host_witness:
  "snd (remote_leave tally_texts Delivered demo_env 7 5 empty_server) = Inl (NotFound ''channel'') \<and>
   snd (remote_open_connection tally_texts Delivered demo_env
     \<lparr>oc_user_name = ''ann'', oc_channel_id = 7, oc_client_id = 5\<rparr> hosting_server) =
     Inr \<lparr>cd_sock = SocketV4 0x7F000001 33333, cd_source_id = 77\<rparr>"
proof -
  let ?est = "\<lparr>es_channel_id = 7, es_client_id = 5, es_client_addr = SocketV4 1 2\<rparr>"
  have est: "es_client_addr ?est = sa_from (V4 1) 2" by simp
  note same = remote_host_is_integrated_host [OF tally_texts_ok est, of demo_env]
  have "host_leave demo_env 7 5 empty_server = (empty_server, Inl (NotFound ''channel''))"
    by (simp add: host_leave_def Voice_Server.leave_def Voice_Server.get_channel_def empty_server_def
        voice_server_new_def voice_host_error_from_def)
  then show ?thesis
    using same [of _ empty_server 7 5] same [of "\<lparr>oc_user_name = ''ann'', oc_channel_id = 7,
      oc_client_id = 5\<rparr>" hosting_server] demo_open by (auto simp: relabel_def)
qed

text \<open>Which session requests can be read.\<close>

definition readable :: "texts \<Rightarrow> pb_establish_request \<Rightarrow> bool" where
  "readable tx r \<longleftrightarrow> uuid_parse tx (pe_user_id r) \<noteq> None \<and> uuid_parse tx (pe_channel_id r) \<noteq> None \<and>
     (case pe_client_sock r of None \<Rightarrow> False
      | Some sock \<Rightarrow> ip_parse tx (pb_ip sock) \<noteq> None \<and> unat (pb_port sock) < 2 ^ 16)"

lemma map_voice_error_code: "st_code (map_voice_error e) \<noteq> CodeInvalidArgument"
  by (cases e) (simp_all add: map_voice_error_def internal_def not_found_def)

lemma establish_request_readable:
  "case establish_request_from_pb tx r of
     Inl st \<Rightarrow> \<not> readable tx r \<and> st_code st = CodeInvalidArgument
   | Inr req \<Rightarrow> readable tx r"
  by (auto simp: establish_request_from_pb_def readable_def parse_field_def try_opt_def
      port_try_from_def invalid_argument_def and_then_def split: option.splits sum.splits if_splits)

text \<open>
  Malformed requests are refused. Whatever a session request says, the service answers
  \<open>InvalidArgument\<close> exactly when one of its ids cannot be read, or its socket is missing, cannot be
  read or has a port beyond 16 bits, and it does not touch the voice server then.
\<close>

theorem malformed_sessions_are_refused:
  "(readable tx r \<or> fst (grpc_establish_session tx e r srv) = srv) \<and>
   (readable tx r \<longleftrightarrow> \<not> (\<exists>st. snd (grpc_establish_session tx e r srv) = Inl st \<and>
      st_code st = CodeInvalidArgument))"
  using establish_request_readable [of tx r] map_voice_error_code
  by (cases "snd (establish_session e (projr (establish_request_from_pb tx r)) srv)")
    (auto simp: grpc_establish_session_def serve_def split: sum.splits)

end
