(* ===== verification/Channels_Grpc.thy ===== *)
theory Channels_Grpc
  imports Voice_Grpc
begin

text \<open>
  The channel registry behind gRPC: the service of \<open>server/channels/grpc/src/service.rs\<close>, its clients
  \<open>DistributedChannelRegistry\<close> in the gateway (\<open>channel_registry/distributed.rs\<close>) and
  \<open>RemoteRegistry\<close> in the voice server (\<open>server/voice/grpc/src/registry/mod.rs\<close>, with the heartbeat of
  \<open>server.rs\<close>), and the placement of a room on one of many voice servers. URLs are parsed by library
  code: \<open>url_parse\<close> gives the text a parsed URL is written back as, \<open>uri_ok\<close> says whether a URI is read.
\<close>

record url_texts = texts +
  url_parse :: "string \<Rightarrow> string option"
  uri_ok :: "string \<Rightarrow> bool"

definition base_texts :: "url_texts \<Rightarrow> texts" where
  "base_texts tx = texts.truncate tx"

section \<open>Messages\<close>

record timestamp =
  ts_seconds :: nat
  ts_nanos :: nat

record pb_server_info =
  pbs_server_id :: string
  pbs_name :: string

record pb_channel_info =
  pbc_channel_id :: string
  pbc_name :: string

record pb_server_response =
  psr_server_id :: string
  psr_name :: string
  psr_channels :: "pb_channel_info list"

record pb_channel_response =
  pcr_channel_id :: string
  pcr_name :: string
  pcr_voice_server_host :: "string option"
  pcr_server_id :: string
  pcr_updated_at :: "timestamp option"

definition timestamp_of :: "instant \<Rightarrow> timestamp" where
  "timestamp_of t = \<lparr>ts_seconds = t div 1000, ts_nanos = t mod 1000 * 1000000\<rparr>"

text \<open>\<open>from_timestamp_opt\<close> refuses two billion nanoseconds and more.\<close>

definition from_timestamp :: "timestamp \<Rightarrow> instant option" where
  "from_timestamp ts = (if ts_nanos ts < 2000000000
     then Some (ts_seconds ts * 1000 + ts_nanos ts div 1000000) else None)"

definition server_info_to_pb :: "texts \<Rightarrow> server_row \<Rightarrow> pb_server_info" where
  "server_info_to_pb tx s = \<lparr>pbs_server_id = uuid_text tx (sr_id s), pbs_name = sr_name s\<rparr>"

definition channel_info_to_pb :: "texts \<Rightarrow> channel_info \<Rightarrow> pb_channel_info" where
  "channel_info_to_pb tx c = \<lparr>pbc_channel_id = uuid_text tx (ch_id c), pbc_name = ch_name c\<rparr>"

definition server_to_pb :: "texts \<Rightarrow> server_with_channels \<Rightarrow> pb_server_response" where
  "server_to_pb tx s = \<lparr>psr_server_id = uuid_text tx (swc_id s), psr_name = swc_name s,
     psr_channels = map (channel_info_to_pb tx) (swc_channels s)\<rparr>"

definition channel_to_pb :: "texts \<Rightarrow> channel_model \<Rightarrow> pb_channel_response" where
  "channel_to_pb tx c = \<lparr>pcr_channel_id = uuid_text tx (ch_id (cm_info c)),
     pcr_name = ch_name (cm_info c), pcr_voice_server_host = cm_assigned_to c,
     pcr_server_id = uuid_text tx (cm_server_id c),
     pcr_updated_at = Some (timestamp_of (cm_updated_at c))\<rparr>"

section \<open>The service\<close>

text \<open>\<open>error_mapper\<close>.\<close>

definition internal_error :: grpc_status where
  "internal_error = internal ''internal server error''"

definition mapped :: "'e + 'a \<Rightarrow> grpc_status + 'a" where
  "mapped r = (case r of Inl e \<Rightarrow> Inl internal_error | Inr x \<Rightarrow> Inr x)"

definition grpc_cleanup :: "texts \<Rightarrow> instant \<Rightarrow> db \<Rightarrow> db \<times> (grpc_status + string list)" where
  "grpc_cleanup tx now d = (case cleanup_stale_voice_servers now d of
      (d', gone) \<Rightarrow> (d', Inr (map (uuid_text tx) gone)))"

definition grpc_register ::
  "url_texts \<Rightarrow> instant \<Rightarrow> string \<Rightarrow> string \<Rightarrow> db \<Rightarrow> db \<times> (grpc_status + timestamp)" where
  "grpc_register tx now id_text addr d =
     (case and_then (parse_field (uuid_parse tx) id_text ''voice_server_id'') (\<lambda>i.
           and_then (parse_field (url_parse tx) addr ''addr'') (\<lambda>url. Inr (i, url))) of
        Inl st \<Rightarrow> (d, Inl st)
      | Inr (i, url) \<Rightarrow> (case register_voice_server now i url d of
            (d', valid_until) \<Rightarrow> (d', Inr (timestamp_of valid_until))))"

definition grpc_get_servers ::
  "texts \<Rightarrow> int option \<Rightarrow> int option \<Rightarrow> db \<Rightarrow> grpc_status + (pb_server_info list \<times> int)" where
  "grpc_get_servers tx page n d =
     map_sum id (map_prod (map (server_info_to_pb tx)) id)
       (mapped (get_servers (case page of None \<Rightarrow> 1 | Some p \<Rightarrow> p)
         (min (case n of None \<Rightarrow> 10 | Some k \<Rightarrow> k) 100) d))"

definition grpc_get_server :: "texts \<Rightarrow> string \<Rightarrow> db \<Rightarrow> grpc_status + pb_server_response" where
  "grpc_get_server tx sid_text d =
     and_then (parse_field (uuid_parse tx) sid_text ''server_id'') (\<lambda>sid.
       case get_server sid d of
         None \<Rightarrow> Inl (not_found ''server not found'') | Some s \<Rightarrow> Inr (server_to_pb tx s))"

definition grpc_create_server ::
  "texts \<Rightarrow> uuid \<Rightarrow> string \<Rightarrow> db \<Rightarrow> db \<times> (grpc_status + string)" where
  "grpc_create_server tx new_id name d =
     map_prod id (\<lambda>r. map_sum id (uuid_text tx) (mapped r)) (server_create new_id name d)"

definition grpc_create_channel ::
  "texts \<Rightarrow> instant \<Rightarrow> uuid \<Rightarrow> string \<Rightarrow> string \<Rightarrow> db \<Rightarrow> db \<times> (grpc_status + string)" where
  "grpc_create_channel tx now new_id sid_text name d =
     (case parse_field (uuid_parse tx) sid_text ''server_id'' of
        Inl st \<Rightarrow> (d, Inl st)
      | Inr sid \<Rightarrow> map_prod id (\<lambda>r. map_sum id (uuid_text tx) (mapped r))
          (channel_create now new_id sid name d))"

definition grpc_get_channel :: "texts \<Rightarrow> instant \<Rightarrow> string \<Rightarrow> db \<Rightarrow> grpc_status + pb_channel_response" where
  "grpc_get_channel tx now cid_text d =
     and_then (parse_field (uuid_parse tx) cid_text ''channel_id'') (\<lambda>cid.
       case Registry.get_channel now cid d of
         None \<Rightarrow> Inl (not_found ''channel does not exist'') | Some c \<Rightarrow> Inr (channel_to_pb tx c))"

definition grpc_assign ::
  "texts \<Rightarrow> nat \<Rightarrow> instant \<Rightarrow> string \<Rightarrow> bool \<Rightarrow> db \<Rightarrow> db \<times> (grpc_status + string)" where
  "grpc_assign tx tie now cid_text reassign d =
     (case parse_field (uuid_parse tx) cid_text ''channel_id'' of
        Inl st \<Rightarrow> (d, Inl st)
      | Inr cid \<Rightarrow> map_prod id (\<lambda>r. map_sum id vr_host_url (mapped r))
          (Registry.assign_channel tie now cid reassign d))"

definition grpc_unassign ::
  "texts \<Rightarrow> instant \<Rightarrow> string \<Rightarrow> string \<Rightarrow> db \<Rightarrow> db \<times> (grpc_status + unit)" where
  "grpc_unassign tx now cid_text sid_text d =
     (case and_then (parse_field (uuid_parse tx) cid_text ''channel_id'') (\<lambda>cid.
           and_then (parse_field (uuid_parse tx) sid_text ''server_id'') (\<lambda>sid. Inr (cid, sid))) of
        Inl st \<Rightarrow> (d, Inl st)
      | Inr (cid, sid) \<Rightarrow> (unassign_channel now sid cid d, Inr ()))"

section \<open>The registry of a distributed gateway\<close>

text \<open>\<open>Inl ()\<close> is an \<open>anyhow\<close> error; a \<open>NotFound\<close> status means that there is nothing.\<close>

definition found :: "('b \<Rightarrow> 'c option) \<Rightarrow> grpc_status + 'b \<Rightarrow> unit + 'c option" where
  "found conv r = (case r of
      Inl st \<Rightarrow> (if st_code st = CodeNotFound then Inr None else Inl ())
    | Inr x \<Rightarrow> (case conv x of None \<Rightarrow> Inl () | Some y \<Rightarrow> Inr (Some y)))"

definition channel_info_from_pb :: "texts \<Rightarrow> pb_channel_info \<Rightarrow> channel_info option" where
  "channel_info_from_pb tx c =
     map_option (\<lambda>i. \<lparr>ch_id = i, ch_name = pbc_name c\<rparr>) (uuid_parse tx (pbc_channel_id c))"

definition server_from_pb :: "texts \<Rightarrow> pb_server_response \<Rightarrow> server_with_channels option" where
  "server_from_pb tx s =
     Option.bind (uuid_parse tx (psr_server_id s)) (\<lambda>i.
     Option.bind (collect (map (channel_info_from_pb tx) (psr_channels s))) (\<lambda>cs.
     Some \<lparr>swc_id = i, swc_name = psr_name s, swc_channels = cs\<rparr>))"

definition channel_from_pb :: "texts \<Rightarrow> pb_channel_response \<Rightarrow> channel_model option" where
  "channel_from_pb tx c =
     Option.bind (pcr_updated_at c) (\<lambda>ts.
     Option.bind (from_timestamp ts) (\<lambda>t.
     Option.bind (uuid_parse tx (pcr_channel_id c)) (\<lambda>i.
     Option.bind (uuid_parse tx (pcr_server_id c)) (\<lambda>sid.
     Some \<lparr>cm_info = \<lparr>ch_id = i, ch_name = pcr_name c\<rparr>, cm_server_id = sid,
       cm_assigned_to = pcr_voice_server_host c, cm_updated_at = t\<rparr>))))"

definition dist_get_server :: "texts \<Rightarrow> uuid \<Rightarrow> db \<Rightarrow> unit + server_with_channels option" where
  "dist_get_server tx sid d = found (server_from_pb tx) (grpc_get_server tx (uuid_text tx sid) d)"

definition dist_get_channel :: "texts \<Rightarrow> instant \<Rightarrow> uuid \<Rightarrow> db \<Rightarrow> unit + channel_model option" where
  "dist_get_channel tx now cid d =
     found (channel_from_pb tx) (grpc_get_channel tx now (uuid_text tx cid) d)"

definition dist_create_server :: "texts \<Rightarrow> uuid \<Rightarrow> string \<Rightarrow> db \<Rightarrow> db \<times> (unit + uuid)" where
  "dist_create_server tx new_id name d = (case grpc_create_server tx new_id name d of
      (d', Inl st) \<Rightarrow> (d', Inl ())
    | (d', Inr s) \<Rightarrow> (d', case uuid_parse tx s of None \<Rightarrow> Inl () | Some i \<Rightarrow> Inr i))"

definition dist_create_channel ::
  "texts \<Rightarrow> instant \<Rightarrow> uuid \<Rightarrow> uuid \<Rightarrow> string \<Rightarrow> db \<Rightarrow> db \<times> (unit + uuid option)" where
  "dist_create_channel tx now new_id sid name d =
     map_prod id (found (uuid_parse tx)) (grpc_create_channel tx now new_id (uuid_text tx sid) name d)"

definition server_row_from_pb :: "texts \<Rightarrow> pb_server_info \<Rightarrow> server_row option" where
  "server_row_from_pb tx s =
     map_option (\<lambda>i. \<lparr>sr_id = i, sr_name = pbs_name s\<rparr>) (uuid_parse tx (pbs_server_id s))"

definition dist_get_servers ::
  "texts \<Rightarrow> int option \<Rightarrow> int option \<Rightarrow> db \<Rightarrow> unit + (server_row list \<times> int)" where
  "dist_get_servers tx page n d = (case grpc_get_servers tx page n d of
      Inl st \<Rightarrow> Inl ()
    | Inr (info, pages) \<Rightarrow> (case collect (map (server_row_from_pb tx) info) of
          None \<Rightarrow> Inl () | Some rows \<Rightarrow> Inr (rows, pages)))"

definition dist_cleanup :: "texts \<Rightarrow> instant \<Rightarrow> db \<Rightarrow> db \<times> (unit + uuid list)" where
  "dist_cleanup tx now d = (case grpc_cleanup tx now d of
      (d', Inl st) \<Rightarrow> (d', Inl ())
    | (d', Inr gone) \<Rightarrow> (d', case collect (map (uuid_parse tx) gone) of
          None \<Rightarrow> Inl () | Some ids \<Rightarrow> Inr ids))"

section \<open>Over the network and back\<close>

lemma timestamp_round_trip [simp]: "from_timestamp (timestamp_of t) = Some t"
proof -
  have "t mod 1000 * 1000000 < (2000000000 :: nat)"
    using mod_less_divisor [of 1000 t] by linarith
  then show ?thesis by (simp add: from_timestamp_def timestamp_of_def)
qed

lemma collect_round_trip:
  "(\<And>x. x \<in> set xs \<Longrightarrow> f (g x) = Some x) \<Longrightarrow> collect (map f (map g xs)) = Some xs"
  by (induction xs) simp_all

lemma server_row_round_trip [simp]:
  "texts_ok tx \<Longrightarrow> server_row_from_pb tx (server_info_to_pb tx s) = Some s"
  by (simp add: server_row_from_pb_def server_info_to_pb_def)

lemma server_round_trip [simp]:
  "texts_ok tx \<Longrightarrow> server_from_pb tx (server_to_pb tx s) = Some s"
  using collect_round_trip [of "swc_channels s" "channel_info_from_pb tx" "channel_info_to_pb tx"]
  by (simp add: server_from_pb_def server_to_pb_def channel_info_from_pb_def channel_info_to_pb_def)

lemma channel_round_trip [simp]:
  "texts_ok tx \<Longrightarrow> channel_from_pb tx (channel_to_pb tx c) = Some c"
  by (simp add: channel_from_pb_def channel_to_pb_def)

lemma parse_written [simp]:
  "texts_ok tx \<Longrightarrow> parse_field (uuid_parse tx) (uuid_text tx i) field = Inr i"
  by (simp add: parse_field_def)

abbreviation failed :: "'e + 'a \<Rightarrow> unit + 'a" where
  "failed \<equiv> map_sum (\<lambda>e. ()) id"

text \<open>
  C29: The registry of a distributed gateway is the registry. Over a network that delivers, every
  operation of the distributed registry gives the result and the effect of the operation behind
  the service, and an error whenever that fails; only the pages differ from those of the integrated
  registry: ten servers unless asked otherwise, and at most a hundred.
\<close>

theorem distributed_registry_is_registry:
  assumes "texts_ok tx"
  shows "dist_get_server tx sid d = Inr (get_server sid d) \<and>
    dist_get_channel tx now cid d = Inr (Registry.get_channel now cid d) \<and>
    dist_create_server tx new_id name d = map_prod id failed (server_create new_id name d) \<and>
    dist_create_channel tx now new_id sid name d =
      map_prod id (map_sum (\<lambda>e. ()) Some) (channel_create now new_id sid name d) \<and>
    dist_cleanup tx now d = map_prod id Inr (cleanup_stale_voice_servers now d) \<and>
    dist_get_servers tx page n d = failed (registry_get_servers (Some (case page of None \<Rightarrow> 1 | Some p \<Rightarrow> p))
      (Some (case n of None \<Rightarrow> 10 | Some k \<Rightarrow> min k 100)) d)"
proof (intro conjI)
  note ok [simp] = assms
  show "dist_get_server tx sid d = Inr (get_server sid d)"
    by (simp add: dist_get_server_def grpc_get_server_def found_def not_found_def split: option.split)
  show "dist_get_channel tx now cid d = Inr (Registry.get_channel now cid d)"
    by (simp add: dist_get_channel_def grpc_get_channel_def found_def not_found_def split: option.split)
  show "dist_create_server tx new_id name d = map_prod id failed (server_create new_id name d)"
    by (simp add: dist_create_server_def grpc_create_server_def server_create_def mapped_def)
  show "dist_create_channel tx now new_id sid name d =
      map_prod id (map_sum (\<lambda>e. ()) Some) (channel_create now new_id sid name d)"
    by (simp add: dist_create_channel_def grpc_create_channel_def channel_create_def mapped_def
        found_def internal_error_def internal_def)
  show "dist_cleanup tx now d = map_prod id Inr (cleanup_stale_voice_servers now d)"
    using collect_round_trip [of "snd (cleanup_stale_voice_servers now d)" "uuid_parse tx" "uuid_text tx"]
    by (cases "cleanup_stale_voice_servers now d")
      (simp add: dist_cleanup_def grpc_cleanup_def del: map_map)
  have rows: "collect (map (server_row_from_pb tx) (map (server_info_to_pb tx) rows)) = Some rows" for rows
    by (rule collect_round_trip) simp
  show "dist_get_servers tx page n d = failed (registry_get_servers
      (Some (case page of None \<Rightarrow> 1 | Some p \<Rightarrow> p)) (Some (case n of None \<Rightarrow> 10 | Some k \<Rightarrow> min k 100)) d)"
    using rows
    by (cases n) (auto simp: dist_get_servers_def grpc_get_servers_def registry_get_servers_def mapped_def
        simp del: map_map split: sum.split prod.split)
qed

theorem distributed_registry_is_registry_witness:
  "dist_get_server tally_texts 5 sample_db =
     Inr (Some \<lparr>swc_id = 5, swc_name = ''s'', swc_channels = [\<lparr>ch_id = 7, ch_name = ''c''\<rparr>]\<rparr>) \<and>
   dist_get_servers tally_texts None (Some 1000) sample_db = Inr ([\<lparr>sr_id = 5, sr_name = ''s''\<rparr>], 1)"
  using distributed_registry_is_registry [OF tally_texts_ok, of 5 sample_db _ _ _ _ None "Some 1000"]
  by (simp add: get_server_def server_get_def server_channels_def info_of_def sample_db_value
      registry_get_servers_def get_servers_def per_page_def paginate_def load_and_count_pages_def
      run_paginated_def wrap64_def)

end
