(* ===== verification/Distributed.thy ===== *)
theory Distributed
  imports Channels_Grpc
begin

text \<open>
  A gateway without a voice server of its own: \<open>get_voice_host_for\<close> of
  \<open>server/gateway/src/channel_registry/distributed.rs\<close> places a room on one of many voice servers,
  which stay in the registry by the heartbeat of \<open>server/voice/grpc/src/server.rs\<close> and give rooms
  back through \<open>RemoteRegistry\<close> (\<open>server/voice/grpc/src/registry/mod.rs\<close>).
\<close>

section \<open>Voice servers by URL\<close>

type_synonym fleet = "string \<rightharpoonup> voice_server"

text \<open>\<open>connect_lazy\<close> fails at the first call when nobody listens; the caller then sees \<open>down\<close>.\<close>

definition at_host ::
  "string \<Rightarrow> 'e \<Rightarrow> (voice_server \<Rightarrow> voice_server \<times> ('e + 'a)) \<Rightarrow> fleet \<Rightarrow> fleet \<times> ('e + 'a)" where
  "at_host url down f fl = (case fl url of
      None \<Rightarrow> (fl, Inl down)
    | Some srv \<Rightarrow> (case f srv of (srv', r) \<Rightarrow> (fl(url \<mapsto> srv'), r)))"

definition unreachable :: grpc_status where
  "unreachable = \<lparr>st_code = CodeUnavailable, st_message = ''error trying to connect''\<rparr>"

text \<open>What the network does to the four calls of a lookup, and what the servers find.\<close>

record lookup_env =
  le_request :: request_env
  le_before :: "(instant \<times> fwd_event) list"
  le_bind_ok :: "port_ref \<Rightarrow> bool"
  le_now :: instant
  le_tie :: nat
  le_net_channel :: net
  le_net_status :: net
  le_net_assign :: net
  le_net_host :: net

section \<open>Placing a room\<close>

text \<open>\<open>None\<close> is an \<open>anyhow\<close> error.\<close>

definition assign_on_host ::
  "url_texts \<Rightarrow> lookup_env \<Rightarrow> uuid \<Rightarrow> string \<Rightarrow> fleet \<Rightarrow> fleet \<times> string option" where
  "assign_on_host tx e room host fl =
     (case at_host host unreachable
         (remote_assign_channel (base_texts tx) (le_net_host e) (le_bind_ok e) (le_now e) room) fl of
        (fl', Inl st) \<Rightarrow> (fl', None)
      | (fl', Inr u) \<Rightarrow> (fl', Some host))"

definition keep_host ::
  "url_texts \<Rightarrow> lookup_env \<Rightarrow> uuid \<Rightarrow> string \<Rightarrow> fleet \<Rightarrow> fleet \<times> string option" where
  "keep_host tx e room host fl =
     (if \<not> uri_ok tx host then (fl, None)
      else case at_host host HostOther
          (remote_status (base_texts tx) (le_net_status e) (le_request e) (le_before e) room) fl of
        (fl', Inl (NotFound what)) \<Rightarrow> assign_on_host tx e room host fl'
      | (fl', Inl HostOther) \<Rightarrow> (fl', None)
      | (fl', Inr ps) \<Rightarrow> (fl', Some host))"

definition request_host ::
  "url_texts \<Rightarrow> lookup_env \<Rightarrow> uuid \<Rightarrow> bool \<Rightarrow> db \<Rightarrow> fleet \<Rightarrow> (db \<times> fleet) \<times> string option" where
  "request_host tx e room reassign d fl =
     (case over_network (le_net_assign e)
         (grpc_assign (base_texts tx) (le_tie e) (le_now e) (uuid_text tx room) reassign) d of
        (d', Inl st) \<Rightarrow> ((d', fl), None)
      | (d', Inr host) \<Rightarrow>
          (if \<not> uri_ok tx host then ((d', fl), None)
           else (case assign_on_host tx e room host fl of (fl', r) \<Rightarrow> ((d', fl'), r))))"

definition dist_get_voice_host_for ::
  "url_texts \<Rightarrow> lookup_env \<Rightarrow> uuid \<Rightarrow> bool \<Rightarrow> db \<Rightarrow> fleet \<Rightarrow>
     (db \<times> fleet) \<times> string option option" where
  "dist_get_voice_host_for tx e room reassign d fl =
     (case snd (over_network (le_net_channel e)
         (\<lambda>d. (d, grpc_get_channel (base_texts tx) (le_now e) (uuid_text tx room) d)) d) of
        Inl st \<Rightarrow> ((d, fl), if st_code st = CodeNotFound then Some None else None)
      | Inr resp \<Rightarrow> map_prod id (map_option Some)
          (case pcr_voice_server_host resp of
             None \<Rightarrow> request_host tx e room reassign d fl
           | Some host \<Rightarrow>
               (if \<not> reassign then (case keep_host tx e room host fl of (fl', r) \<Rightarrow> ((d, fl'), r))
                else request_host tx e room reassign d fl)))"

section \<open>Staying registered\<close>

definition HEARTBEAT_INTERVAL :: instant where
  "HEARTBEAT_INTERVAL = 30000"

definition remote_register ::
  "url_texts \<Rightarrow> net \<Rightarrow> instant \<Rightarrow> uuid \<Rightarrow> string \<Rightarrow> db \<Rightarrow> db \<times> (grpc_status + unit)" where
  "remote_register tx net now server addr d = map_prod id (map_sum id (\<lambda>valid_until. ()))
     (over_network net (grpc_register tx now (uuid_text tx server) addr) d)"

definition remote_unassign_channel ::
  "url_texts \<Rightarrow> net \<Rightarrow> instant \<Rightarrow> uuid \<Rightarrow> uuid \<Rightarrow> db \<Rightarrow> db \<times> (grpc_status + unit)" where
  "remote_unassign_channel tx net now server room d =
     over_network net (grpc_unassign (base_texts tx) now (uuid_text tx room) (uuid_text tx server)) d"

text \<open>The task spawned when a channel has ended; a failure is logged.\<close>

definition notify ::
  "url_texts \<Rightarrow> net \<Rightarrow> instant \<Rightarrow> uuid \<Rightarrow> uuid \<Rightarrow> db \<Rightarrow> db" where
  "notify tx net now server room d = fst (remote_unassign_channel tx net now server room d)"

text \<open>One turn of the loop: a failure is logged and the next tick tries again.\<close>

definition beat :: "url_texts \<Rightarrow> uuid \<Rightarrow> string \<Rightarrow> instant \<times> net \<Rightarrow> db \<Rightarrow> db" where
  "beat tx server addr b d = fst (remote_register tx (snd b) (fst b) server addr d)"

text \<open>\<open>None\<close> when the first registration fails: the voice server does not start.\<close>

definition heartbeat ::
  "url_texts \<Rightarrow> uuid \<Rightarrow> string \<Rightarrow> instant \<times> net \<Rightarrow> (instant \<times> net) list \<Rightarrow> db \<Rightarrow> db \<times> unit option" where
  "heartbeat tx server addr first beats d =
     (case remote_register tx (snd first) (fst first) server addr d of
        (d', Inl st) \<Rightarrow> (d', None)
      | (d', Inr u) \<Rightarrow> (fold (beat tx server addr) beats d', Some ()))"

section \<open>An answered host has the room\<close>

lemma set_fwd_channels [simp]: "channels (set_fwd i f srv) = channels srv"
  by (simp add: set_fwd_def)

lemma channel_request_channels [simp]: "channels (fst (channel_request e ctl c srv)) = channels srv"
  by (simp add: channel_request_def Let_def split: prod.split)

lemma channel_peers_of_channels [simp]:
  "channels (fst (channel_peers_of e before room srv)) = channels srv"
proof -
  have "channels (fst (channel_peers e c s)) = channels s" for c s
    using channel_request_channels [of e Peers c s]
    by (cases "channel_request e Peers c s") (simp add: channel_peers_def)
  then show ?thesis by (auto simp: channel_peers_of_def Let_def split: option.split)
qed

text \<open>A network that answers has delivered.\<close>

lemma over_network_Inr:
  "over_network net f s = (s', Inr x) \<Longrightarrow> f s = (s', Inr x)"
  by (cases net) (simp_all add: over_network_def)

lemma remote_status_hosts:
  assumes "texts_ok tx" and "remote_status tx net e before room srv = (srv', Inr ps)"
  shows "map_of (channels srv') room \<noteq> None"
proof -
  obtain xs where "over_network net (grpc_status_of_room tx e before (uuid_text tx room)) srv = (srv', Inr xs)"
    using assms(2) by (auto simp: remote_status_def received_def prod_eq_iff split: sum.splits option.splits)
  then have "grpc_status_of_room tx e before (uuid_text tx room) srv = (srv', Inr xs)"
    by (rule over_network_Inr)
  then obtain qs where "channel_peers_of e before room srv = (srv', Inr qs)"
    using assms(1)
    by (cases "channel_peers_of e before room srv"; cases "snd (channel_peers_of e before room srv)")
      (auto simp: grpc_status_of_room_def serve_def)
  moreover from this have "Voice_Server.get_channel srv room \<noteq> None"
    by (cases "Voice_Server.get_channel srv room") (simp_all add: channel_peers_of_def)
  then have "map_of (channels srv) room \<noteq> None"
    by (auto simp: get_channel_Some)
  ultimately show ?thesis
    using channel_peers_of_channels [of e before room srv] by simp
qed

lemma remote_assign_hosts:
  assumes "texts_ok tx" and "remote_assign_channel tx net bind_ok now room srv = (srv', Inr u)"
  shows "map_of (channels srv') room \<noteq> None"
proof -
  have "grpc_assign_channel tx bind_ok now (uuid_text tx room) srv = (srv', Inr u)"
    using assms(2) unfolding remote_assign_channel_def by (rule over_network_Inr)
  then obtain c where "Voice_Server.assign_channel bind_ok now room srv = (srv', Inr c)"
    using assms(1) by (auto simp: grpc_assign_channel_def split: prod.splits sum.splits)
  then show ?thesis
    by (cases rule: assign_channel_cases [of srv room bind_ok now]) (auto simp: update_Some_unfold
        simp del: not_None_eq simp: update_conv')
qed

text \<open>A call leaves the other servers as they are.\<close>

lemma at_host_Inr:
  assumes "at_host url down f fl = (fl', Inr x)"
  obtains srv srv' where "fl url = Some srv" "f srv = (srv', Inr x)" "fl' = fl(url \<mapsto> srv')"
  using assms by (cases "fl url"; cases "f (the (fl url))") (simp_all add: at_host_def)

lemma at_host_others: "u \<noteq> url \<Longrightarrow> fst (at_host url down f fl) u = fl u"
  by (simp add: at_host_def split: option.split prod.split)

definition hosts :: "fleet \<Rightarrow> string \<Rightarrow> uuid \<Rightarrow> bool" where
  "hosts fl url room \<longleftrightarrow> (case fl url of None \<Rightarrow> False | Some srv \<Rightarrow> map_of (channels srv) room \<noteq> None)"

lemma assign_on_host_hosts:
  assumes "texts_ok (base_texts tx)" and "assign_on_host tx e room host fl = (fl', Some url)"
  shows "url = host \<and> hosts fl' url room \<and> (\<forall>u \<in> - {url}. fl' u = fl u)"
proof -
  let ?f = "remote_assign_channel (base_texts tx) (le_net_host e) (le_bind_ok e) (le_now e) room"
  have both: "at_host host unreachable ?f fl = (fl', Inr ()) \<and> url = host"
  proof (cases "at_host host unreachable ?f fl")
    case (Pair fl1 r)
    then show ?thesis using assms(2) by (cases r) (simp_all add: assign_on_host_def)
  qed
  then obtain srv srv' where "?f srv = (srv', Inr ())" "fl' = fl(host \<mapsto> srv')"
    by (elim conjE at_host_Inr) (rule that)
  then show ?thesis
    using remote_assign_hosts [OF assms(1)] both by (simp add: hosts_def)
qed

lemma keep_host_hosts:
  assumes "texts_ok (base_texts tx)" and "keep_host tx e room host fl = (fl', Some url)"
  shows "url = host \<and> hosts fl' url room \<and> (\<forall>u \<in> - {url}. fl' u = fl u)"
proof -
  let ?f = "remote_status (base_texts tx) (le_net_status e) (le_request e) (le_before e) room"
  consider (known) ps where "at_host host HostOther ?f fl = (fl', Inr ps)" "url = host"
    | (lost) fl1 what where "at_host host HostOther ?f fl = (fl1, Inl (NotFound what))"
        "assign_on_host tx e room host fl1 = (fl', Some url)"
  proof (cases "at_host host HostOther ?f fl")
    case (Pair fl1 r)
    have "uri_ok tx host"
      by (rule ccontr) (use assms(2) in \<open>simp add: keep_host_def\<close>)
    then have res: "(case (fl1, r) of (fl', Inl (NotFound what)) \<Rightarrow> assign_on_host tx e room host fl'
        | (fl', Inl HostOther) \<Rightarrow> (fl', None) | (fl', Inr ps) \<Rightarrow> (fl', Some host)) = (fl', Some url)"
      using assms(2) by (simp only: keep_host_def Pair if_False not_True_eq_False)
    show ?thesis
    proof (cases r)
      case (Inl err)
      show ?thesis
      proof (cases err)
        case (NotFound what)
        show ?thesis by (rule lost [of fl1 what]) (use res Pair Inl NotFound in simp_all)
      next
        case HostOther
        then show ?thesis using res Inl by simp
      qed
    next
      case (Inr ps)
      show ?thesis by (rule known [of ps]) (use res Pair Inr in simp_all)
    qed
  qed
  then show ?thesis
  proof cases
    case known
    obtain srv srv' where "?f srv = (srv', Inr ps)" "fl' = fl(host \<mapsto> srv')"
      using known(1) by (elim at_host_Inr) (rule that)
    then show ?thesis
      using remote_status_hosts [OF assms(1)] known(2) by (simp add: hosts_def)
  next
    case lost
    then show ?thesis
      using assign_on_host_hosts [OF assms(1) lost(2)] at_host_others [of _ host HostOther ?f fl]
      by auto
  qed
qed

lemma request_host_hosts:
  assumes "texts_ok (base_texts tx)" and "request_host tx e room reassign d fl = ((d', fl'), Some url)"
  shows "hosts fl' url room \<and> (\<forall>u \<in> - {url}. fl' u = fl u)"
  using assms(2) assign_on_host_hosts [OF assms(1)]
  by (auto simp: request_host_def split: prod.splits sum.splits if_splits)

text \<open>
  C20: An answered host has the room. Whenever the lookup of a distributed gateway answers a voice
  server, whatever happened to the calls, that server is reachable and has a channel for the room,
  and no other voice server has been touched.
\<close>

theorem answered_host_has_room:
  assumes "texts_ok (base_texts tx)"
    and "dist_get_voice_host_for tx e room reassign d fl = ((d', fl'), Some (Some url))"
  shows "hosts fl' url room \<and> (\<forall>u \<in> - {url}. fl' u = fl u)"
proof -
  obtain resp where resp: "snd (over_network (le_net_channel e) (\<lambda>d. (d, grpc_get_channel (base_texts tx)
      (le_now e) (uuid_text tx room) d)) d) = Inr resp"
    using assms(2) by (auto simp: dist_get_voice_host_for_def split: sum.splits if_splits)
  let ?keep = "\<lambda>host. keep_host tx e room host fl"
  consider (keep) host where "?keep host = (fl', Some url)"
    | (request) "request_host tx e room reassign d fl = ((d', fl'), Some url)"
  proof (cases "pcr_voice_server_host resp")
    case None
    show ?thesis
      by (rule request) (use assms(2) resp None in
        \<open>cases "request_host tx e room reassign d fl", simp add: dist_get_voice_host_for_def\<close>)
  next
    case (Some host)
    show ?thesis
    proof (cases reassign)
      case True
      show ?thesis
        by (rule request) (use assms(2) resp Some True in
          \<open>cases "request_host tx e room reassign d fl", simp add: dist_get_voice_host_for_def\<close>)
    next
      case False
      show ?thesis
        by (rule keep [of host]) (use assms(2) resp Some False in
          \<open>cases "?keep host", simp add: dist_get_voice_host_for_def\<close>)
    qed
  qed
  then show ?thesis
    using keep_host_hosts [OF assms(1)] request_host_hosts [OF assms(1)] by cases blast+
qed

section \<open>Assignments to servers that are gone\<close>

lemma assign_over_stale:
  assumes "channel_row_get room d = Some c" and "cr_assigned_to c = Some i"
    and "Registry.assign_channel tie now room reassign d = (d', Inr r)"
  shows "\<exists>load. get_smallest_load tie now STALENESS d = Some (r, load)"
    and "\<not> reassign \<Longrightarrow> d' = d"
    and "map_option cr_assigned_to (channel_row_get room d') = Some (Some (if reassign then vr_id r else i))"
proof -
  obtain load where least: "get_smallest_load tie now STALENESS d = Some (r, load)"
    using assms(3) by (auto simp: Registry.assign_channel_def split: option.splits prod.splits sum.splits)
  then show "\<exists>load. get_smallest_load tie now STALENESS d = Some (r, load)" by blast
  obtain res where to: "assign_to now room (vr_id r) reassign d = (d', Inr res)"
    using assms(3) least by (auto simp: Registry.assign_channel_def split: prod.splits sum.splits)
  then show "\<not> reassign \<Longrightarrow> d' = d" using assms(1,2) by (simp add: assign_to_def)
  have "cr_id c = room" using assms(1) by (rule channel_row_get_id)
  then show "map_option cr_assigned_to (channel_row_get room d') =
      Some (Some (if reassign then vr_id r else i))"
  proof (cases reassign)
    case True
    then show ?thesis
      using to assms(1) \<open>cr_id c = room\<close>
      by (auto simp: assign_to_def Let_def channel_row_get_update split: if_splits)
  next
    case False
    then have "d' = d" using to assms(1,2) by (simp add: assign_to_def)
    then show ?thesis using False assms(1,2) by simp
  qed
qed

lemma failed_assign_writes_nothing:
  "Registry.assign_channel tie now room reassign d = (d', Inl err) \<Longrightarrow> d' = d"
  by (auto simp: Registry.assign_channel_def assign_to_def Let_def
      split: option.splits prod.splits sum.splits if_splits)

lemma request_over_stale:
  assumes "texts_ok (base_texts tx)" and "channel_row_get room d = Some c" and "cr_assigned_to c = Some i"
    and "request_host tx e room reassign d fl = ((d', fl'), answer)"
  shows "(\<not> reassign \<longrightarrow> d' = d) \<and> (\<forall>url. answer = Some url \<longrightarrow>
    (\<exists>r load. get_smallest_load (le_tie e) (le_now e) STALENESS d = Some (r, load) \<and> vr_host_url r = url \<and>
      map_option cr_assigned_to (channel_row_get room d') = Some (Some (if reassign then vr_id r else i))))"
proof -
  obtain d1 res where reg: "Registry.assign_channel (le_tie e) (le_now e) room reassign d = (d1, res)" by fastforce
  have written: "uuid_text tx = uuid_text (base_texts tx)"
    by (simp add: base_texts_def texts.truncate_def)
  have unchanged: "\<not> reassign \<Longrightarrow> d1 = d"
    using reg failed_assign_writes_nothing assign_over_stale(2) [OF assms(2,3)] by (cases res) blast+
  show ?thesis
    using assms(1,4) reg unchanged assign_over_stale(1,3) [OF assms(2,3), of "le_tie e" "le_now e" reassign d1]
      assign_on_host_hosts [OF assms(1)]
    by (cases "le_net_assign e"; cases res)
      (fastforce simp: request_host_def over_network_def grpc_assign_def written mapped_def
        split: prod.splits sum.splits if_splits)+
qed

text \<open>
  C33: A placement that replaces a stale assignment is forgotten. While a channel is still assigned to
  a voice server that has missed its heartbeats, a lookup answers no other server than the one with
  the least load at that moment. A plain lookup, one that does not ask for a reassignment, leaves
  the registry as it was, the assignment to the lost server included: the next lookup may answer a
  different server, and the room is then open on both. A lookup that asks for a reassignment
  assigns the channel to the server it answers.
\<close>

theorem stale_placement_is_forgotten:
  assumes "texts_ok (base_texts tx)" and "channel_row_get room d = Some c"
    and "cr_assigned_to c = Some i" and "get_active (le_now e) i STALENESS d = None"
  shows "case dist_get_voice_host_for tx e room reassign d fl of ((d', fl'), answer) \<Rightarrow>
    (\<not> reassign \<longrightarrow> d' = d) \<and>
    (\<forall>url. answer = Some (Some url) \<longrightarrow>
      (\<exists>r load. get_smallest_load (le_tie e) (le_now e) STALENESS d = Some (r, load) \<and> vr_host_url r = url \<and>
        map_option cr_assigned_to (channel_row_get room d') = Some (Some (if reassign then vr_id r else i))))"
proof -
  let ?net = "over_network (le_net_channel e)
    (\<lambda>d. (d, grpc_get_channel (base_texts tx) (le_now e) (uuid_text tx room) d)) d"
  have written: "uuid_text tx = uuid_text (base_texts tx)"
    by (simp add: base_texts_def texts.truncate_def)
  have unassigned: "pcr_voice_server_host resp = None" if "snd ?net = Inr resp" for resp
    using that assms unfolding written
    by (cases "le_net_channel e") (auto simp: over_network_def grpc_get_channel_def channel_to_pb_def
        Registry.get_channel_def)
  obtain d' fl' answer where req: "request_host tx e room reassign d fl = ((d', fl'), answer)"
    by (metis prod.collapse)
  show ?thesis
    using unassigned request_over_stale [OF assms(1-3) req]
    by (cases "snd ?net") (auto simp: dist_get_voice_host_for_def req)
qed

text \<open>
  Channel 7 is assigned to server 9, which is long gone. The first lookup places it on server 1; then
  channel 8 is assigned to that server, and the next lookup places channel 7 on server 2 as well.
\<close>

definition tally_urls :: url_texts where
  "tally_urls = texts.extend tally_texts \<lparr>url_parse = Some, uri_ok = (\<lambda>s. True)\<rparr>"

definition split_db :: db where
  "split_db = \<lparr>servers = [\<lparr>sr_id = 5, sr_name = ''s''\<rparr>],
     channel_rows = [\<lparr>cr_id = 7, cr_server_id = 5, cr_assigned_to = Some 9, cr_name = ''c'', cr_updated_at = 0\<rparr>,
       \<lparr>cr_id = 8, cr_server_id = 5, cr_assigned_to = None, cr_name = ''d'', cr_updated_at = 0\<rparr>],
     voice_servers = [\<lparr>vr_id = 9, vr_host_url = ''u'', vr_last_seen = 1000\<rparr>,
       \<lparr>vr_id = 1, vr_host_url = ''a'', vr_last_seen = 100000\<rparr>,
       \<lparr>vr_id = 2, vr_host_url = ''b'', vr_last_seen = 100000\<rparr>],
     servers_members = []\<rparr>"

definition split_env :: lookup_env where
  "split_env = \<lparr>le_request = demo_env, le_before = [], le_bind_ok = (\<lambda>p. True), le_now = 100000, le_tie = 0,
     le_net_channel = Delivered, le_net_status = Delivered, le_net_assign = Delivered,
     le_net_host = Delivered\<rparr>"

definition split_fleet :: fleet where
  "split_fleet = [''a'' \<mapsto> empty_server, ''b'' \<mapsto> empty_server]"

lemma tally_urls_ok: "texts_ok (base_texts tally_urls)"
  using tally_texts_ok by (simp add: tally_urls_def base_texts_def texts.defs tally_texts_def)

lemma written_base: "uuid_text tx = uuid_text (base_texts tx)"
  by (simp add: base_texts_def texts.truncate_def)

lemma assign_on_host_delivered:
  assumes "texts_ok (base_texts tx)" and "fl host = Some srv" and "le_net_host e = Delivered"
    and "Voice_Server.assign_channel (le_bind_ok e) (le_now e) room srv = (srv', Inr c)"
  shows "assign_on_host tx e room host fl = (fl(host \<mapsto> srv'), Some host)"
  using assms by (simp add: assign_on_host_def at_host_def remote_assign_channel_def over_network_def
      grpc_assign_channel_def)

lemma lookup_delivered:
  assumes "texts_ok (base_texts tx)" and "le_net_channel e = Delivered" "le_net_assign e = Delivered"
    and "Registry.get_channel (le_now e) room d = Some c" "cm_assigned_to c = None"
    and "Registry.assign_channel (le_tie e) (le_now e) room False d = (d', Inr r)"
    and "uri_ok tx (vr_host_url r)"
    and "assign_on_host tx e room (vr_host_url r) fl = (fl', Some url)"
  shows "dist_get_voice_host_for tx e room False d fl = ((d', fl'), Some (Some url))"
  using assms by (simp add: dist_get_voice_host_for_def request_host_def over_network_def written_base
      grpc_get_channel_def grpc_assign_def channel_to_pb_def mapped_def)

definition split_db2 :: db where
  "split_db2 = fst (Registry.assign_channel 0 100000 8 False split_db)"

lemmas registry_defs = Registry.get_channel_def channel_row_get_def get_active_def voice_server_get_def
  is_active_def STALENESS_def Registry.assign_channel_def get_smallest_load_def load_of_def
  assign_to_def update_channels_def touched_def

lemma split_registry:
  "Registry.get_channel 100000 7 split_db = Some \<lparr>cm_info = \<lparr>ch_id = 7, ch_name = ''c''\<rparr>,
     cm_server_id = 5, cm_assigned_to = None, cm_updated_at = 0\<rparr>"
  "Registry.assign_channel 0 100000 7 False split_db =
     (split_db, Inr \<lparr>vr_id = 1, vr_host_url = ''a'', vr_last_seen = 100000\<rparr>)"
  "Registry.get_channel 100000 7 split_db2 = Some \<lparr>cm_info = \<lparr>ch_id = 7, ch_name = ''c''\<rparr>,
     cm_server_id = 5, cm_assigned_to = None, cm_updated_at = 0\<rparr>"
  "Registry.assign_channel 0 100000 7 False split_db2 =
     (split_db2, Inr \<lparr>vr_id = 2, vr_host_url = ''b'', vr_last_seen = 100000\<rparr>)"
  by (simp_all add: registry_defs split_db_def split_db2_def info_of_def)

lemma split_assign:
  "\<exists>srv c. Voice_Server.assign_channel (\<lambda>p. True) 100000 7 empty_server = (srv, Inr c)"
  by (simp add: Voice_Server.assign_channel_def empty_server_def voice_server_new_def allocate_port_def
      ports_get_def channel_new_def)

lemma split_env_simps:
  "le_net_channel split_env = Delivered" "le_net_assign split_env = Delivered"
  "le_net_host split_env = Delivered" "le_bind_ok split_env = (\<lambda>p. True)" "le_now split_env = 100000"
  "le_tie split_env = 0" "uri_ok tally_urls s"
  by (simp_all add: split_env_def tally_urls_def texts.defs)

lemma split_first_lookup:
  assumes "Voice_Server.assign_channel (\<lambda>p. True) 100000 7 empty_server = (srv, Inr c)"
  shows "dist_get_voice_host_for tally_urls split_env 7 False split_db split_fleet =
    ((split_db, split_fleet(''a'' \<mapsto> srv)), Some (Some ''a''))"
proof -
  have "assign_on_host tally_urls split_env 7 ''a'' split_fleet = (split_fleet(''a'' \<mapsto> srv), Some ''a'')"
    by (rule assign_on_host_delivered [OF tally_urls_ok])
      (use assms in \<open>simp_all add: split_env_simps split_fleet_def\<close>)
  then show ?thesis
    by (intro lookup_delivered [OF tally_urls_ok split_env_simps(1,2)], unfold split_env_simps)
      (rule split_registry(1), simp, rule split_registry(2), rule split_env_simps(7), simp)
qed

lemma split_lookups:
  "\<exists>fl1 fl2. dist_get_voice_host_for tally_urls split_env 7 False split_db split_fleet =
       ((split_db, fl1), Some (Some ''a'')) \<and>
     dist_get_voice_host_for tally_urls split_env 7 False split_db2 fl1 =
       ((split_db2, fl2), Some (Some ''b''))"
proof -
  obtain srv c where srv: "Voice_Server.assign_channel (\<lambda>p. True) 100000 7 empty_server = (srv, Inr c)"
    using split_assign by (elim exE) (rule that)
  let ?fl1 = "split_fleet(''a'' \<mapsto> srv)"
  have "assign_on_host tally_urls split_env 7 ''b'' ?fl1 = (?fl1(''b'' \<mapsto> srv), Some ''b'')"
    by (rule assign_on_host_delivered [OF tally_urls_ok])
      (use srv in \<open>simp_all add: split_env_simps split_fleet_def\<close>)
  then have "dist_get_voice_host_for tally_urls split_env 7 False split_db2 ?fl1 =
      ((split_db2, ?fl1(''b'' \<mapsto> srv)), Some (Some ''b''))"
    by (intro lookup_delivered [OF tally_urls_ok split_env_simps(1,2)], unfold split_env_simps)
      (rule split_registry(3), simp, rule split_registry(4), rule split_env_simps(7), simp)
  then show ?thesis using split_first_lookup [OF srv] by (intro exI conjI)
qed

theorem stale_placement_is_forgotten_witness:
  "\<exists>fl1 fl2. dist_get_voice_host_for tally_urls split_env 7 False split_db split_fleet =
       ((split_db, fl1), Some (Some ''a'')) \<and>
     dist_get_voice_host_for tally_urls split_env 7 False split_db2 fl1 =
       ((split_db2, fl2), Some (Some ''b'')) \<and>
     vr_host_url (fst (the (get_smallest_load 0 100000 STALENESS split_db2))) = ''b''"
proof -
  obtain fl1 fl2 where
    1: "dist_get_voice_host_for tally_urls split_env 7 False split_db split_fleet =
       ((split_db, fl1), Some (Some ''a''))" and
    2: "dist_get_voice_host_for tally_urls split_env 7 False split_db2 fl1 =
       ((split_db2, fl2), Some (Some ''b''))"
    using split_lookups by (elim exE conjE) (rule that)
  have row: "channel_row_get 7 split_db2 = Some \<lparr>cr_id = 7, cr_server_id = 5, cr_assigned_to = Some 9,
      cr_name = ''c'', cr_updated_at = 0\<rparr>" "get_active 100000 9 STALENESS split_db2 = None"
    by (simp_all add: registry_defs split_db_def split_db2_def)
  have env: "le_now split_env = 100000" "le_tie split_env = 0" by (simp_all add: split_env_def)
  have "vr_host_url (fst (the (get_smallest_load 0 100000 STALENESS split_db2))) = ''b''"
    using stale_placement_is_forgotten [OF tally_urls_ok row(1), of 9 split_env False fl1] row(2)
    by (auto simp: env 2)
  with 1 2 show ?thesis by (intro exI conjI)
qed

theorem answered_host_has_room_witness:
  "\<exists>fl1 fl2. dist_get_voice_host_for tally_urls split_env 7 False split_db2 fl1 =
       ((split_db2, fl2), Some (Some ''b'')) \<and> hosts fl1 ''a'' 7 \<and> hosts fl2 ''a'' 7 \<and> hosts fl2 ''b'' 7"
proof -
  obtain fl1 fl2 where
    1: "dist_get_voice_host_for tally_urls split_env 7 False split_db split_fleet =
       ((split_db, fl1), Some (Some ''a''))" and
    2: "dist_get_voice_host_for tally_urls split_env 7 False split_db2 fl1 =
       ((split_db2, fl2), Some (Some ''b''))"
    using split_lookups by (elim exE conjE) (rule that)
  have a: "hosts fl1 ''a'' 7"
    using answered_host_has_room [OF tally_urls_ok 1] by blast
  have b: "hosts fl2 ''b'' 7" "fl2 ''a'' = fl1 ''a''"
    using answered_host_has_room [OF tally_urls_ok 2] by simp_all
  then have "hosts fl2 ''a'' 7" using a by (simp add: hosts_def)
  with a b(1) 2 show ?thesis by (intro exI conjI)
qed

section \<open>Heartbeats\<close>

definition arrives :: "net \<Rightarrow> bool" where
  "arrives net \<longleftrightarrow> (\<forall>st. net \<noteq> Lost st)"

lemma arrives_simps [simp]: "arrives Delivered" "\<not> arrives (Lost st)" "arrives (AnswerLost st)"
  by (simp_all add: arrives_def)

text \<open>When a server was last seen, as far as the registry knows.\<close>

definition last_seen_of :: "uuid \<Rightarrow> db \<Rightarrow> instant option" where
  "last_seen_of server d = map_option vr_last_seen (voice_server_get server d)"

lemma get_active_last_seen:
  "get_active now server threshold d \<noteq> None \<longleftrightarrow>
     (case last_seen_of server d of None \<Rightarrow> False | Some t \<Rightarrow> now < t + threshold)"
  by (simp add: get_active_def last_seen_of_def is_active_def split: option.split)

lemma find_updated:
  "List.find (\<lambda>r. vr_id r = i) (map (\<lambda>r. if vr_id r = i then r\<lparr>vr_last_seen := now\<rparr> else r) rs) =
     map_option (\<lambda>r. r\<lparr>vr_last_seen := now\<rparr>) (List.find (\<lambda>r. vr_id r = i) rs)"
  by (induction rs) auto

lemma find_appended:
  "List.find p (xs @ [x]) = (case List.find p xs of None \<Rightarrow> if p x then Some x else None | Some y \<Rightarrow> Some y)"
  by (induction xs) auto

lemma register_last_seen:
  "last_seen_of server (fst (register_voice_server now server url d)) = Some now"
  using find_none [of vr_id server "voice_servers d"]
  by (auto simp: last_seen_of_def register_voice_server_def create_or_update_def voice_server_get_def
      find_updated find_appended split: option.split)

lemma beat_last_seen:
  assumes "texts_ok (base_texts tx)" and "url_parse tx addr \<noteq> None"
  shows "last_seen_of server (beat tx server addr b d) =
    (if arrives (snd b) then Some (fst b) else last_seen_of server d)"
proof -
  have "uuid_parse tx (uuid_text tx server) = Some server"
    using assms(1) by (simp add: texts_ok_def base_texts_def texts.defs)
  moreover obtain url where "url_parse tx addr = Some url" using assms(2) by blast
  ultimately have "grpc_register tx now (uuid_text tx server) addr d =
      map_prod id (\<lambda>t. Inr (timestamp_of t)) (register_voice_server now server url d)" for now
    by (simp add: grpc_register_def parse_field_def map_prod_def)
  then show ?thesis
    by (cases "snd b") (simp_all add: beat_def remote_register_def over_network_def register_last_seen)
qed

text \<open>The time of the last heartbeat that arrived.\<close>

definition last_arrival :: "instant option \<Rightarrow> (instant \<times> net) list \<Rightarrow> instant option" where
  "last_arrival t bs = fold (\<lambda>b t. if arrives (snd b) then Some (fst b) else t) bs t"

lemma beats_last_seen:
  assumes "texts_ok (base_texts tx)" and "url_parse tx addr \<noteq> None"
  shows "last_seen_of server (fold (beat tx server addr) bs d) = last_arrival (last_seen_of server d) bs"
  by (induction bs arbitrary: d) (simp_all add: last_arrival_def beat_last_seen [OF assms])

text \<open>
  Heartbeats keep a server in the registry. After a voice server has started, it is active exactly
  until 35 seconds after the last of its heartbeats that reached the registry, whether or not
  the answers came back.
\<close>

theorem active_since_last_heartbeat:
  assumes "texts_ok (base_texts tx)" and "heartbeat tx server addr first bs d = (d', Some ())"
  shows "get_active now server STALENESS d' \<noteq> None \<longleftrightarrow>
    now < the (last_arrival (Some (fst first)) bs) + STALENESS"
proof -
  obtain d1 u where d1: "remote_register tx (snd first) (fst first) server addr d = (d1, Inr u)"
      "d' = fold (beat tx server addr) bs d1"
    using assms(2) by (auto simp: heartbeat_def split: prod.splits sum.splits)
  then have "snd first = Delivered" and url: "url_parse tx addr \<noteq> None"
    by (cases "snd first"; auto simp: remote_register_def over_network_def grpc_register_def
        parse_field_def and_then_def split: option.splits sum.splits prod.splits)+
  then have "last_seen_of server d1 = Some (fst first)"
    using beat_last_seen [OF assms(1) url, of server first d] d1(1) by (simp add: beat_def)
  then have "last_seen_of server d' = last_arrival (Some (fst first)) bs"
    using beats_last_seen [OF assms(1) url] d1(2) by simp
  moreover have "last_arrival (Some t) bs \<noteq> None" for t
    unfolding last_arrival_def by (induction bs arbitrary: t) simp_all
  then obtain t where "last_arrival (Some (fst first)) bs = Some t" by blast
  ultimately show ?thesis
    unfolding get_active_last_seen by simp
qed

text \<open>The heartbeat of the third tick is lost: 35 seconds after the second one the server is inactive.\<close>

definition one_lost :: "(instant \<times> net) list" where
  "one_lost = [(0, Delivered), (HEARTBEAT_INTERVAL, Delivered), (2 * HEARTBEAT_INTERVAL, Lost unreachable)]"

theorem active_since_last_heartbeat_witness:
  "\<exists>d. heartbeat tally_urls 9 ''u'' (0, Delivered) one_lost empty_db = (d, Some ()) \<and>
     get_active 64999 9 STALENESS d \<noteq> None \<and> get_active 65000 9 STALENESS d = None"
proof -
  have "uuid_parse tally_urls (uuid_text tally_urls 9) = Some 9"
    by (simp add: tally_urls_def tally_texts_def texts.defs)
  then have "\<exists>d. heartbeat tally_urls 9 ''u'' (0, Delivered) one_lost empty_db = (d, Some ())"
    by (simp add: heartbeat_def remote_register_def over_network_def grpc_register_def parse_field_def
        tally_urls_def texts.defs map_prod_def split: prod.split)
  then obtain d where d: "heartbeat tally_urls 9 ''u'' (0, Delivered) one_lost empty_db = (d, Some ())"
    by (elim exE) (rule that)
  have "get_active now 9 STALENESS d \<noteq> None \<longleftrightarrow> now < 65000" for now
    using active_since_last_heartbeat [OF tally_urls_ok d, of now]
    by (simp add: one_lost_def last_arrival_def HEARTBEAT_INTERVAL_def STALENESS_def)
  from this [of 64999] this [of 65000] d show ?thesis by (intro exI [of _ d] conjI) simp_all
qed

section \<open>Giving rooms back\<close>

lemma unassigned_row:
  "map_option cr_assigned_to (channel_row_get r (unassign_channel now server room d)) =
     map_option (\<lambda>c. if r = room \<and> cr_assigned_to c = Some server then None else cr_assigned_to c)
       (channel_row_get r d)"
proof -
  have "map_option cr_assigned_to (List.find (\<lambda>c. cr_id c = r)
      (map (\<lambda>c. if cr_id c = room \<and> cr_assigned_to c = Some server
        then touched now c (c\<lparr>cr_assigned_to := None\<rparr>) else c) cs)) =
    map_option (\<lambda>c. if r = room \<and> cr_assigned_to c = Some server then None else cr_assigned_to c)
      (List.find (\<lambda>c. cr_id c = r) cs)" for cs
    by (induction cs) auto
  then show ?thesis
    by (simp add: unassign_channel_def unassign_def update_channels_def channel_row_get_def)
qed

text \<open>
  A voice server gives back only its own rooms. When a channel has ended, the notification
  unassigns it in the registry if it is still assigned to that voice server; a channel that has been
  assigned to another server meanwhile, and every other channel, stay where they are, and a
  notification that is lost changes nothing.
\<close>

theorem ended_room_is_given_back:
  assumes "texts_ok (base_texts tx)"
  shows "map_option cr_assigned_to (channel_row_get r (notify tx net now server room d)) =
    map_option (\<lambda>c. if arrives net \<and> r = room \<and> cr_assigned_to c = Some server then None
      else cr_assigned_to c) (channel_row_get r d)"
  using assms unassigned_row [of r now server room d]
  by (cases net) (simp_all add: notify_def remote_unassign_channel_def over_network_def grpc_unassign_def
      written_base option.map_ident)

theorem ended_room_is_given_back_witness:
  "map_option cr_assigned_to (channel_row_get 7 (notify tally_urls Delivered 3000 9 7 sample_db)) = Some None \<and>
   map_option cr_assigned_to (channel_row_get 7 (notify tally_urls Delivered 3000 8 7 sample_db)) = Some (Some 9)"
proof -
  have "channel_row_get 7 sample_db = Some \<lparr>cr_id = 7, cr_server_id = 5, cr_assigned_to = Some 9,
      cr_name = ''c'', cr_updated_at = 1000\<rparr>"
    by (simp add: channel_row_get_def sample_db_value)
  then show ?thesis unfolding ended_room_is_given_back [OF tally_urls_ok] by simp
qed

end
