(* ===== verification/Redis_Channel.thy ===== *)
theory Redis_Channel
  imports Presence "HOL-Library.Multiset" "HOL-Library.Sublist"
begin

text \<open>
  The channel state of the distributed set-up, \<open>server/gateway/src/server/channels/state/distributed.rs\<close>:
  each gateway has a \<open>RedisChannelEvents\<close> for a channel, with its local members and a task that reads
  the events of the channel from Redis (\<open>RedisEventSource\<close>); all share a hash of members and a topic
  in Redis. One channel and all its gateways are modelled. A Redis command is atomic; between the
  commands of one operation anything else may happen, and any command may fail.
\<close>

section \<open>Redis\<close>

text \<open>
  The hash has two kinds of fields, a client's entry and when it was last seen. The topic is the
  list of everything published on it; a subscriber is a position in it.
\<close>

record redis_state =
  rs_members :: "(uuid, client_info) hash_map"
  rs_last_seen :: "(uuid, instant) hash_map"
  rs_published :: "channel_event list"

datatype redis_cmd =
    HSetMember client_info
  | HDelMember uuid
  | HSetSeen uuid
  | PublishEv channel_event

definition run_cmd :: "instant \<Rightarrow> redis_cmd \<Rightarrow> redis_state \<Rightarrow> redis_state" where
  "run_cmd now c r = (case c of
      HSetMember info \<Rightarrow> r\<lparr>rs_members := hm_insert (ci_client_id info) info (rs_members r),
        rs_last_seen := hm_insert (ci_client_id info) now (rs_last_seen r)\<rparr>
    | HDelMember i \<Rightarrow> r\<lparr>rs_members := hm_remove i (rs_members r)\<rparr>
    | HSetSeen i \<Rightarrow> r\<lparr>rs_last_seen := hm_insert i now (rs_last_seen r)\<rparr>
    | PublishEv ev \<Rightarrow> r\<lparr>rs_published := rs_published r @ [ev]\<rparr>)"

text \<open>\<open>list_members\<close>: the entries, without the fields of the other kind.\<close>

definition list_members :: "redis_state \<Rightarrow> client_info list" where
  "list_members r = map snd (rs_members r)"

section \<open>The channel in one gateway\<close>

text \<open>The Redis commands an operation still has to run; a join yields its handle at the end.\<close>

record redis_task =
  tk_info :: client_info
  tk_join :: "chat_room_joined option"
  tk_cmds :: "redis_cmd list"

datatype source_status = NotSubscribed | Reading nat instant | SourceEnded

record redis_node =
  rn_present :: locally_present
  rn_bus :: "channel_event list"
  rn_source :: source_status
  rn_handles :: "chat_room_joined list"
  rn_leaving :: "client_info list"
  rn_tasks :: "redis_task list"
  rn_closed :: bool
  rn_up :: bool

definition redis_node_new :: redis_node where
  "redis_node_new = \<lparr>rn_present = locally_present_new, rn_bus = [], rn_source = NotSubscribed,
     rn_handles = [], rn_leaving = [], rn_tasks = [], rn_closed = False, rn_up = True\<rparr>"

definition remove_nth :: "nat \<Rightarrow> 'a list \<Rightarrow> 'a list" where
  "remove_nth k xs = take k xs @ drop (Suc k) xs"

text \<open>A join enters the client locally and subscribes it; then the commands follow.\<close>

definition redis_join :: "client_info \<Rightarrow> redis_node \<Rightarrow> redis_node option" where
  "redis_join info n = (case present_join info (rn_present n) of
      (p, False) \<Rightarrow> None
    | (p, True) \<Rightarrow>
        (let j = \<lparr>updates = length (rn_bus n), jr_info = info\<rparr>;
             event = event_joined (ci_client_id info) (ci_name info) (ci_source_id info)
         in Some (n\<lparr>rn_present := p, rn_tasks := rn_tasks n @
              [\<lparr>tk_info = info, tk_join = Some j, tk_cmds = [HSetMember info, PublishEv event]\<rparr>]\<rparr>)))"

text \<open>The spawned task of a dropped handle leaves.\<close>

definition redis_leave :: "client_info \<Rightarrow> redis_node \<Rightarrow> redis_node" where
  "redis_leave info n =
     (let (p, empty) = present_leave (ci_client_id info) (rn_present n);
          event = event_left (ci_client_id info) (ci_name info) (ci_source_id info)
      in n\<lparr>rn_present := p, rn_closed := (rn_closed n \<or> empty),
           rn_leaving := remove1 info (rn_leaving n),
           rn_tasks := rn_tasks n @ [\<lparr>tk_info = info, tk_join = None,
             tk_cmds = [PublishEv event, HDelMember (ci_client_id info)]\<rparr>]\<rparr>)"

definition redis_drop :: "chat_room_joined \<Rightarrow> redis_node \<Rightarrow> redis_node" where
  "redis_drop j n = n\<lparr>rn_handles := remove1 j (rn_handles n), rn_leaving := jr_info j # rn_leaving n\<rparr>"

text \<open>The first command of a task is run.\<close>

definition exec_task :: "instant \<Rightarrow> nat \<Rightarrow> redis_state \<Rightarrow> redis_node \<Rightarrow> redis_state \<times> redis_node" where
  "exec_task now k r n =
     (let t = rn_tasks n ! k in case tk_cmds t of
        [] \<Rightarrow> (r, n)
      | c # cs \<Rightarrow>
          (run_cmd now c r,
           if cs = []
           then n\<lparr>rn_tasks := remove_nth k (rn_tasks n),
                  rn_handles := (case tk_join t of None \<Rightarrow> rn_handles n | Some j \<Rightarrow> j # rn_handles n)\<rparr>
           else n\<lparr>rn_tasks := (rn_tasks n)[k := t\<lparr>tk_cmds := cs\<rparr>]\<rparr>))"

text \<open>It fails: the operation returns an error, and a join drops the handle it has made.\<close>

definition fail_task :: "nat \<Rightarrow> redis_node \<Rightarrow> redis_node" where
  "fail_task k n =
     n\<lparr>rn_tasks := remove_nth k (rn_tasks n),
       rn_leaving := (case tk_join (rn_tasks n ! k) of
          None \<Rightarrow> rn_leaving n | Some j \<Rightarrow> jr_info j # rn_leaving n)\<rparr>"

section \<open>The source of events\<close>

definition source_subscribe :: "instant \<Rightarrow> redis_state \<Rightarrow> redis_node \<Rightarrow> redis_node" where
  "source_subscribe now r n = n\<lparr>rn_source := Reading (length (rs_published r)) now\<rparr>"

text \<open>The receivers someone holds, those of pending joins included.\<close>

definition node_joins :: "redis_node \<Rightarrow> chat_room_joined list" where
  "node_joins n = rn_handles n @ List.map_filter tk_join (rn_tasks n)"

definition has_receivers :: "redis_node \<Rightarrow> bool" where
  "has_receivers n \<longleftrightarrow> node_joins n \<noteq> []"

text \<open>
  A message is passed on. When nobody has listened for five seconds the source ends; what it sends
  to nobody stays in the log, where no receiver will look for it.
\<close>

definition source_deliver :: "instant \<Rightarrow> redis_state \<Rightarrow> redis_node \<Rightarrow> redis_node" where
  "source_deliver now r n = (case rn_source n of
      Reading pos last_delivered \<Rightarrow>
        (if pos < length (rs_published r)
         then n\<lparr>rn_bus := rn_bus n @ [rs_published r ! pos],
                rn_source := (if has_receivers n then Reading (Suc pos) now
                  else if last_delivered + 5000 < now then SourceEnded
                  else Reading (Suc pos) last_delivered)\<rparr>
         else n)
    | _ \<Rightarrow> n)"

definition crashed :: "redis_node \<Rightarrow> redis_node" where
  "crashed n = n\<lparr>rn_handles := [], rn_leaving := [], rn_tasks := [], rn_source := SourceEnded,
     rn_up := False\<rparr>"

section \<open>The channel in all gateways\<close>

record redis_room =
  rr_redis :: redis_state
  rr_nodes :: "redis_node list"

definition room_new :: redis_room where
  "room_new = \<lparr>rr_redis = \<lparr>rs_members = [], rs_last_seen = [], rs_published = []\<rparr>, rr_nodes = []\<rparr>"

definition set_node :: "nat \<Rightarrow> redis_node \<Rightarrow> redis_room \<Rightarrow> redis_room" where
  "set_node i n r = r\<lparr>rr_nodes := (rr_nodes r)[i := n]\<rparr>"

text \<open>
  What a step is: a join of a client, one that loses the trace of a client (its gateway dies, or the
  commands of its leaving fail), or any other.
\<close>

datatype redis_label = LJoin client_info | LLost | LPlain

inductive redis_step :: "redis_room \<Rightarrow> redis_label \<Rightarrow> redis_room \<Rightarrow> bool" where
  init: "redis_step r LPlain (r\<lparr>rr_nodes := rr_nodes r @ [redis_node_new]\<rparr>)"
| subscribe: "i < length (rr_nodes r) \<Longrightarrow> rn_source (rr_nodes r ! i) = NotSubscribed \<Longrightarrow>
     redis_step r LPlain (set_node i (source_subscribe now (rr_redis r) (rr_nodes r ! i)) r)"
| deliver: "i < length (rr_nodes r) \<Longrightarrow>
     redis_step r LPlain (set_node i (source_deliver now (rr_redis r) (rr_nodes r ! i)) r)"
| join: "i < length (rr_nodes r) \<Longrightarrow> rn_up (rr_nodes r ! i) \<Longrightarrow>
     redis_join info (rr_nodes r ! i) = Some n \<Longrightarrow> redis_step r (LJoin info) (set_node i n r)"
| exec: "i < length (rr_nodes r) \<Longrightarrow> k < length (rn_tasks (rr_nodes r ! i)) \<Longrightarrow>
     exec_task now k (rr_redis r) (rr_nodes r ! i) = (redis, n) \<Longrightarrow>
     redis_step r LPlain (set_node i n (r\<lparr>rr_redis := redis\<rparr>))"
| refresh: "i < length (rr_nodes r) \<Longrightarrow> j \<in> set (node_joins (rr_nodes r ! i)) \<Longrightarrow>
     redis_step r LPlain (r\<lparr>rr_redis := run_cmd now (HSetSeen (ci_client_id (jr_info j))) (rr_redis r)\<rparr>)"
| drop: "i < length (rr_nodes r) \<Longrightarrow> j \<in> set (rn_handles (rr_nodes r ! i)) \<Longrightarrow>
     redis_step r LPlain (set_node i (redis_drop j (rr_nodes r ! i)) r)"
| leave: "i < length (rr_nodes r) \<Longrightarrow> info \<in> set (rn_leaving (rr_nodes r ! i)) \<Longrightarrow>
     redis_step r LPlain (set_node i (redis_leave info (rr_nodes r ! i)) r)"
| fails: "i < length (rr_nodes r) \<Longrightarrow> k < length (rn_tasks (rr_nodes r ! i)) \<Longrightarrow>
     redis_step r (if tk_join (rn_tasks (rr_nodes r ! i) ! k) = None then LLost else LPlain)
       (set_node i (fail_task k (rr_nodes r ! i)) r)"
| source_lost: "i < length (rr_nodes r) \<Longrightarrow>
     redis_step r LPlain (set_node i ((rr_nodes r ! i)\<lparr>rn_source := SourceEnded\<rparr>) r)"
| crash: "i < length (rr_nodes r) \<Longrightarrow> redis_step r LLost (set_node i (crashed (rr_nodes r ! i)) r)"

inductive_cases redis_stepE: "redis_step r l r'"

text \<open>Everything reachable.\<close>

inductive redis_reach :: "redis_room \<Rightarrow> bool" where
  fresh: "redis_reach room_new"
| step: "redis_reach r \<Longrightarrow> redis_step r l r' \<Longrightarrow> redis_reach r'"

text \<open>A history with the labels of its steps.\<close>

inductive redis_run :: "redis_room \<Rightarrow> redis_label list \<Rightarrow> redis_room \<Rightarrow> bool" where
  stay: "redis_run r [] r"
| step: "redis_run r ls r' \<Longrightarrow> redis_step r' l r'' \<Longrightarrow> redis_run r (ls @ [l]) r''"

lemma set_node_simps [simp]:
  "rr_redis (set_node i n r) = rr_redis r" "rr_nodes (set_node i n r) = (rr_nodes r)[i := n]"
  by (simp_all add: set_node_def)

section \<open>One log of events\<close>

text \<open>What a node has passed on, when its source subscribes at the position \<open>b\<close> or later.\<close>

definition node_from :: "nat \<Rightarrow> channel_event list \<Rightarrow> redis_node \<Rightarrow> bool" where
  "node_from b pub n \<longleftrightarrow> (case rn_source n of
      NotSubscribed \<Rightarrow> rn_bus n = []
    | Reading pos t \<Rightarrow> b \<le> pos \<and> pos \<le> length pub \<and> suffix (rn_bus n) (drop b (take pos pub))
    | SourceEnded \<Rightarrow> sublist (rn_bus n) (drop b pub))"

lemma node_from_cong:
  "node_from b pub n \<Longrightarrow> rn_source n' = rn_source n \<Longrightarrow> rn_bus n' = rn_bus n \<Longrightarrow> node_from b pub n'"
  by (simp add: node_from_def cong: source_status.case_cong)

lemma sublist_drop_take: "suffix xs (drop b (take pos ys)) \<Longrightarrow> sublist xs (drop b ys)"
  by (metis drop_take sublist_order.order_trans sublist_take suffix_imp_sublist)

lemma sublist_append1: "sublist xs ys \<Longrightarrow> sublist xs (ys @ zs)"
  by (meson sublist_appendI sublist_append_rightI sublist_order.order_trans)

lemma node_from_grow: "node_from b pub n \<Longrightarrow> b \<le> length pub \<Longrightarrow> node_from b (pub @ evs) n"
  by (auto simp: node_from_def sublist_append1 split: source_status.splits)

lemma node_from_new: "node_from b pub redis_node_new"
  by (simp add: node_from_def redis_node_new_def)

lemma node_from_ended: "node_from b pub n \<Longrightarrow> node_from b pub (n\<lparr>rn_source := SourceEnded\<rparr>)"
  by (auto simp: node_from_def split: source_status.splits dest: sublist_drop_take)

lemma node_from_subscribe:
  "node_from b (rs_published r) n \<Longrightarrow> rn_source n = NotSubscribed \<Longrightarrow> b \<le> length (rs_published r) \<Longrightarrow>
     node_from b (rs_published r) (source_subscribe now r n)"
  by (auto simp: node_from_def source_subscribe_def)

lemma node_from_deliver:
  assumes ok: "node_from b (rs_published r) n"
  shows "node_from b (rs_published r) (source_deliver now r n)"
proof (cases "rn_source n")
  case (Reading pos t)
  have one: "suffix (rn_bus n @ [rs_published r ! pos]) (drop b (take (Suc pos) (rs_published r)))"
    if "pos < length (rs_published r)"
    using ok Reading that by (auto simp: node_from_def take_Suc_conv_app_nth)
  show ?thesis
    using ok Reading one by (auto simp: source_deliver_def node_from_def dest: sublist_drop_take)
qed (use ok in \<open>simp_all add: source_deliver_def\<close>)

text \<open>The other operations leave the source and the log alone.\<close>

lemma source_bus_simps [simp]:
  "rn_source (redis_leave info n) = rn_source n" "rn_bus (redis_leave info n) = rn_bus n"
  "rn_source (redis_drop j n) = rn_source n" "rn_bus (redis_drop j n) = rn_bus n"
  "rn_source (fail_task k n) = rn_source n" "rn_bus (fail_task k n) = rn_bus n"
  "rn_source (crashed n) = SourceEnded" "rn_bus (crashed n) = rn_bus n"
  by (simp_all add: redis_leave_def redis_drop_def fail_task_def crashed_def Let_def split_beta)

lemma source_bus_join:
  "redis_join info n = Some n' \<Longrightarrow> rn_source n' = rn_source n \<and> rn_bus n' = rn_bus n"
  by (auto simp: redis_join_def Let_def split: prod.splits bool.splits)

lemma source_bus_exec:
  "exec_task now k r n = (r', n') \<Longrightarrow> rn_source n' = rn_source n \<and> rn_bus n' = rn_bus n"
  by (auto simp: exec_task_def Let_def split: list.splits if_splits)

lemma published_run_cmd: "\<exists>evs. rs_published (run_cmd now c r) = rs_published r @ evs"
  by (cases c) (auto simp: run_cmd_def)

lemma published_exec:
  assumes "exec_task now k r n = (r', n')"
  shows "\<exists>evs. rs_published r' = rs_published r @ evs"
  using assms published_run_cmd [of now _ r]
  by (auto simp: exec_task_def Let_def split: list.splits)

lemma step_keeps_node:
  assumes "redis_step r l r'" and "i < length (rr_nodes r)"
    and "node_from b (rs_published (rr_redis r)) (rr_nodes r ! i)"
    and "b \<le> length (rs_published (rr_redis r))"
  shows "i < length (rr_nodes r') \<and> b \<le> length (rs_published (rr_redis r')) \<and>
    node_from b (rs_published (rr_redis r')) (rr_nodes r' ! i)"
  using assms
proof cases
  case (subscribe k now)
  then show ?thesis
    using assms by (cases "k = i") (simp_all add: node_from_subscribe)
next
  case (deliver k now)
  then show ?thesis
    using assms by (cases "k = i") (simp_all add: node_from_deliver)
next
  case (join k info n)
  then show ?thesis
    using assms node_from_cong source_bus_join [OF join(5)]
    by (cases "k = i") auto
next
  case (exec k t now redis n)
  obtain evs where "rs_published redis = rs_published (rr_redis r) @ evs"
    using published_exec [OF exec(5)] by blast
  then show ?thesis
    using exec assms node_from_grow node_from_cong [OF _ source_bus_exec [OF exec(5), THEN conjunct1]
        source_bus_exec [OF exec(5), THEN conjunct2]]
    by (cases "k = i") auto
next
  case (refresh k j now)
  then show ?thesis using assms by (simp add: run_cmd_def)
next
  case (source_lost k)
  then show ?thesis using assms by (cases "k = i") (simp_all add: node_from_ended)
next
  case (crash k)
  have "node_from b pub n \<Longrightarrow> node_from b pub (crashed n)" for pub n
    using node_from_cong [OF node_from_ended, of b pub n "crashed n"] by simp
  then show ?thesis using crash assms by (cases "k = i") simp_all
qed (auto simp: nth_append nth_list_update intro: node_from_cong)

lemma new_node_from:
  assumes "redis_step r l r'" and "i < length (rr_nodes r')" and "\<not> i < length (rr_nodes r)"
  shows "rr_nodes r' ! i = redis_node_new"
  using assms by cases (auto simp: nth_append less_Suc_eq)

lemma reach_node_from:
  assumes "redis_reach r" and "i < length (rr_nodes r)"
  shows "node_from 0 (rs_published (rr_redis r)) (rr_nodes r ! i)"
  using assms
proof (induction arbitrary: i)
  case fresh
  then show ?case by (simp add: room_new_def)
next
  case (step r l r')
  show ?case
  proof (cases "i < length (rr_nodes r)")
    case True
    then show ?thesis using step_keeps_node [OF step.hyps(2) True step.IH [OF True]] by simp
  next
    case False
    then show ?thesis using new_node_from [OF step.hyps(2) step.prems False] node_from_new by simp
  qed
qed

lemma run_node_from:
  assumes "redis_run r ls r'" and "i < length (rr_nodes r)"
    and "node_from b (rs_published (rr_redis r)) (rr_nodes r ! i)"
    and "b \<le> length (rs_published (rr_redis r))"
  shows "i < length (rr_nodes r') \<and> b \<le> length (rs_published (rr_redis r')) \<and>
    node_from b (rs_published (rr_redis r')) (rr_nodes r' ! i)"
  using assms by induction (use step_keeps_node in blast)+

section \<open>Who is listed\<close>

text \<open>A client a gateway still knows of, by a handle or by a task.\<close>

definition looked_after :: "uuid \<Rightarrow> redis_node \<Rightarrow> bool" where
  "looked_after c n \<longleftrightarrow> c \<in> ci_client_id `
     (jr_info ` set (rn_handles n) \<union> set (rn_leaving n) \<union> tk_info ` set (rn_tasks n))"

definition task_ok :: "redis_task \<Rightarrow> bool" where
  "task_ok t \<longleftrightarrow> (case tk_join t of
      Some j \<Rightarrow> jr_info j = tk_info t \<and> (\<exists>ev. tk_cmds t = [HSetMember (tk_info t), PublishEv ev] \<or>
        tk_cmds t = [PublishEv ev])
    | None \<Rightarrow> \<exists>ev. tk_cmds t = [PublishEv ev, HDelMember (ci_client_id (tk_info t))] \<or>
        tk_cmds t = [HDelMember (ci_client_id (tk_info t))])"

definition node_tasks_ok :: "redis_node \<Rightarrow> bool" where
  "node_tasks_ok n \<longleftrightarrow> (\<forall>t \<in> set (rn_tasks n). task_ok t)"

definition members_ok :: "redis_state \<Rightarrow> bool" where
  "members_ok r \<longleftrightarrow> hm_ok (rs_members r) \<and>
     (\<forall>c v. map_of (rs_members r) c = Some v \<longrightarrow> ci_client_id v = c)"

definition redis_room_ok :: "redis_room \<Rightarrow> bool" where
  "redis_room_ok r \<longleftrightarrow> members_ok (rr_redis r) \<and> (\<forall>n \<in> set (rr_nodes r). node_tasks_ok n)"

lemma listed_iff:
  "members_ok r \<Longrightarrow> v \<in> set (list_members r) \<longleftrightarrow> map_of (rs_members r) (ci_client_id v) = Some v"
  using hm.value_iff [of "rs_members r" v] by (auto simp: members_ok_def list_members_def)

lemma members_ok_run: "members_ok r \<Longrightarrow> members_ok (run_cmd now c r)"
  by (cases c) (auto simp: members_ok_def run_cmd_def hm.ok_put hm.ok_del update_conv' delete_conv'
      split: if_splits)

lemma set_remove_nth: "set (remove_nth k xs) \<subseteq> set xs"
  by (auto simp: remove_nth_def dest: in_set_takeD in_set_dropD)

lemma set_remove_nth_insert:
  assumes "k < length xs"
  shows "set xs = insert (xs ! k) (set (remove_nth k xs))"
proof -
  have "set xs = set (take k xs @ xs ! k # drop (Suc k) xs)"
    using id_take_nth_drop [OF assms] by simp
  then show ?thesis by (auto simp: remove_nth_def)
qed

lemma map_update_same: "f y = f (xs ! k) \<Longrightarrow> map f (xs[k := y]) = map f xs"
  by (metis list_update_id map_update)

text \<open>How the operations change what a gateway looks after.\<close>

lemma looked_after_join:
  "redis_join info n = Some n' \<Longrightarrow> looked_after c n' \<longleftrightarrow> c = ci_client_id info \<or> looked_after c n"
  by (auto simp: looked_after_def redis_join_def Let_def split: prod.splits bool.splits)

lemma set_remove1_insert: "x \<in> set xs \<Longrightarrow> set xs = insert x (set (remove1 x xs))"
  by (induction xs) auto

lemma looked_after_drop:
  assumes "j \<in> set (rn_handles n)"
  shows "looked_after c (redis_drop j n) \<longleftrightarrow> looked_after c n"
  using set_remove1_insert [OF assms]
  by (simp add: looked_after_def redis_drop_def)

lemma looked_after_leave:
  assumes "info \<in> set (rn_leaving n)"
  shows "looked_after c (redis_leave info n) \<longleftrightarrow> looked_after c n"
  using set_remove1_insert [OF assms]
  by (simp add: looked_after_def redis_leave_def Let_def split_beta)

lemma not_looked_after_crashed: "\<not> looked_after c (crashed n)"
  by (simp add: looked_after_def crashed_def)

lemma looked_after_source [simp]:
  "looked_after c (source_subscribe now r n) = looked_after c n"
  "looked_after c (source_deliver now r n) = looked_after c n"
  "looked_after c (n\<lparr>rn_source := s\<rparr>) = looked_after c n"
  "\<not> looked_after c redis_node_new"
  by (auto simp: looked_after_def source_subscribe_def source_deliver_def redis_node_new_def
      split: source_status.splits)

lemma looked_after_fail:
  assumes "node_tasks_ok n" and "k < length (rn_tasks n)"
  shows "looked_after c (fail_task k n) \<Longrightarrow> looked_after c n"
    and "tk_join (rn_tasks n ! k) \<noteq> None \<Longrightarrow> looked_after c n \<Longrightarrow> looked_after c (fail_task k n)"
proof -
  have t: "task_ok (rn_tasks n ! k)"
    using assms by (simp add: node_tasks_ok_def)
  note parts = set_remove_nth_insert [OF assms(2)]
  show "looked_after c (fail_task k n) \<Longrightarrow> looked_after c n"
    using t parts by (auto simp: looked_after_def fail_task_def task_ok_def split: option.splits)
  show "tk_join (rn_tasks n ! k) \<noteq> None \<Longrightarrow> looked_after c n \<Longrightarrow> looked_after c (fail_task k n)"
    using t parts by (auto simp: looked_after_def fail_task_def task_ok_def)
qed

text \<open>A command is run by the task of the client it is about.\<close>

lemma exec_task_cases:
  assumes "exec_task now k r n = (r', n')" and "node_tasks_ok n" and "k < length (rn_tasks n)"
  obtains
    (Enter) info j where "tk_info (rn_tasks n ! k) = info" "tk_join (rn_tasks n ! k) = Some j"
      "r' = run_cmd now (HSetMember info) r" "\<And>c. looked_after c n' \<longleftrightarrow> looked_after c n"
  | (Publish) ev where "r' = run_cmd now (PublishEv ev) r" "\<And>c. looked_after c n' \<longleftrightarrow> looked_after c n"
  | (Remove) info where "tk_info (rn_tasks n ! k) = info"
      "r' = run_cmd now (HDelMember (ci_client_id info)) r"
      "\<And>c. looked_after c n' \<Longrightarrow> looked_after c n"
      "\<And>c. looked_after c n \<Longrightarrow> c \<noteq> ci_client_id info \<Longrightarrow> looked_after c n'"
proof -
  let ?t = "rn_tasks n ! k"
  have t: "task_ok ?t"
    using assms(2,3) by (simp add: node_tasks_ok_def)
  note parts = set_remove_nth_insert [OF assms(3)]
  have same: "looked_after c (n\<lparr>rn_tasks := (rn_tasks n)[k := ?t\<lparr>tk_cmds := cs\<rparr>]\<rparr>) \<longleftrightarrow> looked_after c n"
    for c cs
    using map_update_same [of tk_info "?t\<lparr>tk_cmds := cs\<rparr>" "rn_tasks n" k]
    by (simp add: looked_after_def flip: set_map)
  show thesis
  proof (cases "tk_join ?t")
    case None
    then obtain ev where "tk_cmds ?t = [PublishEv ev, HDelMember (ci_client_id (tk_info ?t))] \<or>
        tk_cmds ?t = [HDelMember (ci_client_id (tk_info ?t))]"
      using t by (auto simp: task_ok_def)
    then show thesis
    proof
      assume "tk_cmds ?t = [PublishEv ev, HDelMember (ci_client_id (tk_info ?t))]"
      then show thesis
        using assms(1) same by (intro Publish [of ev]) (auto simp: exec_task_def Let_def)
    next
      assume "tk_cmds ?t = [HDelMember (ci_client_id (tk_info ?t))]"
      then show thesis
        using assms(1) None parts
        by (intro Remove [of "tk_info ?t"]) (auto simp: exec_task_def Let_def looked_after_def)
    qed
  next
    case (Some j)
    then obtain ev where "tk_cmds ?t = [HSetMember (tk_info ?t), PublishEv ev] \<or>
        tk_cmds ?t = [PublishEv ev]" and j: "jr_info j = tk_info ?t"
      using t by (auto simp: task_ok_def)
    then show thesis
    proof (elim disjE)
      assume "tk_cmds ?t = [HSetMember (tk_info ?t), PublishEv ev]"
      then show thesis
        using assms(1) same Some by (intro Enter [of "tk_info ?t" j]) (auto simp: exec_task_def Let_def)
    next
      assume "tk_cmds ?t = [PublishEv ev]"
      then show thesis
        using assms(1) Some parts j
        by (intro Publish [of ev]) (auto simp: exec_task_def Let_def looked_after_def)
    qed
  qed
qed

section \<open>Tasks and hash stay well-formed\<close>

lemma node_tasks_ok_simps [simp]:
  "node_tasks_ok redis_node_new" "node_tasks_ok (crashed n)"
  "node_tasks_ok (source_subscribe now r n) = node_tasks_ok n"
  "node_tasks_ok (source_deliver now r n) = node_tasks_ok n"
  "node_tasks_ok (n\<lparr>rn_source := s\<rparr>) = node_tasks_ok n"
  "node_tasks_ok (redis_drop j n) = node_tasks_ok n"
  by (auto simp: node_tasks_ok_def redis_node_new_def crashed_def source_subscribe_def
      source_deliver_def redis_drop_def split: source_status.splits)

lemma node_tasks_ok_join: "redis_join info n = Some n' \<Longrightarrow> node_tasks_ok n \<Longrightarrow> node_tasks_ok n'"
  by (auto simp: node_tasks_ok_def redis_join_def task_ok_def Let_def split: prod.splits bool.splits)

lemma node_tasks_ok_leave: "node_tasks_ok n \<Longrightarrow> node_tasks_ok (redis_leave info n)"
  by (auto simp: node_tasks_ok_def redis_leave_def task_ok_def Let_def split_beta)

lemma node_tasks_ok_fail: "node_tasks_ok n \<Longrightarrow> node_tasks_ok (fail_task k n)"
  using set_remove_nth by (fastforce simp: node_tasks_ok_def fail_task_def)

lemma task_ok_rest:
  "task_ok t \<Longrightarrow> tk_cmds t = cmd # cs \<Longrightarrow> cs \<noteq> [] \<Longrightarrow> task_ok (t\<lparr>tk_cmds := cs\<rparr>)"
  by (auto simp: task_ok_def split: option.splits)

lemma all_update:
  assumes "\<forall>n \<in> set ns. P n" and "i < length ns" and "P n"
  shows "\<forall>m \<in> set (ns[i := n]). P m"
  using assms set_update_subset_insert [of ns i n] by blast

lemma node_tasks_ok_exec:
  assumes "exec_task now k r n = (r', n')" and ok: "node_tasks_ok n" and k: "k < length (rn_tasks n)"
  shows "node_tasks_ok n'"
proof (cases "tk_cmds (rn_tasks n ! k)")
  case Nil
  then show ?thesis using assms by (simp add: exec_task_def Let_def)
next
  case (Cons cmd cs)
  have "task_ok (rn_tasks n ! k)" using ok k by (simp add: node_tasks_ok_def)
  then have rest: "cs \<noteq> [] \<Longrightarrow> task_ok ((rn_tasks n ! k)\<lparr>tk_cmds := cs\<rparr>)"
    using task_ok_rest Cons by blast
  have gone: "\<forall>t \<in> set (remove_nth k (rn_tasks n)). task_ok t"
    using set_remove_nth [of k "rn_tasks n"] ok unfolding node_tasks_ok_def by blast
  show ?thesis
  proof (cases "cs = []")
    case True
    then show ?thesis using assms(1) Cons gone by (auto simp: exec_task_def Let_def node_tasks_ok_def)
  next
    case False
    have "\<forall>t \<in> set ((rn_tasks n)[k := (rn_tasks n ! k)\<lparr>tk_cmds := cs\<rparr>]). task_ok t"
      using all_update [OF ok [unfolded node_tasks_ok_def] k rest [OF False]] .
    moreover have "rn_tasks n' = (rn_tasks n)[k := (rn_tasks n ! k)\<lparr>tk_cmds := cs\<rparr>]"
      using assms(1) Cons False by (auto simp: exec_task_def Let_def)
    ultimately show ?thesis by (simp add: node_tasks_ok_def)
  qed
qed

lemma members_ok_exec: "exec_task now k r n = (r', n') \<Longrightarrow> members_ok r \<Longrightarrow> members_ok r'"
  by (auto simp: exec_task_def Let_def members_ok_run split: list.splits)

lemma redis_room_ok_set:
  "redis_room_ok r \<Longrightarrow> i < length (rr_nodes r) \<Longrightarrow> node_tasks_ok n \<Longrightarrow> redis_room_ok (set_node i n r)"
  using all_update [of "rr_nodes r" node_tasks_ok i n] by (simp add: redis_room_ok_def)

lemma redis_room_ok_nth: "redis_room_ok r \<Longrightarrow> i < length (rr_nodes r) \<Longrightarrow> node_tasks_ok (rr_nodes r ! i)"
  by (simp add: redis_room_ok_def)

lemma redis_step_ok:
  assumes "redis_step r l r'" and ok: "redis_room_ok r"
  shows "redis_room_ok r'"
  using assms(1)
proof cases
  case init
  then show ?thesis using ok by (auto simp: redis_room_ok_def)
next
  case (join i info n)
  then show ?thesis
    using redis_room_ok_set [OF ok join(3) node_tasks_ok_join [OF join(5)]] redis_room_ok_nth [OF ok join(3)]
    by simp
next
  case (exec i k now redis n)
  have "redis_room_ok (r\<lparr>rr_redis := redis\<rparr>)"
    using ok members_ok_exec [OF exec(5)] by (simp add: redis_room_ok_def)
  then show ?thesis
    using exec redis_room_ok_set node_tasks_ok_exec [OF exec(5) redis_room_ok_nth [OF ok exec(3)] exec(4)]
    by simp
next
  case (refresh i j now)
  then show ?thesis using ok by (simp add: redis_room_ok_def members_ok_run)
qed (use ok in \<open>auto intro!: redis_room_ok_set node_tasks_ok_leave node_tasks_ok_fail
      simp: redis_room_ok_nth\<close>)

lemma redis_room_ok_new: "redis_room_ok room_new"
  by (simp add: redis_room_ok_def room_new_def members_ok_def)

lemma redis_reach_ok: "redis_reach r \<Longrightarrow> redis_room_ok r"
  by (induction rule: redis_reach.induct) (auto simp: redis_room_ok_new intro: redis_step_ok)

lemma redis_run_reach: "redis_run r ls r' \<Longrightarrow> redis_reach r \<Longrightarrow> redis_reach r'"
  by (induction rule: redis_run.induct) (auto intro: redis_reach.step)

section \<open>Listed and looked after\<close>

definition room_looks_after :: "uuid \<Rightarrow> redis_room \<Rightarrow> bool" where
  "room_looks_after c r \<longleftrightarrow> (\<exists>n \<in> set (rr_nodes r). looked_after c n)"

abbreviation listed_as :: "uuid \<Rightarrow> redis_room \<Rightarrow> client_info option" where
  "listed_as c r \<equiv> map_of (rs_members (rr_redis r)) c"

lemma room_looks_after_set:
  assumes "i < length (rr_nodes r)"
  shows "room_looks_after c (set_node i n r) \<Longrightarrow> (looked_after c n \<Longrightarrow> looked_after c (rr_nodes r ! i)) \<Longrightarrow>
      room_looks_after c r"
    and "room_looks_after c r \<Longrightarrow> (looked_after c (rr_nodes r ! i) \<Longrightarrow> looked_after c n) \<Longrightarrow>
      room_looks_after c (set_node i n r)"
proof -
  show "room_looks_after c (set_node i n r) \<Longrightarrow> (looked_after c n \<Longrightarrow> looked_after c (rr_nodes r ! i)) \<Longrightarrow>
      room_looks_after c r"
    using set_update_subset_insert [of "rr_nodes r" i n] nth_mem [OF assms]
    unfolding room_looks_after_def by auto
  assume "room_looks_after c r" and same: "looked_after c (rr_nodes r ! i) \<Longrightarrow> looked_after c n"
  then obtain k where "k < length (rr_nodes r)" "looked_after c (rr_nodes r ! k)"
    by (auto simp: room_looks_after_def in_set_conv_nth)
  then have "looked_after c ((rr_nodes r)[i := n] ! k)"
    using same by (cases "k = i") auto
  then show "room_looks_after c (set_node i n r)"
    using \<open>k < length (rr_nodes r)\<close> unfolding room_looks_after_def
    by (metis length_list_update nth_mem set_node_simps(2))
qed

lemma room_looks_after_nth:
  "i < length (rr_nodes r) \<Longrightarrow> looked_after c (rr_nodes r ! i) \<Longrightarrow> room_looks_after c r"
  unfolding room_looks_after_def using nth_mem by blast

text \<open>A client is looked after anew only by its joining.\<close>

lemma step_not_looked_after:
  assumes "redis_step r l r'" and ok: "redis_room_ok r" and gone: "\<not> room_looks_after c r"
    and none: "\<And>info. l = LJoin info \<Longrightarrow> ci_client_id info \<noteq> c"
  shows "\<not> room_looks_after c r'"
  using assms(1)
proof cases
  case init
  then show ?thesis using gone by (auto simp: room_looks_after_def)
next
  case (join i info n)
  have "looked_after c n \<Longrightarrow> looked_after c (rr_nodes r ! i)"
    using looked_after_join [OF join(5)] none [OF join(1)] by auto
  then show ?thesis
    using gone join(2) room_looks_after_set(1) [OF join(3)] by auto
next
  case (exec i k now redis n)
  have "looked_after c n \<Longrightarrow> looked_after c (rr_nodes r ! i)"
    by (rule exec_task_cases [OF exec(5) redis_room_ok_nth [OF ok exec(3)] exec(4)]) blast+
  moreover have "room_looks_after c (r\<lparr>rr_redis := redis\<rparr>) = room_looks_after c r"
    by (simp add: room_looks_after_def)
  ultimately show ?thesis
    using exec gone room_looks_after_set(1) [of i "r\<lparr>rr_redis := redis\<rparr>" c n] by auto
next
  case (fails i k)
  then show ?thesis
    using gone room_looks_after_set(1) [OF fails(3)]
      looked_after_fail(1) [OF redis_room_ok_nth [OF ok fails(3)] fails(4)] by blast
next
  case (refresh i j now)
  then show ?thesis using gone by (simp add: room_looks_after_def)
qed (use gone room_looks_after_set(1) looked_after_drop looked_after_leave looked_after_source
    not_looked_after_crashed in \<open>metis+\<close>)

text \<open>What is listed changes only by the tasks of the client.\<close>

lemma step_listed:
  assumes "redis_step r l r'" and ok: "redis_room_ok r" and differs: "listed_as c r' \<noteq> listed_as c r"
  shows "room_looks_after c r"
  using assms(1)
proof cases
  case (exec i k now redis n)
  have task: "looked_after (ci_client_id (tk_info (rn_tasks (rr_nodes r ! i) ! k))) (rr_nodes r ! i)"
    using exec(4) by (auto simp: looked_after_def)
  have "c = ci_client_id (tk_info (rn_tasks (rr_nodes r ! i) ! k))"
  proof (cases rule: exec_task_cases [OF exec(5) redis_room_ok_nth [OF ok exec(3)] exec(4),
        case_names Enter Publish Remove])
    case (Enter info j)
    then show ?thesis using exec(2) differs by (auto simp: run_cmd_def update_conv' split: if_splits)
  next
    case (Publish ev)
    then show ?thesis using exec(2) differs by (simp add: run_cmd_def)
  next
    case (Remove info)
    then show ?thesis using exec(2) differs by (auto simp: run_cmd_def delete_conv' split: if_splits)
  qed
  then show ?thesis using task room_looks_after_nth [OF exec(3)] by simp
qed (use differs in \<open>simp_all add: run_cmd_def\<close>)

text \<open>Without losses, a client that is listed stays looked after.\<close>

lemma step_looked_after:
  assumes "redis_step r l r'" and ok: "redis_room_ok r" and kept: "l \<noteq> LLost"
    and cared: "room_looks_after c r" and listed: "listed_as c r' \<noteq> None"
  shows "room_looks_after c r'"
  using assms(1)
proof cases
  case init
  then show ?thesis using cared by (auto simp: room_looks_after_def)
next
  case (join i info n)
  then show ?thesis
    using cared room_looks_after_set(2) [OF join(3)] looked_after_join [OF join(5)] by blast
next
  case (exec i k now redis n)
  have same: "looked_after c n" if "looked_after c (rr_nodes r ! i)"
  proof (cases rule: exec_task_cases [OF exec(5) redis_room_ok_nth [OF ok exec(3)] exec(4),
        case_names Enter Publish Remove])
    case (Remove info)
    then show ?thesis
      using that exec(2) listed by (auto simp: run_cmd_def delete_conv' split: if_splits)
  qed (use that in auto)
  moreover have "room_looks_after c (r\<lparr>rr_redis := redis\<rparr>)"
    using cared by (simp add: room_looks_after_def)
  ultimately show ?thesis
    using exec room_looks_after_set(2) [of i "r\<lparr>rr_redis := redis\<rparr>" c n] by auto
next
  case (fails i k)
  then have "tk_join (rn_tasks (rr_nodes r ! i) ! k) \<noteq> None"
    using kept by (metis (full_types))
  then show ?thesis
    using fails(2) room_looks_after_set(2) [OF fails(3) cared]
      looked_after_fail(2) [OF redis_room_ok_nth [OF ok fails(3)] fails(4)] by simp
next
  case (refresh i j now)
  then show ?thesis using cared by (simp add: room_looks_after_def)
next
  case (crash i)
  then show ?thesis using kept by simp
qed (use cared room_looks_after_set(2) looked_after_drop looked_after_leave looked_after_source
    in \<open>metis+\<close>)

lemma run_looked_after:
  assumes "redis_run r ls r'" and "redis_reach r" and "LLost \<notin> set ls"
    and "\<forall>c. listed_as c r \<noteq> None \<longrightarrow> room_looks_after c r"
  shows "\<forall>c. listed_as c r' \<noteq> None \<longrightarrow> room_looks_after c r'"
  using assms
proof induction
  case (step r ls r' l r'')
  have ok: "redis_room_ok r'"
    using redis_reach_ok [OF redis_run_reach [OF step.hyps(1) step.prems(1)]] .
  have before: "\<forall>c. listed_as c r' \<noteq> None \<longrightarrow> room_looks_after c r'" and kept: "l \<noteq> LLost"
    using step by auto
  show ?case
  proof (intro allI impI)
    fix c assume listed: "listed_as c r'' \<noteq> None"
    have "room_looks_after c r'"
      using before listed step_listed [OF step.hyps(2) ok, of c] by force
    then show "room_looks_after c r''"
      using step_looked_after [OF step.hyps(2) ok kept _ listed] by simp
  qed
qed simp

lemma run_ghost:
  assumes "redis_run r ls r'" and "redis_reach r" and "\<not> room_looks_after c r"
    and "\<forall>info. LJoin info \<in> set ls \<longrightarrow> ci_client_id info \<noteq> c"
  shows "\<not> room_looks_after c r' \<and> listed_as c r' = listed_as c r"
  using assms
proof induction
  case (step r ls r' l r'')
  have ok: "redis_room_ok r'"
    using redis_reach_ok [OF redis_run_reach [OF step.hyps(1) step.prems(1)]] .
  have before: "\<not> room_looks_after c r'" "listed_as c r' = listed_as c r"
    using step by auto
  then show ?case
    using step.prems(3) step_not_looked_after [OF step.hyps(2) ok before(1)]
      step_listed [OF step.hyps(2) ok, of c] by fastforce
qed simp

section \<open>Properties\<close>

text \<open>
  C37: All gateways see the events of a channel in the order of the one topic, without gaps: what a
  gateway has passed on to its clients is a contiguous part of what was published, and while its
  source reads, what it has passed on and what it has still to read together are the end of it.
\<close>

theorem gateways_share_one_event_log:
  assumes "redis_reach r" and "n \<in> set (rr_nodes r)"
  shows "sublist (rn_bus n) (rs_published (rr_redis r)) \<and>
    (case rn_source n of
       Reading pos t \<Rightarrow> suffix (rn_bus n @ drop pos (rs_published (rr_redis r))) (rs_published (rr_redis r))
     | _ \<Rightarrow> True)"
proof -
  obtain i where i: "i < length (rr_nodes r)" "n = rr_nodes r ! i"
    using assms(2) by (metis in_set_conv_nth)
  have from_start: "node_from 0 (rs_published (rr_redis r)) n"
    using reach_node_from [OF assms(1) i(1)] i(2) by simp
  have joined: "suffix (xs @ drop pos ys) ys" if "suffix xs (take pos ys)"
    for xs ys :: "channel_event list" and pos
    using that unfolding suffix_def by (metis append.assoc append_take_drop_id)
  show ?thesis
    using from_start joined sublist_drop_take [where b = 0]
    by (auto simp: node_from_def split: source_status.splits)
qed

text \<open>
  The source of a gateway subscribes in the background. What is published before that, which can
  be the join of the gateway's own first client, is never passed on to its clients.
\<close>

theorem nothing_from_before_subscribing:
  assumes "redis_reach r" and "i < length (rr_nodes r)" and "rn_source (rr_nodes r ! i) = NotSubscribed"
    and "redis_run r ls r'"
  shows "sublist (rn_bus (rr_nodes r' ! i))
    (drop (length (rs_published (rr_redis r))) (rs_published (rr_redis r')))"
proof -
  have "node_from (length (rs_published (rr_redis r))) (rs_published (rr_redis r)) (rr_nodes r ! i)"
    using reach_node_from [OF assms(1,2)] assms(3) by (simp add: node_from_def)
  from run_node_from [OF assms(4,2) this]
  have "node_from (length (rs_published (rr_redis r))) (rs_published (rr_redis r')) (rr_nodes r' ! i)"
    by simp
  then show ?thesis
    by (auto simp: node_from_def split: source_status.splits dest: sublist_drop_take)
qed

text \<open>
  As long as no gateway dies and the commands of no leave fail, every member that Redis lists is
  a client some gateway still holds a handle of, or is about to let in or out. A join whose commands
  fail is cleaned up.
\<close>

theorem listed_members_are_looked_after:
  assumes "redis_run room_new ls r" and "LLost \<notin> set ls"
    and "info \<in> set (list_members (rr_redis r))"
  shows "\<exists>n \<in> set (rr_nodes r). looked_after (ci_client_id info) n"
proof -
  have "redis_room_ok r"
    using redis_reach_ok redis_run_reach [OF assms(1) redis_reach.fresh] by blast
  then have "listed_as (ci_client_id info) r \<noteq> None"
    using assms(3) listed_iff by (simp add: redis_room_ok_def)
  then show ?thesis
    using run_looked_after [OF assms(1) redis_reach.fresh assms(2)]
    by (simp add: room_new_def room_looks_after_def)
qed

text \<open>
  A member that Redis lists and no gateway looks after, because its gateway died or a leave
  failed, stays listed for ever unless the client joins again: nothing else removes it, and no one
  reads when it was last seen.
\<close>

theorem lost_members_stay_listed:
  assumes "redis_reach r" and "info \<in> set (list_members (rr_redis r))"
    and "\<not> (\<exists>n \<in> set (rr_nodes r). looked_after (ci_client_id info) n)"
    and "redis_run r ls r'"
    and "\<forall>other. LJoin other \<in> set ls \<longrightarrow> ci_client_id other \<noteq> ci_client_id info"
  shows "info \<in> set (list_members (rr_redis r'))"
proof -
  have "members_ok (rr_redis r)" "members_ok (rr_redis r')"
    using redis_reach_ok redis_run_reach [OF assms(4,1)] assms(1) by (auto simp: redis_room_ok_def)
  then show ?thesis
    using run_ghost [OF assms(4,1) _ assms(5)] assms(2,3) listed_iff
    by (simp add: room_looks_after_def)
qed

section \<open>One channel at work\<close>

text \<open>
  A gateway opens the channel and \<open>alice\<close> joins; her entry is stored, her join is published, and
  then the source subscribes. In the other history the gateway dies after her join.
\<close>

definition alice_info :: client_info where
  "alice_info = \<lparr>ci_client_id = 1, ci_source_id = 2, ci_name = ''alice''\<rparr>"

definition exec_first :: "redis_room \<Rightarrow> redis_room" where
  "exec_first r = (let (redis, n) = exec_task 5 0 (rr_redis r) (rr_nodes r ! 0)
     in set_node 0 n (r\<lparr>rr_redis := redis\<rparr>))"

definition room_opened :: redis_room where
  "room_opened = room_new\<lparr>rr_nodes := [redis_node_new]\<rparr>"

definition room_joined :: redis_room where
  "room_joined = set_node 0 (the (redis_join alice_info redis_node_new)) room_opened"

definition room_published :: redis_room where
  "room_published = exec_first (exec_first room_joined)"

lemmas demo_defs = room_published_def room_joined_def room_opened_def exec_first_def alice_info_def
  room_new_def redis_node_new_def redis_join_def present_join_def locally_present_new_def
  exec_task_def run_cmd_def set_node_def remove_nth_def Let_def

lemma run_opened: "redis_run room_new [LPlain] room_opened"
  using redis_run.step [OF redis_run.stay redis_step.init, of room_new]
  by (simp add: room_opened_def room_new_def)

lemma run_joined: "redis_run room_new [LPlain, LJoin alice_info] room_joined"
proof -
  have "redis_step room_opened (LJoin alice_info) room_joined"
    unfolding room_joined_def
    by (rule redis_step.join)
      (simp_all add: room_opened_def redis_node_new_def redis_join_def present_join_def
        locally_present_new_def Let_def)
  then show ?thesis using redis_run.step [OF run_opened] by simp
qed

lemma exec_first_step:
  assumes "rr_nodes r \<noteq> []" and "rn_tasks (rr_nodes r ! 0) \<noteq> []"
  shows "redis_step r LPlain (exec_first r)"
  using assms redis_step.exec [of 0 r 0 5 "fst (exec_task 5 0 (rr_redis r) (rr_nodes r ! 0))"
      "snd (exec_task 5 0 (rr_redis r) (rr_nodes r ! 0))"]
  by (simp add: exec_first_def split_beta Let_def)

lemma run_published: "redis_run room_new [LPlain, LJoin alice_info, LPlain, LPlain] room_published"
proof -
  have "redis_step room_joined LPlain (exec_first room_joined)"
    by (rule exec_first_step) (simp_all add: demo_defs)
  from redis_run.step [OF run_joined this]
  have "redis_run room_new [LPlain, LJoin alice_info, LPlain] (exec_first room_joined)" by simp
  moreover have "redis_step (exec_first room_joined) LPlain room_published"
    unfolding room_published_def by (rule exec_first_step) (simp_all add: demo_defs)
  ultimately show ?thesis using redis_run.step by fastforce
qed

lemma reach_opened: "redis_reach room_opened"
  using redis_run_reach [OF run_opened redis_reach.fresh] .

lemma reach_published: "redis_reach room_published"
  using redis_run_reach [OF run_published redis_reach.fresh] .

theorem gateways_share_one_event_log_witness:
  "sublist (rn_bus (rr_nodes room_published ! 0)) (rs_published (rr_redis room_published)) \<and>
    rs_published (rr_redis room_published) = [event_joined 1 ''alice'' 2]"
proof -
  have "rr_nodes room_published ! 0 \<in> set (rr_nodes room_published)"
    by (simp add: demo_defs)
  from gateways_share_one_event_log [OF reach_published this]
  have "sublist (rn_bus (rr_nodes room_published ! 0)) (rs_published (rr_redis room_published))" by simp
  moreover have "rs_published (rr_redis room_published) = [event_joined 1 ''alice'' 2]"
    by (simp add: demo_defs)
  ultimately show ?thesis by simp
qed

theorem listed_members_are_looked_after_witness:
  "\<exists>n \<in> set (rr_nodes room_published). looked_after 1 n"
proof -
  have "alice_info \<in> set (list_members (rr_redis room_published))"
    by (simp add: demo_defs list_members_def)
  from listed_members_are_looked_after [OF run_published _ this]
  show ?thesis by (simp add: alice_info_def)
qed

theorem nothing_from_before_subscribing_witness:
  "\<exists>r. redis_run room_published [LPlain] r \<and> node_joins (rr_nodes r ! 0) \<noteq> [] \<and>
     rs_published (rr_redis r) = [event_joined 1 ''alice'' 2] \<and> sublist (rn_bus (rr_nodes r ! 0)) []"
proof -
  let ?r = "set_node 0 (source_subscribe 6 (rr_redis room_published) (rr_nodes room_published ! 0))
    room_published"
  have unsubscribed: "0 < length (rr_nodes room_published)"
      "rn_source (rr_nodes room_published ! 0) = NotSubscribed"
    by (simp_all add: demo_defs)
  have "redis_step room_published LPlain ?r"
    using redis_step.subscribe unsubscribed by blast
  from redis_run.step [OF redis_run.stay this]
  have run: "redis_run room_published [LPlain] ?r" by simp
  have "sublist (rn_bus (rr_nodes ?r ! 0)) []"
    using nothing_from_before_subscribing [OF reach_published unsubscribed run] by simp
  moreover have "node_joins (rr_nodes ?r ! 0) \<noteq> []"
      "rs_published (rr_redis ?r) = [event_joined 1 ''alice'' 2]"
    by (simp_all add: demo_defs source_subscribe_def node_joins_def)
  ultimately show ?thesis using run by blast
qed

theorem lost_members_stay_listed_witness:
  "\<exists>r r'. redis_step room_published LLost r \<and> redis_run r [LPlain] r' \<and>
     alice_info \<in> set (list_members (rr_redis r'))"
proof -
  let ?r = "set_node 0 (crashed (rr_nodes room_published ! 0)) room_published"
  let ?r' = "?r\<lparr>rr_nodes := rr_nodes ?r @ [redis_node_new]\<rparr>"
  have crash: "redis_step room_published LLost ?r"
    by (rule redis_step.crash) (simp add: demo_defs)
  have run: "redis_run ?r [LPlain] ?r'"
    using redis_run.step [OF redis_run.stay redis_step.init, of ?r] by (simp only: append_Nil)
  have listed: "alice_info \<in> set (list_members (rr_redis ?r))"
    by (simp add: demo_defs list_members_def)
  have "length (rr_nodes room_published) = 1"
    by (simp add: demo_defs)
  then have "rr_nodes ?r = [crashed (rr_nodes room_published ! 0)]"
    by (auto simp: length_Suc_conv)
  then have gone: "\<not> (\<exists>n \<in> set (rr_nodes ?r). looked_after (ci_client_id alice_info) n)"
    by (simp add: not_looked_after_crashed)
  have "alice_info \<in> set (list_members (rr_redis ?r'))"
    using lost_members_stay_listed [OF redis_reach.step [OF reach_published crash] listed gone run] by simp
  then show ?thesis using crash run by blast
qed

end
