(* ===== verification/Distributed_Gateway.thy ===== *)
theory Distributed_Gateway
  imports Session_World Distributed Redis_Channel
begin

text \<open>
  The distributed set-up as one system: gateways with a channel map each
  (\<open>server/gateway/src/server/channels/mod.rs\<close>), all their sessions, the channel states that share
  members and events through Redis (\<open>Redis_Channel\<close>), and the voice servers found through the registry
  (\<open>Distributed\<close>, \<open>Voice_Grpc\<close>). The sessions are those of \<open>Session\<close>; the world answers their calls
  one at a time, in any order. A join is the exception: it begins, runs its Redis commands between
  which anything may happen, and ends.
\<close>

section \<open>The world\<close>

text \<open>A voice host is the URL of its server.\<close>

record dist_gateway =
  dy_map :: "(uuid, string gateway_channel) hash_map"
  dy_leaves :: "(string \<times> uuid \<times> uuid) list"

text \<open>A channel state: the gateway that made it, its room, and which of the states of the room it is.\<close>

record state_ref =
  sf_gateway :: nat
  sf_room :: uuid
  sf_node :: nat

record dist_world =
  dw_gateways :: "dist_gateway list"
  dw_states :: "state_ref list"
  dw_rooms :: "uuid \<Rightarrow> redis_room"
  dw_db :: db
  dw_fleet :: fleet

definition world_new :: "db \<Rightarrow> fleet \<Rightarrow> dist_world" where
  "world_new d fl = \<lparr>dw_gateways = [], dw_states = [], dw_rooms = (\<lambda>room. room_new), dw_db = d, dw_fleet = fl\<rparr>"

definition room_of :: "nat \<Rightarrow> dist_world \<Rightarrow> redis_room" where
  "room_of st w = dw_rooms w (sf_room (dw_states w ! st))"

definition node_of :: "nat \<Rightarrow> dist_world \<Rightarrow> redis_node" where
  "node_of st w = rr_nodes (room_of st w) ! sf_node (dw_states w ! st)"

definition set_room :: "nat \<Rightarrow> redis_room \<Rightarrow> dist_world \<Rightarrow> dist_world" where
  "set_room st r w = w\<lparr>dw_rooms := (dw_rooms w)(sf_room (dw_states w ! st) := r)\<rparr>"

definition put_state :: "nat \<Rightarrow> redis_node \<Rightarrow> redis_state \<Rightarrow> dist_world \<Rightarrow> dist_world" where
  "put_state st n redis w =
     set_room st (set_node (sf_node (dw_states w ! st)) n ((room_of st w)\<lparr>rr_redis := redis\<rparr>)) w"

definition set_state :: "nat \<Rightarrow> redis_node \<Rightarrow> dist_world \<Rightarrow> dist_world" where
  "set_state st n w = put_state st n (rr_redis (room_of st w)) w"

definition at_gateway :: "nat \<Rightarrow> (dist_gateway \<Rightarrow> dist_gateway) \<Rightarrow> dist_world \<Rightarrow> dist_world" where
  "at_gateway i f w = w\<lparr>dw_gateways := (dw_gateways w)[i := f (dw_gateways w ! i)]\<rparr>"

section \<open>The channel map of a gateway\<close>

definition dist_get :: "nat \<Rightarrow> uuid \<Rightarrow> dist_world \<Rightarrow> string gateway_channel option" where
  "dist_get i room w = map_of (dy_map (dw_gateways w ! i)) room"

definition dist_put :: "nat \<Rightarrow> uuid \<Rightarrow> string gateway_channel \<Rightarrow> dist_world \<Rightarrow> dist_world" where
  "dist_put i room c = at_gateway i (\<lambda>g. g\<lparr>dy_map := hm_insert room c (dy_map g)\<rparr>)"

definition dist_close :: "nat \<Rightarrow> uuid \<Rightarrow> dist_world \<Rightarrow> dist_world" where
  "dist_close i room = at_gateway i (\<lambda>g. g\<lparr>dy_map := hm_remove room (dy_map g)\<rparr>)"

text \<open>\<open>RedisChannelInitializer::init\<close>: a state of its own for the room; its source subscribes later.\<close>

definition dist_init_state :: "nat \<Rightarrow> uuid \<Rightarrow> dist_world \<Rightarrow> dist_world \<times> nat" where
  "dist_init_state i room w =
     (let r = dw_rooms w room
      in (w\<lparr>dw_states := dw_states w @ [\<lparr>sf_gateway = i, sf_room = room, sf_node = length (rr_nodes r)\<rparr>],
            dw_rooms := (dw_rooms w)(room := r\<lparr>rr_nodes := rr_nodes r @ [redis_node_new]\<rparr>)\<rparr>,
          length (dw_states w)))"

definition dist_or_insert ::
  "nat \<Rightarrow> string gateway_channel \<Rightarrow> dist_world \<Rightarrow> dist_world \<times> string gateway_channel" where
  "dist_or_insert i c w = (case dist_get i (gc_room_id c) w of
      Some c' \<Rightarrow> (w, c') | None \<Rightarrow> (dist_put i (gc_room_id c) c w, c))"

definition dist_replace_voice ::
  "nat \<Rightarrow> uuid \<Rightarrow> string \<Rightarrow> dist_world \<Rightarrow> dist_world \<times> string gateway_channel" where
  "dist_replace_voice i room v w = (case dist_get i room w of
      Some c \<Rightarrow> (dist_put i room (c\<lparr>gc_voice := v\<rparr>) w, c\<lparr>gc_voice := v\<rparr>)
    | None \<Rightarrow>
        (let (w', st) = dist_init_state i room w;
             c = \<lparr>gc_room_id = room, gc_state = st, gc_voice = v\<rparr>
         in (dist_put i room c w', c)))"

section \<open>Answering the sessions\<close>

text \<open>\<open>de_task\<close> is the task of the state that a join ends with.\<close>

record dist_env =
  de_lookup :: lookup_env
  de_net :: net
  de_task :: nat

text \<open>
  A join that has not begun fails when the state is closed. Otherwise it ends with its task: with the
  handle after the last command, or with an error.
\<close>

definition dist_join_ends ::
  "nat \<Rightarrow> instant \<Rightarrow> bool \<Rightarrow> nat \<Rightarrow> client_info \<Rightarrow> room_handle option \<Rightarrow> dist_world \<Rightarrow> dist_world option" where
  "dist_join_ends k now joining st info r w =
     (let n = node_of st w; t = rn_tasks n ! k
      in if \<not> joining then answered (redis_join info n = None \<and> r = None) w
         else if k < length (rn_tasks n) \<and> tk_info t = info
         then (case tk_join t of
             None \<Rightarrow> None
           | Some j \<Rightarrow> (case r of
               None \<Rightarrow> Some (set_state st (fail_task k n) w)
             | Some rh \<Rightarrow> (case exec_task now k (rr_redis (room_of st w)) n of (redis, n') \<Rightarrow>
                 answered (length (tk_cmds t) = 1 \<and> rh = \<lparr>rh_state = st, rh_joined = j\<rparr>)
                   (put_state st n' redis w))))
         else None)"

definition dist_perform ::
  "url_texts \<Rightarrow> dist_env \<Rightarrow> nat \<Rightarrow> bool \<Rightarrow> string action \<Rightarrow> dist_world \<Rightarrow> dist_world option" where
  "dist_perform tx e i joining a w = (case a of
      ASelect b (ChanEvt ev) \<Rightarrow>
        answered (\<exists>st < length (dw_states w). ev \<in> set (rn_bus (node_of st w))) w
    | ASelect b _ \<Rightarrow> Some w
    | ANext r \<Rightarrow> Some w
    | ASend m ok \<Rightarrow> Some w
    | AMapGet room r \<Rightarrow> answered (r = dist_get i room w) w
    | AMapOrInsert c r \<Rightarrow> (case dist_or_insert i c w of (w', c') \<Rightarrow> answered (r = c') w')
    | AMapReassign room v r \<Rightarrow>
        (case dist_replace_voice i room v w of (w', c) \<Rightarrow> answered (r = Some c) w')
    | AInitState room r \<Rightarrow> (case dist_init_state i room w of (w', st) \<Rightarrow> answered (r = Some st) w')
    | AVoiceFor room reassign r \<Rightarrow>
        (case dist_get_voice_host_for tx (de_lookup e) room reassign (dw_db w) (dw_fleet w) of
           ((d, fl), res) \<Rightarrow> answered (r = res) (w\<lparr>dw_db := d, dw_fleet := fl\<rparr>))
    | AOpen v q r \<Rightarrow>
        (case at_host v HostOther
            (remote_open_connection (base_texts tx) (de_net e) (le_request (de_lookup e)) q) (dw_fleet w) of
           (fl, res) \<Rightarrow> answered (r = res) (w\<lparr>dw_fleet := fl\<rparr>))
    | AEstablish v q r \<Rightarrow>
        (case at_host v HostOther
            (remote_establish_session (base_texts tx) (de_net e) (le_request (de_lookup e)) q) (dw_fleet w) of
           (fl, res) \<Rightarrow> answered (r = res) (w\<lparr>dw_fleet := fl\<rparr>))
    | AJoin st info r \<Rightarrow> dist_join_ends (de_task e) (le_now (de_lookup e)) joining st info r w
    | AMembers st r \<Rightarrow> answered (r = None \<or> r = Some (list_members (rr_redis (room_of st w)))) w
    | ADropRoom rh \<Rightarrow> Some (set_state (rh_state rh) (redis_drop (rh_joined rh) (node_of (rh_state rh) w)) w)
    | ASpawnLeave v room client \<Rightarrow>
        Some (at_gateway i (\<lambda>g. g\<lparr>dy_leaves := (v, room, client) # dy_leaves g\<rparr>) w))"

section \<open>The running system\<close>

record dist_session =
  ds_gateway :: nat
  ds_joining :: bool
  ds_trace :: "string action list"
  ds_prog :: "(string, string session option) prog"

record dist_system =
  dt_world :: dist_world
  dt_sessions :: "dist_session list"

definition dist_start :: "db \<Rightarrow> fleet \<Rightarrow> dist_system" where
  "dist_start d fl = \<lparr>dt_world = world_new d fl, dt_sessions = []\<rparr>"

text \<open>
  The task of a dropped handle: when it was the last one the gateway closes the room, and the rest of
  leaving follows.
\<close>

definition dist_leave :: "nat \<Rightarrow> client_info \<Rightarrow> dist_world \<Rightarrow> dist_world" where
  "dist_leave st info w =
     (let n = node_of st w; f = dw_states w ! st; w' = set_state st (redis_leave info n) w
      in if snd (present_leave (ci_client_id info) (rn_present n))
         then dist_close (sf_gateway f) (sf_room f) w' else w')"

definition dist_voice_leave ::
  "url_texts \<Rightarrow> dist_env \<Rightarrow> nat \<Rightarrow> string \<times> uuid \<times> uuid \<Rightarrow> dist_world \<Rightarrow> dist_world" where
  "dist_voice_leave tx e i task w = (case task of (v, room, client) \<Rightarrow>
     at_gateway i (\<lambda>g. g\<lparr>dy_leaves := remove1 task (dy_leaves g)\<rparr>)
       (w\<lparr>dw_fleet := fst (at_host v HostOther
          (remote_leave (base_texts tx) (de_net e) (le_request (de_lookup e)) room client) (dw_fleet w))\<rparr>))"

text \<open>
  The first argument of a step says whether the Redis commands of a leave failed. Voice servers and
  everyone else who uses the registry may do anything meanwhile.
\<close>

inductive dist_step ::
  "(u8 list \<Rightarrow> string) \<Rightarrow> url_texts \<Rightarrow> bool \<Rightarrow> dist_system \<Rightarrow> dist_system \<Rightarrow> bool"
  for b64 :: "u8 list \<Rightarrow> string" and tx :: url_texts where
  gateway: "dist_step b64 tx False s (s\<lparr>dt_world := (dt_world s)
     \<lparr>dw_gateways := dw_gateways (dt_world s) @ [\<lparr>dy_map = [], dy_leaves = []\<rparr>]\<rparr>\<rparr>)"
| connect: "i < length (dw_gateways (dt_world s)) \<Longrightarrow>
     dist_step b64 tx False s (s\<lparr>dt_sessions := dt_sessions s @
       [\<lparr>ds_gateway = i, ds_joining = False, ds_trace = [], ds_prog = session_start b64 sid\<rparr>]\<rparr>)"
| join: "i < length (dt_sessions s) \<Longrightarrow> dt_sessions s ! i = d \<Longrightarrow> ds_prog d = JoinRoom st info k \<Longrightarrow>
     \<not> ds_joining d \<Longrightarrow> st < length (dw_states (dt_world s)) \<Longrightarrow>
     redis_join info (node_of st (dt_world s)) = Some n \<Longrightarrow>
     dist_step b64 tx False s (s\<lparr>dt_world := set_state st n (dt_world s),
       dt_sessions := (dt_sessions s)[i := d\<lparr>ds_joining := True\<rparr>]\<rparr>)"
| act: "i < length (dt_sessions s) \<Longrightarrow> dt_sessions s ! i = d \<Longrightarrow> advance a (ds_prog d) = Some p \<Longrightarrow>
     dist_perform tx e (ds_gateway d) (ds_joining d) a (dt_world s) = Some w \<Longrightarrow>
     dist_step b64 tx False s (s\<lparr>dt_world := w, dt_sessions := (dt_sessions s)[i := d\<lparr>ds_joining := False,
       ds_trace := ds_trace d @ [a], ds_prog := resume b64 p\<rparr>]\<rparr>)"
| command: "st < length (dw_states (dt_world s)) \<Longrightarrow> n = node_of st (dt_world s) \<Longrightarrow>
     k < length (rn_tasks n) \<Longrightarrow> tk_join (rn_tasks n ! k) = None \<or> 1 < length (tk_cmds (rn_tasks n ! k)) \<Longrightarrow>
     exec_task now k (rr_redis (room_of st (dt_world s))) n = (redis, n') \<Longrightarrow>
     dist_step b64 tx False s (s\<lparr>dt_world := put_state st n' redis (dt_world s)\<rparr>)"
| leave_fails: "st < length (dw_states (dt_world s)) \<Longrightarrow> n = node_of st (dt_world s) \<Longrightarrow>
     k < length (rn_tasks n) \<Longrightarrow> tk_join (rn_tasks n ! k) = None \<Longrightarrow>
     dist_step b64 tx True s (s\<lparr>dt_world := set_state st (fail_task k n) (dt_world s)\<rparr>)"
| leave: "st < length (dw_states (dt_world s)) \<Longrightarrow> info \<in> set (rn_leaving (node_of st (dt_world s))) \<Longrightarrow>
     dist_step b64 tx False s (s\<lparr>dt_world := dist_leave st info (dt_world s)\<rparr>)"
| refresh: "st < length (dw_states (dt_world s)) \<Longrightarrow> j \<in> set (node_joins (node_of st (dt_world s))) \<Longrightarrow>
     dist_step b64 tx False s (s\<lparr>dt_world := put_state st (node_of st (dt_world s))
       (run_cmd now (HSetSeen (ci_client_id (jr_info j))) (rr_redis (room_of st (dt_world s)))) (dt_world s)\<rparr>)"
| subscribe: "st < length (dw_states (dt_world s)) \<Longrightarrow> n = node_of st (dt_world s) \<Longrightarrow>
     rn_source n = NotSubscribed \<Longrightarrow>
     dist_step b64 tx False s (s\<lparr>dt_world :=
       set_state st (source_subscribe now (rr_redis (room_of st (dt_world s))) n) (dt_world s)\<rparr>)"
| deliver: "st < length (dw_states (dt_world s)) \<Longrightarrow> n = node_of st (dt_world s) \<Longrightarrow>
     dist_step b64 tx False s (s\<lparr>dt_world :=
       set_state st (source_deliver now (rr_redis (room_of st (dt_world s))) n) (dt_world s)\<rparr>)"
| source_lost: "st < length (dw_states (dt_world s)) \<Longrightarrow> n = node_of st (dt_world s) \<Longrightarrow>
     dist_step b64 tx False s (s\<lparr>dt_world := set_state st (n\<lparr>rn_source := SourceEnded\<rparr>) (dt_world s)\<rparr>)"
| voice_left: "i < length (dw_gateways (dt_world s)) \<Longrightarrow> task \<in> set (dy_leaves (dw_gateways (dt_world s) ! i)) \<Longrightarrow>
     dist_step b64 tx False s (s\<lparr>dt_world := dist_voice_leave tx e i task (dt_world s)\<rparr>)"
| others: "dist_step b64 tx False s (s\<lparr>dt_world := (dt_world s)\<lparr>dw_db := d, dw_fleet := fl\<rparr>\<rparr>)"

inductive_cases dist_stepE: "dist_step b64 tx l s s'"

section \<open>Channel states and rooms\<close>

text \<open>
  Each channel state is one of its room's and each of a room's is listed once; no gateway has died;
  the maps name states there are.
\<close>

definition world_ok :: "dist_world \<Rightarrow> bool" where
  "world_ok w \<longleftrightarrow>
     (\<forall>st < length (dw_states w). sf_node (dw_states w ! st) < length (rr_nodes (room_of st w)) \<and>
        rn_up (node_of st w)) \<and>
     distinct (map (\<lambda>f. (sf_room f, sf_node f)) (dw_states w)) \<and>
     (\<forall>room k. k < length (rr_nodes (dw_rooms w room)) \<longrightarrow>
        (\<exists>st < length (dw_states w). sf_room (dw_states w ! st) = room \<and> sf_node (dw_states w ! st) = k)) \<and>
     (\<forall>i < length (dw_gateways w). \<forall>room c. dist_get i room w = Some c \<longrightarrow> gc_state c < length (dw_states w))"

lemma world_okD:
  assumes "world_ok w"
  shows "st < length (dw_states w) \<Longrightarrow> sf_node (dw_states w ! st) < length (rr_nodes (room_of st w))"
    and "st < length (dw_states w) \<Longrightarrow> rn_up (node_of st w)"
    and "st < length (dw_states w) \<Longrightarrow> st' < length (dw_states w) \<Longrightarrow>
      sf_room (dw_states w ! st) = sf_room (dw_states w ! st') \<Longrightarrow>
      sf_node (dw_states w ! st) = sf_node (dw_states w ! st') \<Longrightarrow> st = st'"
    and "k < length (rr_nodes (dw_rooms w room)) \<Longrightarrow>
      \<exists>st < length (dw_states w). sf_room (dw_states w ! st) = room \<and> sf_node (dw_states w ! st) = k"
    and "i < length (dw_gateways w) \<Longrightarrow> dist_get i room w = Some c \<Longrightarrow> gc_state c < length (dw_states w)"
  using assms unfolding world_ok_def by (auto simp: distinct_conv_nth)

lemma put_state_simps [simp]:
  "dw_states (put_state st n redis w) = dw_states w" "dw_gateways (put_state st n redis w) = dw_gateways w"
  "dw_db (put_state st n redis w) = dw_db w" "dw_fleet (put_state st n redis w) = dw_fleet w"
  "dist_get i room (put_state st n redis w) = dist_get i room w"
  "dw_rooms (put_state st n redis w) room = (if room = sf_room (dw_states w ! st)
     then set_node (sf_node (dw_states w ! st)) n ((room_of st w)\<lparr>rr_redis := redis\<rparr>) else dw_rooms w room)"
  by (simp_all add: put_state_def set_room_def dist_get_def)

lemma node_of_put:
  assumes "world_ok w" and "st < length (dw_states w)" and "st' < length (dw_states w)"
  shows "node_of st' (put_state st n redis w) = (if st' = st then n else node_of st' w)"
  using world_okD(1) [OF assms(1,2)] world_okD(3) [OF assms(1,2,3)]
  by (auto simp: node_of_def room_of_def nth_list_update)

lemma world_ok_put:
  assumes "world_ok w" and "st < length (dw_states w)" and "rn_up n"
  shows "world_ok (put_state st n redis w)"
proof -
  have nodes: "length (rr_nodes (dw_rooms (put_state st n redis w) room)) = length (rr_nodes (dw_rooms w room))"
    for room by (simp add: room_of_def)
  have "rn_up (node_of st' (put_state st n redis w))" if "st' < length (dw_states w)" for st'
    using node_of_put [OF assms(1,2) that] world_okD(2) [OF assms(1) that] assms(3) by simp
  then show ?thesis
    using assms(1) nodes unfolding world_ok_def by (simp add: room_of_def)
qed

lemma at_gateway_simps [simp]:
  "dw_states (at_gateway i f w) = dw_states w" "dw_rooms (at_gateway i f w) = dw_rooms w"
  "length (dw_gateways (at_gateway i f w)) = length (dw_gateways w)"
  "room_of st (at_gateway i f w) = room_of st w" "node_of st (at_gateway i f w) = node_of st w"
  by (simp_all add: at_gateway_def room_of_def node_of_def)

lemma others_simps [simp]:
  "room_of st (w\<lparr>dw_db := d, dw_fleet := fl\<rparr>) = room_of st w"
  "node_of st (w\<lparr>dw_db := d, dw_fleet := fl\<rparr>) = node_of st w"
  "dist_get i room (w\<lparr>dw_db := d, dw_fleet := fl\<rparr>) = dist_get i room w"
  "world_ok (w\<lparr>dw_db := d, dw_fleet := fl\<rparr>) = world_ok w"
  "world_ok (w\<lparr>dw_fleet := fl\<rparr>) = world_ok w" "world_ok (w\<lparr>dw_db := d\<rparr>) = world_ok w"
  by (simp_all add: room_of_def node_of_def dist_get_def world_ok_def)

lemma dist_get_at_gateway:
  "dist_get j room (at_gateway i f w) =
     (if j = i \<and> i < length (dw_gateways w) then map_of (dy_map (f (dw_gateways w ! i))) room
      else dist_get j room w)"
  by (auto simp: dist_get_def at_gateway_def list_update_beyond)

lemma world_ok_gateway:
  assumes "world_ok w" and "\<And>room c. i < length (dw_gateways w) \<Longrightarrow>
    map_of (dy_map (f (dw_gateways w ! i))) room = Some c \<Longrightarrow> gc_state c < length (dw_states w)"
  shows "world_ok (at_gateway i f w)"
  using assms unfolding world_ok_def by (simp add: dist_get_at_gateway)

lemma world_ok_leaves:
  assumes "world_ok w"
  shows "world_ok (at_gateway i (\<lambda>g. g\<lparr>dy_leaves := ls g\<rparr>) w)"
  using world_okD(5) [OF assms] by (intro world_ok_gateway [OF assms]) (simp add: dist_get_def)

lemma world_ok_dist_put:
  assumes "world_ok w" and "gc_state c < length (dw_states w)"
  shows "world_ok (dist_put i room c w)"
  using world_okD(5) [OF assms(1)] assms(2) unfolding dist_put_def
  by (intro world_ok_gateway [OF assms(1)]) (auto simp: dist_get_def update_conv' split: if_splits)

lemma world_ok_close:
  assumes "world_ok w"
  shows "world_ok (dist_close i room w)"
  using world_okD(5) [OF assms] unfolding dist_close_def
  by (intro world_ok_gateway [OF assms]) (auto simp: dist_get_def delete_conv' split: if_splits)

lemma init_state_simps:
  assumes "dist_init_state i room w = (w', st)"
  shows "st = length (dw_states w)" and "length (dw_states w') = Suc (length (dw_states w))"
    and "dw_gateways w' = dw_gateways w" and "dist_get j q w' = dist_get j q w"
    and "world_ok w \<Longrightarrow> k < length (dw_states w) \<Longrightarrow> node_of k w' = node_of k w"
    and "node_of st w' = redis_node_new"
  using assms world_okD(1) [of w k]
  by (auto simp: dist_init_state_def Let_def dist_get_def node_of_def room_of_def nth_append)

lemma world_ok_init:
  assumes init: "dist_init_state i room w = (w', st)" and ok: "world_ok w"
  shows "world_ok w'"
proof -
  note facts = init_state_simps [OF init]
  have w': "w' = w\<lparr>dw_states := dw_states w @ [\<lparr>sf_gateway = i, sf_room = room,
        sf_node = length (rr_nodes (dw_rooms w room))\<rparr>],
      dw_rooms := (dw_rooms w)(room := (dw_rooms w room)
        \<lparr>rr_nodes := rr_nodes (dw_rooms w room) @ [redis_node_new]\<rparr>)\<rparr>"
    using init by (simp add: dist_init_state_def Let_def)
  have "sf_node (dw_states w' ! k) < length (rr_nodes (room_of k w')) \<and> rn_up (node_of k w')"
    if "k < length (dw_states w')" for k
  proof (cases "k < length (dw_states w)")
    case True
    then show ?thesis
      using world_okD(1,2) [OF ok True] facts(5) [OF ok True]
      by (auto simp: w' nth_append room_of_def)
  next
    case False
    then have "k = st" using that facts(1,2) by simp
    then show ?thesis using facts(1,6) by (simp add: w' room_of_def redis_node_new_def)
  qed
  moreover have "distinct (map (\<lambda>f. (sf_room f, sf_node f)) (dw_states w'))"
    using ok world_okD(1) [OF ok]
    by (auto simp: w' world_ok_def room_of_def in_set_conv_nth) fastforce
  moreover have "\<exists>k < length (dw_states w'). sf_room (dw_states w' ! k) = q \<and> sf_node (dw_states w' ! k) = j"
    if j: "j < length (rr_nodes (dw_rooms w' q))" for q j
  proof (cases "j < length (rr_nodes (dw_rooms w q))")
    case True
    then obtain k where "k < length (dw_states w)" "sf_room (dw_states w ! k) = q" "sf_node (dw_states w ! k) = j"
      using world_okD(4) [OF ok] by blast
    then show ?thesis by (intro exI [of _ k]) (simp add: w' nth_append)
  next
    case False
    then have "q = room" "j = length (rr_nodes (dw_rooms w room))"
      using j by (auto simp: w' split: if_splits)
    then show ?thesis by (intro exI [of _ "length (dw_states w)"]) (simp add: w')
  qed
  moreover have "gc_state c < length (dw_states w')"
    if "k < length (dw_gateways w')" "dist_get k q w' = Some c" for k q c
    using world_okD(5) [OF ok] that facts(2-4) by (metis less_SucI)
  ultimately show ?thesis unfolding world_ok_def by blast
qed

section \<open>Handles\<close>

definition dist_handles :: "dist_world \<Rightarrow> nat \<Rightarrow> chat_room_joined list" where
  "dist_handles w st = (if st < length (dw_states w) then rn_handles (node_of st w) else [])"

lemma dist_handles_put:
  assumes "world_ok w" and "st < length (dw_states w)"
  shows "dist_handles (put_state st n redis w) st' =
    (if st' = st then rn_handles n else dist_handles w st')"
  using node_of_put [OF assms] assms(2) by (simp add: dist_handles_def)

lemma dist_handles_init:
  assumes "dist_init_state i room w = (w', st)" and "world_ok w"
  shows "dist_handles w' st' = dist_handles w st'"
  using init_state_simps [OF assms(1)] assms(2)
  by (cases "st' = st") (auto simp: dist_handles_def redis_node_new_def less_Suc_eq)

lemma dist_handles_rest [simp]:
  "dist_handles (at_gateway i f w) = dist_handles w" "dist_handles (dist_put i room c w) = dist_handles w"
  "dist_handles (dist_close i room w) = dist_handles w"
  "dist_handles (w\<lparr>dw_db := d, dw_fleet := fl\<rparr>) = dist_handles w"
  "dist_handles (w\<lparr>dw_fleet := fl\<rparr>) = dist_handles w" "dist_handles (w\<lparr>dw_db := d\<rparr>) = dist_handles w"
  by (auto simp: dist_handles_def fun_eq_iff dist_put_def dist_close_def node_of_def room_of_def)

lemma redis_simps:
  "rn_handles (redis_drop j n) = remove1 j (rn_handles n)" "rn_up (redis_drop j n) = rn_up n"
  "rn_handles (fail_task k n) = rn_handles n" "rn_up (fail_task k n) = rn_up n"
  "rn_handles (redis_leave info n) = rn_handles n" "rn_up (redis_leave info n) = rn_up n"
  "rn_handles (source_subscribe now r n) = rn_handles n" "rn_up (source_subscribe now r n) = rn_up n"
  "rn_handles (source_deliver now r n) = rn_handles n" "rn_up (source_deliver now r n) = rn_up n"
  by (simp_all add: redis_drop_def fail_task_def redis_leave_def Let_def split_beta source_subscribe_def
      source_deliver_def split: source_status.split)

lemma redis_join_simps: "redis_join info n = Some n' \<Longrightarrow> rn_handles n' = rn_handles n \<and> rn_up n' = rn_up n"
  by (auto simp: redis_join_def Let_def split: prod.splits bool.splits)

lemma exec_task_simps:
  assumes "exec_task now k r n = (r', n')"
  shows "rn_up n' = rn_up n"
    and "tk_join (rn_tasks n ! k) = None \<or> 1 < length (tk_cmds (rn_tasks n ! k)) \<Longrightarrow> rn_handles n' = rn_handles n"
    and "tk_join (rn_tasks n ! k) = Some j \<Longrightarrow> length (tk_cmds (rn_tasks n ! k)) = 1 \<Longrightarrow>
      rn_handles n' = j # rn_handles n"
  using assms by (auto simp: exec_task_def Let_def split: list.splits if_splits option.splits)

lemma fits: "at_room st None = []" "at_room st (Some \<lparr>rh_state = st', rh_joined = j\<rparr>) = (if st' = st then [j] else [])"
  by (simp_all add: at_room_def)

text \<open>How a join ends.\<close>

lemma dist_join_ends_cases:
  assumes "dist_join_ends k now joining st info r w = Some w'"
  obtains (closed) "w' = w" "r = None"
  | (fails) "k < length (rn_tasks (node_of st w))" "tk_join (rn_tasks (node_of st w) ! k) \<noteq> None"
      "w' = set_state st (fail_task k (node_of st w)) w" "r = None"
  | (joins) j redis n' where "k < length (rn_tasks (node_of st w))"
      "tk_join (rn_tasks (node_of st w) ! k) = Some j" "length (tk_cmds (rn_tasks (node_of st w) ! k)) = 1"
      "exec_task now k (rr_redis (room_of st w)) (node_of st w) = (redis, n')"
      "r = Some \<lparr>rh_state = st, rh_joined = j\<rparr>" "w' = put_state st n' redis w"
proof (cases joining)
  case False
  then show ?thesis
    using assms by (intro closed) (simp_all add: dist_join_ends_def answered_def split: if_splits)
next
  case True
  let ?n = "node_of st w"
  have k: "k < length (rn_tasks ?n)"
    using assms True by (simp add: dist_join_ends_def Let_def split: if_splits)
  obtain j where j: "tk_join (rn_tasks ?n ! k) = Some j"
    using assms True by (auto simp: dist_join_ends_def Let_def split: if_splits option.splits)
  show ?thesis
  proof (cases r)
    case None
    then show ?thesis
      using assms True k j by (intro fails) (simp_all add: dist_join_ends_def Let_def split: if_splits)
  next
    case (Some rh)
    obtain redis n' where ex: "exec_task now k (rr_redis (room_of st w)) ?n = (redis, n')" by fastforce
    show ?thesis
      using assms True k j ex Some
      by (intro joins [OF k j _ ex]) (simp_all add: dist_join_ends_def Let_def answered_def split: if_splits)
  qed
qed

lemma dist_join_ends_ok:
  assumes ends: "dist_join_ends k now joining st info r w = Some w'" and ok: "world_ok w"
    and st: "st < length (dw_states w)"
  shows "world_ok w' \<and> length (dw_states w') = length (dw_states w) \<and>
    mset (dist_handles w' st') = mset (dist_handles w st') + mset (at_room st' r) \<and>
    (\<forall>rh. r = Some rh \<longrightarrow> rh_state rh = st)"
  using ends
proof (cases rule: dist_join_ends_cases)
  case closed
  then show ?thesis using ok by (simp add: fits)
next
  case fails
  then show ?thesis
    using ok st by (simp add: set_state_def world_ok_put world_okD(2) redis_simps dist_handles_put fits)
      (simp add: dist_handles_def)
next
  case (joins j redis n')
  note exec = exec_task_simps [OF joins(4)]
  show ?thesis
    using ok st joins(5,6) exec(1) exec(3) [OF joins(2,3)] world_okD(2) [OF ok st]
    by (simp add: world_ok_put dist_handles_put fits) (simp add: dist_handles_def)
qed

definition dist_performs :: "url_texts \<Rightarrow> string action \<Rightarrow> dist_world \<Rightarrow> dist_world \<Rightarrow> bool" where
  "dist_performs tx a w w' \<longleftrightarrow>
     (\<exists>e i joining. i < length (dw_gateways w) \<and> dist_perform tx e i joining a w = Some w')"

text \<open>The other actions leave the handles alone, but for dropping one.\<close>

lemma dist_perform_ok:
  assumes perf: "dist_perform tx e i joining a w = Some w'" and ok: "world_ok w"
    and i: "i < length (dw_gateways w)" and given: "given_states a n = Some n'" "n \<subseteq> {..<length (dw_states w)}"
    and drops: "drops_open a (dist_handles w)"
  shows "world_ok w' \<and> n' \<subseteq> {..<length (dw_states w')}"
proof (cases a)
  case (AMapOrInsert c r)
  show ?thesis
  proof (cases "dist_get i (gc_room_id c) w")
    case None
    then have "w' = dist_put i (gc_room_id c) c w" "r = c"
      using perf unfolding AMapOrInsert by (simp_all add: dist_perform_def dist_or_insert_def answered_def split: if_splits)
    then show ?thesis
      using given unfolding AMapOrInsert
      by (auto simp: given_states_def dist_put_def split: if_splits
          intro!: world_ok_dist_put [OF ok, unfolded dist_put_def])
  next
    case (Some c')
    then have "w' = w" "r = c'"
      using perf unfolding AMapOrInsert by (simp_all add: dist_perform_def dist_or_insert_def answered_def split: if_splits)
    then show ?thesis
      using given ok world_okD(5) [OF ok i Some] unfolding AMapOrInsert
      by (auto simp: given_states_def split: if_splits)
  qed
next
  case (AMapReassign room v r)
  show ?thesis
  proof (cases "dist_get i room w")
    case None
    obtain w1 st where init: "dist_init_state i room w = (w1, st)" by fastforce
    let ?c = "\<lparr>gc_room_id = room, gc_state = st, gc_voice = v\<rparr>"
    have "w' = dist_put i room ?c w1" "r = Some ?c"
      using perf None init unfolding AMapReassign
      by (simp_all add: dist_perform_def dist_replace_voice_def Let_def answered_def split: if_splits)
    then show ?thesis
      using given init_state_simps(1,2) [OF init] unfolding AMapReassign
      by (auto simp: given_states_def dist_put_def
          intro!: world_ok_dist_put [OF world_ok_init [OF init ok], unfolded dist_put_def])
  next
    case (Some c)
    let ?c = "c\<lparr>gc_voice := v\<rparr>"
    have "w' = dist_put i room ?c w" "r = Some ?c"
      using perf Some unfolding AMapReassign
      by (simp_all add: dist_perform_def dist_replace_voice_def Let_def answered_def split: if_splits)
    then show ?thesis
      using given world_okD(5) [OF ok i Some] unfolding AMapReassign
      by (auto simp: given_states_def dist_put_def intro!: world_ok_dist_put [OF ok, unfolded dist_put_def])
  qed
next
  case (AInitState room r)
  obtain w1 st where init: "dist_init_state i room w = (w1, st)" by fastforce
  then have "w' = w1" "r = Some st"
    using perf unfolding AInitState by (simp_all add: dist_perform_def answered_def split: if_splits)
  then show ?thesis
    using given init_state_simps(1,2) [OF init] world_ok_init [OF init ok] unfolding AInitState
    by (auto simp: given_states_def)
next
  case (AMapGet room r)
  then show ?thesis
    using perf given ok world_okD(5) [OF ok i, of room]
    by (cases r) (auto simp: dist_perform_def answered_def given_states_def split: if_splits)
next
  case (AJoin st info r)
  then have "n' = n" "st < length (dw_states w)"
    using given by (auto simp: given_states_def split: if_splits)
  then show ?thesis
    using perf given(2) AJoin dist_join_ends_ok [OF _ ok, of "de_task e" "le_now (de_lookup e)" joining st info r w']
    by (simp add: dist_perform_def)
next
  case (ADropRoom rh)
  then have "rh_state rh < length (dw_states w)"
    using drops by (auto simp: drops_open_def dist_handles_def split: if_splits)
  then show ?thesis
    using perf given ok world_okD(2) [OF ok] unfolding ADropRoom
    by (auto simp: dist_perform_def set_state_def given_states_def redis_simps intro!: world_ok_put)
next
  case (ASpawnLeave v room client)
  then show ?thesis
    using perf given ok by (auto simp: dist_perform_def given_states_def intro!: world_ok_leaves)
qed (use perf given ok in \<open>auto simp: dist_perform_def answered_def given_states_def
    split: if_splits session_event.splits prod.splits option.splits\<close>)

lemma dist_perform_handles:
  assumes perf: "dist_perform tx e i joining a w = Some w'" and ok: "world_ok w"
    and st: "\<forall>st' info r. a = AJoin st' info r \<longrightarrow> st' < length (dw_states w)"
    and drops: "drops_open a (dist_handles w)"
  shows "mset (dist_handles w' st) + mset (at_room st (dropped_handle a)) =
      mset (dist_handles w st) + mset (at_room st (joined_handle a))"
proof -
  have init: "dist_handles w1 = dist_handles w" if "dist_init_state j room w = (w1, k)" for j room w1 k
    using dist_handles_init [OF that ok] by auto
  show ?thesis
  proof (cases a)
    case (AJoin st' info r)
    then show ?thesis
      using perf st dist_join_ends_ok [of "de_task e" "le_now (de_lookup e)" joining st' info r w w' st] ok
      by (auto simp: dist_perform_def fits)
  next
    case (ADropRoom rh)
    then have open_h: "rh_state rh < length (dw_states w)" "rh_joined rh \<in> set (rn_handles (node_of (rh_state rh) w))"
      using drops by (auto simp: drops_open_def dist_handles_def split: if_splits)
    then show ?thesis
      using perf dist_handles_put [OF ok open_h(1)] unfolding ADropRoom
      by (auto simp: dist_perform_def set_state_def redis_simps at_room_def) (simp add: dist_handles_def)
  next
    case (AMapReassign room v r)
    then show ?thesis
      using perf init [of i room]
      by (auto simp: dist_perform_def dist_replace_voice_def Let_def answered_def at_room_def dist_put_def
          split: option.splits prod.splits if_splits)
  next
    case (AInitState room r)
    then show ?thesis
      using perf init [of i room]
      by (auto simp: dist_perform_def answered_def at_room_def split: prod.splits if_splits)
  qed (use perf in \<open>auto simp: dist_perform_def answered_def at_room_def dist_or_insert_def dist_put_def
      split: if_splits session_event.splits prod.splits option.splits\<close>)
qed

lemma dist_perform_grows:
  "dist_perform tx e i joining a w = Some w' \<Longrightarrow> length (dw_states w) \<le> length (dw_states w')"
  by (cases a) (auto simp: dist_perform_def answered_def dist_or_insert_def dist_replace_voice_def
      Let_def dist_put_def dist_join_ends_def set_state_def init_state_simps(2)
      split: if_splits session_event.splits prod.splits option.splits)

interpretation shared: session_world b64 "dist_performs tx" "\<lambda>w. length (dw_states w)" dist_handles world_ok
  for b64 :: "u8 list \<Rightarrow> string" and tx :: url_texts
proof
  fix a w w'
  assume "dist_performs tx a w w'"
  then obtain e i joining where perf: "i < length (dw_gateways w)" "dist_perform tx e i joining a w = Some w'"
    unfolding dist_performs_def by blast
  show "n' \<subseteq> {..<length (dw_states w')} \<and> world_ok w'"
    if "given_states a n = Some n'" "n \<subseteq> {..<length (dw_states w)}" "world_ok w" "drops_open a (dist_handles w)"
    for n n'
    using dist_perform_ok [OF perf(2) that(3) perf(1) that(1,2,4)] by blast
  show "mset (dist_handles w' st) + mset (at_room st (dropped_handle a)) =
      mset (dist_handles w st) + mset (at_room st (joined_handle a))"
    if "world_ok w" "\<forall>st' info r. a = AJoin st' info r \<longrightarrow> st' < length (dw_states w)"
      "drops_open a (dist_handles w)" for st
    using dist_perform_handles [OF perf(2) that] .
next
  fix st info rh w w'
  assume "dist_performs tx (AJoin st info (Some rh)) w w'" "st < length (dw_states w)"
  then show "rh_state rh < length (dw_states w)"
    by (auto simp: dist_performs_def dist_perform_def dist_join_ends_def Let_def answered_def
        split: if_splits option.splits prod.splits)
qed (auto simp: dist_handles_def dist_performs_def dest: dist_perform_grows)

section \<open>Rooms and sessions\<close>

definition runs_of :: "dist_system \<Rightarrow> (string action list \<times> (string, string session option) prog) list" where
  "runs_of s = map (\<lambda>d. (ds_trace d, ds_prog d)) (dt_sessions s)"

definition dist_inv :: "(u8 list \<Rightarrow> string) \<Rightarrow> dist_system \<Rightarrow> bool" where
  "dist_inv b64 s \<longleftrightarrow> shared.agree b64 (dt_world s) (runs_of s) \<and>
     (\<forall>d \<in> set (dt_sessions s). ds_gateway d < length (dw_gateways (dt_world s)))"

lemma dist_invD:
  assumes "dist_inv b64 s"
  shows "shared.agree b64 (dt_world s) (runs_of s)" and "world_ok (dt_world s)"
    and "i < length (dt_sessions s) \<Longrightarrow> dt_sessions s ! i = d \<Longrightarrow> ds_gateway d < length (dw_gateways (dt_world s))"
  using assms shared.agreeD(2) unfolding dist_inv_def by auto

lemma dist_inv_keep:
  assumes inv: "dist_inv b64 s" and "world_ok w" and "length (dw_states w) = length (dw_states (dt_world s))"
    and "dist_handles w = dist_handles (dt_world s)"
    and "length (dw_gateways (dt_world s)) \<le> length (dw_gateways w)"
  shows "dist_inv b64 (s\<lparr>dt_world := w\<rparr>)"
proof -
  have "shared.agree b64 w (runs_of s)"
    using assms(2-4) by (intro shared.agree_keep [OF dist_invD(1) [OF inv]]) simp_all
  then show ?thesis
    using inv assms(5) unfolding dist_inv_def by (fastforce simp: runs_of_def)
qed

text \<open>A state changes without opening or closing a handle.\<close>

lemma dist_inv_put:
  assumes inv: "dist_inv b64 s" and st: "st < length (dw_states (dt_world s))" and up: "rn_up n"
    and hs: "rn_handles n = rn_handles (node_of st (dt_world s))"
  shows "dist_inv b64 (s\<lparr>dt_world := put_state st n redis (dt_world s)\<rparr>)"
proof -
  note ok = dist_invD(2) [OF inv]
  have "dist_handles (put_state st n redis (dt_world s)) = dist_handles (dt_world s)"
    using dist_handles_put [OF ok st] hs st by (auto simp: fun_eq_iff dist_handles_def)
  then show ?thesis by (intro dist_inv_keep [OF inv]) (simp_all add: world_ok_put [OF ok st up])
qed

lemma dist_inv_close:
  assumes "dist_inv b64 s"
  shows "dist_inv b64 (s\<lparr>dt_world := dist_close i room (dt_world s)\<rparr>)"
  using dist_invD(2) [OF assms]
  by (intro dist_inv_keep [OF assms] world_ok_close) (simp_all add: dist_close_def)

lemma dist_perform_gateways:
  "dist_perform tx e i joining a w = Some w' \<Longrightarrow> length (dw_gateways w') = length (dw_gateways w)"
  by (cases a) (auto simp: dist_perform_def answered_def dist_or_insert_def dist_replace_voice_def
      Let_def dist_put_def dist_join_ends_def set_state_def init_state_simps(3)
      split: if_splits session_event.splits prod.splits option.splits)

lemma dist_inv_act:
  assumes inv: "dist_inv b64 s" and i: "i < length (dt_sessions s)" "dt_sessions s ! i = d"
    and adv: "advance a (ds_prog d) = Some p"
    and perf: "dist_perform tx e (ds_gateway d) (ds_joining d) a (dt_world s) = Some w"
  shows "dist_inv b64 (s\<lparr>dt_world := w, dt_sessions := (dt_sessions s)[i := d\<lparr>ds_joining := False,
    ds_trace := ds_trace d @ [a], ds_prog := resume b64 p\<rparr>]\<rparr>)"
proof -
  note home = dist_invD(3) [OF inv i]
  have "dist_performs tx a (dt_world s) w"
    using home perf unfolding dist_performs_def by blast
  then have "shared.agree b64 w ((runs_of s)[i := (ds_trace d @ [a], resume b64 p)])"
    using i adv by (intro shared.agree_act [OF dist_invD(1) [OF inv]]) (simp_all add: runs_of_def)
  moreover have "ds_gateway x < length (dw_gateways w)"
    if "x \<in> set ((dt_sessions s)[i := d\<lparr>ds_joining := False, ds_trace := ds_trace d @ [a], ds_prog := resume b64 p\<rparr>])" for x
    using that inv home dist_perform_gateways [OF perf] set_update_subset_insert [of "dt_sessions s" i]
    unfolding dist_inv_def by fastforce
  ultimately show ?thesis unfolding dist_inv_def by (simp add: runs_of_def map_update)
qed

lemma dist_inv_step: "dist_step b64 tx l s s' \<Longrightarrow> dist_inv b64 s \<Longrightarrow> dist_inv b64 s'"
proof (induction rule: dist_step.induct)
  case (gateway s)
  have "world_ok (dt_world s\<lparr>dw_gateways := dw_gateways (dt_world s) @ [\<lparr>dy_map = [], dy_leaves = []\<rparr>]\<rparr>)"
    using dist_invD(2) [OF gateway]
    by (auto simp: world_ok_def dist_get_def room_of_def node_of_def nth_append less_Suc_eq split: if_splits)
  then show ?case
    by (intro dist_inv_keep [OF gateway]) (auto simp: dist_handles_def fun_eq_iff node_of_def room_of_def)
next
  case (connect i s sid)
  then show ?case
    using shared.agree_connect [of b64 "dt_world s" "runs_of s" sid]
    by (auto simp: dist_inv_def runs_of_def)
next
  case (join i s d st info k n)
  have "dist_inv b64 (s\<lparr>dt_world := set_state st n (dt_world s)\<rparr>)"
    using redis_join_simps [OF join(6)] world_okD(2) [OF dist_invD(2) [OF join.prems] join(5)]
    unfolding set_state_def by (intro dist_inv_put [OF join.prems join(5)]) simp_all
  moreover have "(runs_of s)[i := (ds_trace d, ds_prog d)] = runs_of s"
    using join(1,2) by (metis (no_types, lifting) list_update_id nth_map runs_of_def)
  ultimately show ?case
    using join(1,2) dist_invD(3) [OF join.prems join(1,2)] set_update_subset_insert [of "dt_sessions s" i]
    by (fastforce simp: dist_inv_def runs_of_def map_update set_state_def)
next
  case (act i s d a p e w)
  then show ?case by (intro dist_inv_act) auto
next
  case (command st s n k now redis n')
  then show ?case
    using exec_task_simps(1,2) [OF command(5)] world_okD(2) [OF dist_invD(2) [OF command.prems] command(1)]
    by (intro dist_inv_put) auto
next
  case (leave_fails st s n k)
  then show ?case
    using world_okD(2) [OF dist_invD(2) [OF leave_fails.prems] leave_fails(1)]
    unfolding set_state_def by (intro dist_inv_put) (auto simp: redis_simps)
next
  case (leave st s info)
  let ?w = "set_state st (redis_leave info (node_of st (dt_world s))) (dt_world s)"
  have "dist_inv b64 (s\<lparr>dt_world := ?w\<rparr>)"
    using leave world_okD(2) [OF dist_invD(2) [OF leave.prems] leave(1)]
    unfolding set_state_def by (intro dist_inv_put) (auto simp: redis_simps)
  then show ?case
    using dist_inv_close [of b64 "s\<lparr>dt_world := ?w\<rparr>"] by (simp add: dist_leave_def Let_def)
next
  case (refresh st s j now)
  then show ?case
    using world_okD(2) [OF dist_invD(2) [OF refresh.prems] refresh(1)] by (intro dist_inv_put) auto
next
  case (subscribe st s n now)
  then show ?case
    using world_okD(2) [OF dist_invD(2) [OF subscribe.prems] subscribe(1)]
    unfolding set_state_def by (intro dist_inv_put) (auto simp: redis_simps)
next
  case (deliver st s n now)
  then show ?case
    using world_okD(2) [OF dist_invD(2) [OF deliver.prems] deliver(1)]
    unfolding set_state_def by (intro dist_inv_put) (auto simp: redis_simps)
next
  case (source_lost st s n)
  then show ?case
    using world_okD(2) [OF dist_invD(2) [OF source_lost.prems] source_lost(1)]
    unfolding set_state_def by (intro dist_inv_put) auto
next
  case (voice_left i s task e)
  then show ?case
    using dist_invD(2) [OF voice_left.prems]
    by (cases task) (auto simp: dist_voice_leave_def intro!: dist_inv_keep world_ok_leaves)
next
  case (others s d fl)
  then show ?case using dist_invD(2) [OF others] by (intro dist_inv_keep) auto
qed

lemma dist_inv_start: "dist_inv b64 (dist_start d fl)"
  unfolding dist_inv_def shared.agree_def
  by (simp add: dist_start_def world_new_def runs_of_def are_runs_def world_ok_def room_new_def
      dist_handles_def held_handles_def)

section \<open>Each room by itself\<close>

text \<open>
  Seen from one room, the system is a run of the room as \<open>Redis_Channel\<close> has it: this carries its
  properties over. A step of a room that loses nobody is one of the room or leaves it alone.
\<close>

definition rooms_go :: "dist_world \<Rightarrow> dist_world \<Rightarrow> bool" where
  "rooms_go w w' \<longleftrightarrow> (\<forall>room. dw_rooms w' room = dw_rooms w room \<or>
     (\<exists>lbl. lbl \<noteq> LLost \<and> redis_step (dw_rooms w room) lbl (dw_rooms w' room)))"

lemma rooms_go_same: "dw_rooms w' = dw_rooms w \<Longrightarrow> rooms_go w w'"
  by (simp add: rooms_go_def)

lemma rooms_go_close: "rooms_go w w' \<Longrightarrow> rooms_go w (dist_close i room w')"
  by (simp add: rooms_go_def dist_close_def)

lemma rooms_go_put:
  assumes "redis_step (room_of st w) lbl
      (set_node (sf_node (dw_states w ! st)) n ((room_of st w)\<lparr>rr_redis := redis\<rparr>))" and "lbl \<noteq> LLost"
  shows "rooms_go w (put_state st n redis w)"
  using assms by (auto simp: rooms_go_def room_of_def)

lemma rooms_go_set:
  assumes "redis_step (room_of st w) lbl (set_node (sf_node (dw_states w ! st)) n (room_of st w))"
    and "lbl \<noteq> LLost"
  shows "rooms_go w (set_state st n w)"
  using assms by (auto simp: set_state_def intro: rooms_go_put)

lemma rooms_go_init:
  assumes "dist_init_state i room w = (w', st)"
  shows "rooms_go w w'"
  unfolding rooms_go_def
proof
  fix q
  show "dw_rooms w' q = dw_rooms w q \<or>
    (\<exists>lbl. lbl \<noteq> LLost \<and> redis_step (dw_rooms w q) lbl (dw_rooms w' q))"
  proof (cases "q = room")
    case True
    have "redis_step (dw_rooms w q) LPlain (dw_rooms w' q)"
      using assms redis_step.init [of "dw_rooms w room"] True by (auto simp: dist_init_state_def Let_def)
    then show ?thesis by (intro disjI2 exI [of _ LPlain]) simp
  next
    case False
    then show ?thesis using assms by (auto simp: dist_init_state_def Let_def)
  qed
qed

lemma rooms_go_join_ends:
  assumes ends: "dist_join_ends k now joining st info r w = Some w'" and ok: "world_ok w"
    and st: "st < length (dw_states w)"
  shows "rooms_go w w'"
  using ends
proof (cases rule: dist_join_ends_cases)
  case closed
  then show ?thesis by (simp add: rooms_go_same)
next
  case fails
  have "redis_step (room_of st w) LPlain
      (set_node (sf_node (dw_states w ! st)) (fail_task k (node_of st w)) (room_of st w))"
    using redis_step.fails [OF world_okD(1) [OF ok st], of k] fails(1,2) by (auto simp: node_of_def)
  then show ?thesis unfolding fails(3) by (rule rooms_go_set) simp
next
  case (joins j redis n')
  have "redis_step (room_of st w) LPlain
      (set_node (sf_node (dw_states w ! st)) n' ((room_of st w)\<lparr>rr_redis := redis\<rparr>))"
    using redis_step.exec [OF world_okD(1) [OF ok st], of k now redis n'] joins(1,4) by (simp add: node_of_def)
  then show ?thesis unfolding joins(6) by (rule rooms_go_put) simp
qed

lemma rooms_go_perform:
  assumes perf: "dist_perform tx e i joining a w = Some w'" and ok: "world_ok w"
    and st: "\<forall>st info r. a = AJoin st info r \<longrightarrow> st < length (dw_states w)"
    and drops: "drops_open a (dist_handles w)"
  shows "rooms_go w w'"
proof (cases a)
  case (AJoin st info r)
  then show ?thesis
    using perf st rooms_go_join_ends [OF _ ok, of "de_task e" "le_now (de_lookup e)" joining st info r w']
    by (simp add: dist_perform_def)
next
  case (ADropRoom rh)
  then have open_h: "rh_state rh < length (dw_states w)" "rh_joined rh \<in> set (rn_handles (node_of (rh_state rh) w))"
    using drops by (auto simp: drops_open_def dist_handles_def split: if_splits)
  have "w' = set_state (rh_state rh) (redis_drop (rh_joined rh) (node_of (rh_state rh) w)) w"
    using perf ADropRoom by (simp add: dist_perform_def)
  then show ?thesis
    using redis_step.drop [OF world_okD(1) [OF ok open_h(1)], of "rh_joined rh"] open_h(2)
    unfolding node_of_def by (auto intro: rooms_go_set)
next
  case (AInitState room r)
  then show ?thesis
    using perf by (auto simp: dist_perform_def answered_def intro: rooms_go_init split: prod.splits if_splits)
next
  case (AMapReassign room v r)
  show ?thesis
  proof (cases "dist_get i room w")
    case None
    obtain w1 k where init: "dist_init_state i room w = (w1, k)" by fastforce
    then have "dw_rooms w' = dw_rooms w1"
      using perf None AMapReassign
      by (auto simp: dist_perform_def dist_replace_voice_def Let_def answered_def dist_put_def split: if_splits)
    then show ?thesis using rooms_go_init [OF init] by (simp add: rooms_go_def)
  next
    case (Some c)
    then show ?thesis
      using perf AMapReassign
      by (auto simp: dist_perform_def dist_replace_voice_def answered_def dist_put_def
          intro: rooms_go_same split: if_splits)
  qed
qed (use perf in \<open>auto simp: dist_perform_def answered_def dist_or_insert_def dist_put_def
    intro: rooms_go_same split: if_splits session_event.splits prod.splits option.splits\<close>)

lemma rooms_go_step: "dist_step b64 tx l s s' \<Longrightarrow> \<not> l \<Longrightarrow> dist_inv b64 s \<Longrightarrow> rooms_go (dt_world s) (dt_world s')"
proof (induction rule: dist_step.induct)
  case (join i s d st info k n)
  note ok = dist_invD(2) [OF join.prems(2)]
  show ?case
    using redis_step.join [OF world_okD(1) [OF ok join(5)], of info n] world_okD(2) [OF ok join(5)] join(6)
    unfolding node_of_def by (auto intro: rooms_go_set)
next
  case (act i s d a p e w)
  have run: "i < length (runs_of s)" "runs_of s ! i = (ds_trace d, ds_prog d)"
    using act(1,2) by (simp_all add: runs_of_def)
  show ?case
    by (rule shared.act_fits [OF dist_invD(1) [OF act.prems(2)] run act(3)])
      (use rooms_go_perform [OF act(4) dist_invD(2) [OF act.prems(2)]] in simp)
next
  case (command st s n k now redis n')
  show ?case
    using redis_step.exec [OF world_okD(1) [OF dist_invD(2) [OF command.prems(2)] command(1)], of k now redis n']
      command(2,3,5) unfolding node_of_def by (auto intro: rooms_go_put)
next
  case (leave st s info)
  have "rooms_go (dt_world s) (set_state st (redis_leave info (node_of st (dt_world s))) (dt_world s))"
    using redis_step.leave [OF world_okD(1) [OF dist_invD(2) [OF leave.prems(2)] leave(1)], of info] leave(2)
    unfolding node_of_def by (auto intro: rooms_go_set)
  then show ?case by (simp add: dist_leave_def Let_def rooms_go_close)
next
  case (refresh st s j now)
  let ?r = "room_of st (dt_world s)" and ?k = "sf_node (dw_states (dt_world s) ! st)"
  have "redis_step ?r LPlain (?r\<lparr>rr_redis := run_cmd now (HSetSeen (ci_client_id (jr_info j))) (rr_redis ?r)\<rparr>)"
    using redis_step.refresh [OF world_okD(1) [OF dist_invD(2) [OF refresh.prems(2)] refresh(1)], of j] refresh(2)
    unfolding node_of_def by blast
  then have "rooms_go (dt_world s) (put_state st (node_of st (dt_world s))
      (run_cmd now (HSetSeen (ci_client_id (jr_info j))) (rr_redis ?r)) (dt_world s))"
    by (intro rooms_go_put [of _ _ LPlain]) (simp_all add: set_node_def node_of_def)
  then show ?case by simp
next
  case (subscribe st s n now)
  show ?case
    using redis_step.subscribe [OF world_okD(1) [OF dist_invD(2) [OF subscribe.prems(2)] subscribe(1)]] subscribe(2,3)
    unfolding node_of_def by (auto intro: rooms_go_set)
next
  case (deliver st s n now)
  show ?case
    using redis_step.deliver [OF world_okD(1) [OF dist_invD(2) [OF deliver.prems(2)] deliver(1)]] deliver(2)
    unfolding node_of_def by (auto intro: rooms_go_set)
next
  case (source_lost st s n)
  show ?case
    using redis_step.source_lost [OF world_okD(1) [OF dist_invD(2) [OF source_lost.prems(2)] source_lost(1)]] source_lost(2)
    unfolding node_of_def by (auto intro: rooms_go_set)
next
  case (voice_left i s task e)
  then show ?case by (cases task) (simp add: dist_voice_leave_def rooms_go_same)
qed (simp_all add: rooms_go_same)

lemma dist_reach_inv:
  "(\<lambda>s s'. \<exists>l. dist_step b64 tx l s s')\<^sup>*\<^sup>* (dist_start d fl) s \<Longrightarrow> dist_inv b64 s"
  by (induction rule: rtranclp_induct) (auto intro: dist_inv_start dist_inv_step)

lemma dist_kept_inv:
  "(dist_step b64 tx False)\<^sup>*\<^sup>* (dist_start d fl) s \<Longrightarrow> dist_inv b64 s"
  by (induction rule: rtranclp_induct) (auto intro: dist_inv_start dist_inv_step)

lemma dist_rooms_run:
  "(dist_step b64 tx False)\<^sup>*\<^sup>* (dist_start d fl) s \<Longrightarrow>
     \<exists>ls. redis_run room_new ls (dw_rooms (dt_world s) room) \<and> LLost \<notin> set ls"
proof (induction rule: rtranclp_induct)
  case base
  have "redis_run room_new [] room_new" by (rule redis_run.stay)
  then show ?case by (intro exI [of _ "[]"]) (simp add: dist_start_def world_new_def)
next
  case (step s s')
  then obtain ls where ls: "redis_run room_new ls (dw_rooms (dt_world s) room)" "LLost \<notin> set ls" by blast
  have "rooms_go (dt_world s) (dt_world s')"
    using rooms_go_step [OF step(2)] dist_kept_inv [OF step(1)] by simp
  then consider "dw_rooms (dt_world s') room = dw_rooms (dt_world s) room"
    | lbl where "lbl \<noteq> LLost" "redis_step (dw_rooms (dt_world s) room) lbl (dw_rooms (dt_world s') room)"
    unfolding rooms_go_def by blast
  then show ?case
  proof cases
    case 1
    then show ?thesis using ls by auto
  next
    case 2
    have "redis_run room_new (ls @ [lbl]) (dw_rooms (dt_world s') room)"
      using ls(1) 2(2) by (rule redis_run.step)
    then show ?thesis using ls(2) 2(1) by (intro exI [of _ "ls @ [lbl]"]) auto
  qed
qed

section \<open>Properties\<close>

text \<open>
  C18: The shared rooms and the sessions agree. However many gateways there are and whatever fails, the
  open handles of each state of a channel are exactly the room handles the sessions hold, each held
  once, also while joins are under way; and a session that has returned or failed holds none.
\<close>

theorem shared_rooms_and_sessions_agree:
  assumes "(\<lambda>s s'. \<exists>l. dist_step b64 tx l s s')\<^sup>*\<^sup>* (dist_start d fl) s"
    and "st < length (dw_states (dt_world s))"
  shows "mset (rn_handles (node_of st (dt_world s))) = mset (held_handles st (runs_of s)) \<and>
    (\<forall>x \<in> set (dt_sessions s). ds_prog x = Ret None \<or> (\<exists>e. ds_prog x = Fail e) \<longrightarrow> held (ds_trace x) = None)"
proof -
  note agree = dist_invD(1) [OF dist_reach_inv [OF assms(1)]]
  have "held (ds_trace x) = None"
    if "x \<in> set (dt_sessions s)" and "ds_prog x = Ret None \<or> (\<exists>e. ds_prog x = Fail e)" for x
  proof -
    have "(ds_trace x, ds_prog x) \<in> set (runs_of s)" using that(1) by (auto simp: runs_of_def)
    then show ?thesis
      using over_holds_nothing that(2) shared.agreeD(1) [OF agree] unfolding are_runs_def by blast
  qed
  then show ?thesis
    using shared.agreeD(5) [OF agree, of st] assms(2) by (simp add: dist_handles_def)
qed

text \<open>A session that holds a handle of a room, and a client some task is letting in or out.\<close>

definition in_room :: "uuid \<Rightarrow> uuid \<Rightarrow> dist_system \<Rightarrow> bool" where
  "in_room room client s \<longleftrightarrow> (\<exists>x \<in> set (dt_sessions s). \<exists>rh. held (ds_trace x) = Some rh \<and>
     sf_room (dw_states (dt_world s) ! rh_state rh) = room \<and> ci_client_id (jr_info (rh_joined rh)) = client)"

definition under_way :: "uuid \<Rightarrow> uuid \<Rightarrow> dist_system \<Rightarrow> bool" where
  "under_way room client s \<longleftrightarrow> (\<exists>n \<in> set (rr_nodes (dw_rooms (dt_world s) room)).
     client \<in> ci_client_id ` (set (rn_leaving n) \<union> tk_info ` set (rn_tasks n)))"

lemma at_room_member: "j \<in> set (at_room st r) \<Longrightarrow> r = Some \<lparr>rh_state = st, rh_joined = j\<rparr>"
  by (cases r) (auto simp: at_room_def split: if_splits)

lemma held_handles_member:
  assumes "j \<in> set (held_handles st (runs_of s))"
  obtains x where "x \<in> set (dt_sessions s)" and "held (ds_trace x) = Some \<lparr>rh_state = st, rh_joined = j\<rparr>"
proof -
  obtain x where x: "x \<in> set (dt_sessions s)" "j \<in> set (held_at st (ds_trace x))"
    using assms by (auto simp: held_handles_def runs_of_def)
  show thesis by (rule that [OF x(1) at_room_member]) (rule x(2) [unfolded held_at_def])
qed

text \<open>
  C17: Only clients with a session are listed. As long as no gateway dies and the commands of no leave
  fail, every member that Redis lists for a room is a client with a session that holds a handle of
  the room, on whichever gateway, or a client that some task is letting in or out. So once the
  sessions are over and the tasks done, nobody is listed.
\<close>

theorem listed_members_have_sessions:
  assumes "(dist_step b64 tx False)\<^sup>*\<^sup>* (dist_start d fl) s"
    and "info \<in> set (list_members (rr_redis (dw_rooms (dt_world s) room)))"
  shows "in_room room (ci_client_id info) s \<or> under_way room (ci_client_id info) s"
proof -
  note inv = dist_kept_inv [OF assms(1)]
  obtain ls where "redis_run room_new ls (dw_rooms (dt_world s) room)" "LLost \<notin> set ls"
    using dist_rooms_run [OF assms(1)] by blast
  then obtain n where n: "n \<in> set (rr_nodes (dw_rooms (dt_world s) room))" "looked_after (ci_client_id info) n"
    using listed_members_are_looked_after assms(2) by blast
  then consider (handle) j where "j \<in> set (rn_handles n)" "ci_client_id (jr_info j) = ci_client_id info"
    | (task) "under_way room (ci_client_id info) s"
    unfolding looked_after_def under_way_def by (auto simp: image_Un)
  then show ?thesis
  proof cases
    case handle
    obtain k where k: "k < length (rr_nodes (dw_rooms (dt_world s) room))"
        "n = rr_nodes (dw_rooms (dt_world s) room) ! k"
      using n(1) by (metis in_set_conv_nth)
    obtain st where st: "st < length (dw_states (dt_world s))" "sf_room (dw_states (dt_world s) ! st) = room"
        "sf_node (dw_states (dt_world s) ! st) = k"
      using world_okD(4) [OF dist_invD(2) [OF inv] k(1)] by blast
    have "node_of st (dt_world s) = n" using st k(2) by (simp add: node_of_def room_of_def)
    then have "j \<in> set (dist_handles (dt_world s) st)" using handle(1) st(1) by (simp add: dist_handles_def)
    then have "j \<in> set (held_handles st (runs_of s))"
      using shared.agreeD(5) [OF dist_invD(1) [OF inv], of st] by (metis set_mset_mset)
    then obtain x where "x \<in> set (dt_sessions s)" "held (ds_trace x) = Some \<lparr>rh_state = st, rh_joined = j\<rparr>"
      by (rule held_handles_member)
    then show ?thesis using st(2) handle(2) unfolding in_room_def by (auto intro!: bexI [of _ x])
  qed simp
qed

section \<open>A client in a shared room\<close>

text \<open>Several actions of one session.\<close>

fun dist_perform_all :: "url_texts \<Rightarrow> dist_env \<Rightarrow> nat \<Rightarrow> string action list \<Rightarrow> dist_world \<Rightarrow> dist_world option" where
  "dist_perform_all tx e i [] w = Some w"
| "dist_perform_all tx e i (a # as) w =
     Option.bind (dist_perform tx e i False a w) (dist_perform_all tx e i as)"

lemma dist_act_many:
  assumes "i < length (dt_sessions s)" and "dt_sessions s ! i = d" and "\<not> ds_joining d"
    and "session_run b64 acts (ds_prog d) = Some p"
    and "dist_perform_all tx e (ds_gateway d) acts (dt_world s) = Some w"
  shows "(dist_step b64 tx False)\<^sup>*\<^sup>* s (s\<lparr>dt_world := w, dt_sessions := (dt_sessions s)
    [i := d\<lparr>ds_trace := ds_trace d @ acts, ds_prog := p\<rparr>]\<rparr>)"
  using assms
proof (induction acts arbitrary: s d)
  case Nil
  have "d\<lparr>ds_trace := ds_trace d @ [], ds_prog := p\<rparr> = d" using Nil.prems(4) by simp
  then have "s\<lparr>dt_world := w, dt_sessions := (dt_sessions s)[i := d\<lparr>ds_trace := ds_trace d @ [], ds_prog := p\<rparr>]\<rparr> = s"
    using Nil.prems(1,2,5) list_update_id [of "dt_sessions s" i] by (simp only:) simp
  then show ?case by (simp only: rtranclp.rtrancl_refl)
next
  case (Cons a acts)
  obtain q w1 where q: "advance a (ds_prog d) = Some q" "session_run b64 acts (resume b64 q) = Some p"
      and w1: "dist_perform tx e (ds_gateway d) (ds_joining d) a (dt_world s) = Some w1"
        "dist_perform_all tx e (ds_gateway d) acts w1 = Some w"
    using Cons.prems(3-5) by (auto split: option.splits bind_splits)
  let ?d = "d\<lparr>ds_joining := False, ds_trace := ds_trace d @ [a], ds_prog := resume b64 q\<rparr>"
  let ?s = "s\<lparr>dt_world := w1, dt_sessions := (dt_sessions s)[i := ?d]\<rparr>"
  have "dist_step b64 tx False s ?s" using dist_step.act [OF Cons.prems(1,2) q(1) w1(1)] .
  moreover have "(dist_step b64 tx False)\<^sup>*\<^sup>* ?s (?s\<lparr>dt_world := w,
      dt_sessions := (dt_sessions ?s)[i := ?d\<lparr>ds_trace := ds_trace ?d @ acts, ds_prog := p\<rparr>]\<rparr>)"
    using Cons.prems(1) q(2) w1(2) by (intro Cons.IH) simp_all
  moreover have "?d\<lparr>ds_trace := ds_trace ?d @ acts, ds_prog := p\<rparr> =
      d\<lparr>ds_trace := ds_trace d @ a # acts, ds_prog := p\<rparr>"
    using Cons.prems(3) by (cases d) simp
  ultimately show ?case by (simp add: converse_rtranclp_into_rtranclp)
qed

text \<open>A client of the only gateway is placed on the voice server \<open>a\<close> and joins channel 7.\<close>

definition shared_channel :: "string gateway_channel" where
  "shared_channel = \<lparr>gc_room_id = 7, gc_state = 0, gc_voice = ''a''\<rparr>"

definition shared_opening :: "string action list" where
  "shared_opening =
     [ANext (Some (CeInit \<lparr>user_id = 5, init_name = ''ann''\<rparr>)), ASend (SeInit 3) True,
      ASelect False (ClientEvt (Some (CeJoin 7))), AMapGet 7 None, AVoiceFor 7 False (Some (Some ''a'')),
      AInitState 7 (Some 0), AMapOrInsert shared_channel shared_channel,
      AOpen ''a'' \<lparr>oc_user_name = ''ann'', oc_channel_id = 7, oc_client_id = 5\<rparr>
        (Inr \<lparr>cd_sock = SocketV4 0x7F000001 33333, cd_source_id = 77\<rparr>)]"

definition shared_handle :: room_handle where
  "shared_handle = \<lparr>rh_state = 0, rh_joined = \<lparr>updates = 0, jr_info = demo_member\<rparr>\<rparr>"

definition shared_world :: "fleet \<Rightarrow> redis_room \<Rightarrow> dist_world" where
  "shared_world fl r = \<lparr>dw_gateways = [\<lparr>dy_map = [(7, shared_channel)], dy_leaves = []\<rparr>],
     dw_states = [\<lparr>sf_gateway = 0, sf_room = 7, sf_node = 0\<rparr>], dw_rooms = (\<lambda>room. room_new)(7 := r),
     dw_db = split_db, dw_fleet = fl\<rparr>"

lemma shared_host:
  "\<exists>srv c srv'. Voice_Server.assign_channel (\<lambda>p. True) 100000 7 empty_server = (srv, Inr c) \<and>
     host_open_connection demo_env \<lparr>oc_user_name = ''ann'', oc_channel_id = 7, oc_client_id = 5\<rparr> srv =
       (srv', Inr \<lparr>cd_sock = SocketV4 0x7F000001 33333, cd_source_id = 77\<rparr>)"
  by (simp add: Voice_Server.assign_channel_def empty_server_def voice_server_new_def allocate_port_def
      ports_get_def channel_new_def host_open_connection_def Voice_Server.open_connection_def
      Voice_Server.get_channel_def healthy_def fwd_at_def channel_open_connection_def channel_request_def
      demo_env_def Let_def forwarder_new_def fwd_step_def Forwarder.open_connection_def set_fwd_def)

definition shared_env :: dist_env where
  "shared_env = \<lparr>de_lookup = split_env, de_net = Delivered, de_task = 0\<rparr>"

lemma shared_opening_performed:
  "\<exists>fl. dist_perform_all tally_urls shared_env 0 shared_opening
     ((world_new split_db split_fleet)\<lparr>dw_gateways := [\<lparr>dy_map = [], dy_leaves = []\<rparr>]\<rparr>) =
     Some (shared_world fl room_opened)"
proof -
  let ?q = "\<lparr>oc_user_name = ''ann'', oc_channel_id = 7, oc_client_id = 5\<rparr>"
    and ?r = "\<lparr>cd_sock = SocketV4 0x7F000001 33333, cd_source_id = 77\<rparr>"
  obtain srv c srv' where
    lookup: "Voice_Server.assign_channel (\<lambda>p. True) 100000 7 empty_server = (srv, Inr c)" and
    opened: "host_open_connection demo_env ?q srv = (srv', Inr ?r)"
    using shared_host by blast
  have request: "le_request split_env = demo_env" by (simp add: split_env_def)
  have "at_host ''a'' HostOther (remote_open_connection (base_texts tally_urls) Delivered demo_env ?q)
      (split_fleet(''a'' \<mapsto> srv)) = (split_fleet(''a'' \<mapsto> srv'), Inr ?r)"
    by (simp add: at_host_def remote_open_delivered [OF tally_urls_ok] opened)
  then show ?thesis
    by (simp add: shared_opening_def dist_perform_def shared_env_def answered_def world_new_def
        dist_get_def split_first_lookup [OF lookup] dist_init_state_def room_new_def dist_or_insert_def
        dist_put_def at_gateway_def shared_channel_def shared_world_def room_opened_def
        request Let_def)
qed

lemma shared_session:
  "\<exists>k. session_run demo_key shared_opening (session_start demo_key 3) = Some (JoinRoom 0 demo_member k)"
  by (simp add: shared_opening_def shared_channel_def session_start_def resume_def program_defs demo_member_def)

text \<open>The join is published and its task done.\<close>

lemma shared_session_joined:
  assumes "session_run demo_key shared_opening (session_start demo_key 3) = Some (JoinRoom 0 demo_member k)"
  shows "\<exists>p. session_run demo_key [AJoin 0 demo_member (Some shared_handle)] (JoinRoom 0 demo_member k) = Some p"
  by simp

definition shared_joining :: redis_room where
  "shared_joining = set_node 0 (the (redis_join demo_member redis_node_new)) room_opened"

definition shared_done :: redis_room where
  "shared_done = exec_first (exec_first shared_joining)"

lemmas shared_defs = demo_defs shared_joining_def shared_done_def shared_world_def shared_handle_def
  demo_member_def node_of_def room_of_def put_state_def set_room_def set_state_def

lemma shared_done_value:
  "rn_handles (rr_nodes shared_done ! 0) = [rh_joined shared_handle]" "length (rr_nodes shared_done) = 1"
  "rn_tasks (rr_nodes shared_done ! 0) = []" "rn_leaving (rr_nodes shared_done ! 0) = []"
  "list_members (rr_redis shared_done) = [demo_member]"
  by (simp_all add: shared_defs list_members_def)

lemma shared_join_begins:
  "redis_join demo_member (node_of 0 (shared_world fl room_opened)) =
     Some (the (redis_join demo_member redis_node_new))"
  "set_state 0 (the (redis_join demo_member redis_node_new)) (shared_world fl room_opened) =
     shared_world fl shared_joining"
  by (simp_all add: shared_defs)

lemma shared_join_stored:
  assumes "n = node_of 0 (shared_world fl shared_joining)"
  shows "0 < length (rn_tasks n)" and "1 < length (tk_cmds (rn_tasks n ! 0))"
    and "exec_task 5 0 (rr_redis (room_of 0 (shared_world fl shared_joining))) n = (redis, n') \<Longrightarrow>
      put_state 0 n' redis (shared_world fl shared_joining) = shared_world fl (exec_first shared_joining)"
  unfolding assms by (auto simp: shared_defs)

lemma shared_join_performed:
  "dist_perform tally_urls shared_env 0 True (AJoin 0 demo_member (Some shared_handle))
     (shared_world fl (exec_first shared_joining)) = Some (shared_world fl shared_done)"
  by (simp add: dist_perform_def dist_join_ends_def shared_env_def answered_def shared_defs)

definition shared_trace :: "string action list" where
  "shared_trace = shared_opening @ [AJoin 0 demo_member (Some shared_handle)]"

lemma shared_opened:
  "\<exists>fl k. (dist_step demo_key tally_urls False)\<^sup>*\<^sup>* (dist_start split_db split_fleet)
     \<lparr>dt_world = shared_world fl room_opened, dt_sessions = [\<lparr>ds_gateway = 0, ds_joining = False,
       ds_trace = shared_opening, ds_prog = JoinRoom 0 demo_member k\<rparr>]\<rparr>"
proof -
  obtain fl where fl: "dist_perform_all tally_urls shared_env 0 shared_opening
      ((world_new split_db split_fleet)\<lparr>dw_gateways := [\<lparr>dy_map = [], dy_leaves = []\<rparr>]\<rparr>) =
      Some (shared_world fl room_opened)"
    using shared_opening_performed by blast
  obtain k where k: "session_run demo_key shared_opening (session_start demo_key 3) =
      Some (JoinRoom 0 demo_member k)"
    using shared_session by blast
  let ?s0 = "dist_start split_db split_fleet"
  let ?s1 = "\<lparr>dt_world = (world_new split_db split_fleet)\<lparr>dw_gateways := [\<lparr>dy_map = [], dy_leaves = []\<rparr>]\<rparr>,
    dt_sessions = []\<rparr>"
  let ?d = "\<lparr>ds_gateway = 0, ds_joining = False, ds_trace = [], ds_prog = session_start demo_key 3\<rparr>"
  have "dist_step demo_key tally_urls False ?s0 ?s1"
    using dist_step.gateway [of demo_key tally_urls ?s0] by (simp add: dist_start_def world_new_def)
  moreover have "dist_step demo_key tally_urls False ?s1 (?s1\<lparr>dt_sessions := [?d]\<rparr>)"
    using dist_step.connect [of 0 ?s1 demo_key tally_urls 3] by simp
  moreover have "(dist_step demo_key tally_urls False)\<^sup>*\<^sup>* (?s1\<lparr>dt_sessions := [?d]\<rparr>)
      \<lparr>dt_world = shared_world fl room_opened, dt_sessions = [\<lparr>ds_gateway = 0, ds_joining = False,
        ds_trace = shared_opening, ds_prog = JoinRoom 0 demo_member k\<rparr>]\<rparr>"
    using dist_act_many [of 0 "?s1\<lparr>dt_sessions := [?d]\<rparr>" ?d demo_key shared_opening _ tally_urls shared_env] k fl
    by simp
  ultimately show ?thesis by (meson converse_rtranclp_into_rtranclp)
qed

lemma shared_system:
  "\<exists>s fl p. (dist_step demo_key tally_urls False)\<^sup>*\<^sup>* (dist_start split_db split_fleet) s \<and>
     s = \<lparr>dt_world = shared_world fl shared_done, dt_sessions = [\<lparr>ds_gateway = 0, ds_joining = False,
       ds_trace = shared_trace, ds_prog = p\<rparr>]\<rparr>"
proof -
  let ?s = "\<lambda>w joining tr p. \<lparr>dt_world = w, dt_sessions = [\<lparr>ds_gateway = 0, ds_joining = joining,
    ds_trace = tr, ds_prog = p\<rparr>]\<rparr>"
  obtain fl k where opened: "(dist_step demo_key tally_urls False)\<^sup>*\<^sup>* (dist_start split_db split_fleet)
      (?s (shared_world fl room_opened) False shared_opening (JoinRoom 0 demo_member k))"
    using shared_opened by blast
  let ?p = "JoinRoom 0 demo_member k" and ?tr = shared_opening
  have states: "0 < length (dw_states (shared_world fl r))" for r by (simp add: shared_world_def)
  have "dist_step demo_key tally_urls False (?s (shared_world fl room_opened) False ?tr ?p)
      (?s (shared_world fl shared_joining) True ?tr ?p)"
    using dist_step.join [of 0 "?s (shared_world fl room_opened) False ?tr ?p", OF _ refl, of 0 demo_member k
        "the (redis_join demo_member redis_node_new)" demo_key tally_urls] shared_join_begins states by simp
  moreover have "dist_step demo_key tally_urls False (?s (shared_world fl shared_joining) True ?tr ?p)
      (?s (shared_world fl (exec_first shared_joining)) True ?tr ?p)"
  proof -
    let ?w = "shared_world fl shared_joining"
    obtain redis n' where e: "exec_task 5 0 (rr_redis (room_of 0 ?w)) (node_of 0 ?w) = (redis, n')"
      by (cases "exec_task 5 0 (rr_redis (room_of 0 ?w)) (node_of 0 ?w)")
    show ?thesis
      using dist_step.command [of 0 "?s ?w True ?tr ?p" _ 0 5 redis n' demo_key tally_urls] e
        shared_join_stored [OF refl, of fl] states by simp
  qed
  moreover have "dist_step demo_key tally_urls False
      (?s (shared_world fl (exec_first shared_joining)) True ?tr ?p)
      (?s (shared_world fl shared_done) False shared_trace (resume demo_key (k (Some shared_handle))))"
    using dist_step.act [of 0 "?s (shared_world fl (exec_first shared_joining)) True ?tr ?p", OF _ refl,
        of "AJoin 0 demo_member (Some shared_handle)" _ tally_urls shared_env _ demo_key]
      shared_join_performed [of fl]
    by (simp add: shared_trace_def)
  ultimately have "(dist_step demo_key tally_urls False)\<^sup>*\<^sup>* (dist_start split_db split_fleet)
      (?s (shared_world fl shared_done) False shared_trace (resume demo_key (k (Some shared_handle))))"
    using opened by (meson rtranclp.rtrancl_into_rtrancl)
  then show ?thesis by blast
qed

theorem shared_rooms_and_sessions_agree_witness:
  "\<exists>s. rn_handles (node_of 0 (dt_world s)) = [rh_joined shared_handle] \<and>
     mset (rn_handles (node_of 0 (dt_world s))) = mset (held_handles 0 (runs_of s))"
proof -
  obtain s fl p where s: "(dist_step demo_key tally_urls False)\<^sup>*\<^sup>* (dist_start split_db split_fleet) s"
      "s = \<lparr>dt_world = shared_world fl shared_done, dt_sessions = [\<lparr>ds_gateway = 0, ds_joining = False,
        ds_trace = shared_trace, ds_prog = p\<rparr>]\<rparr>"
    using shared_system by blast
  have "(\<lambda>s s'. \<exists>l. dist_step demo_key tally_urls l s s')\<^sup>*\<^sup>* (dist_start split_db split_fleet) s"
    using s(1) by (rule mono_rtranclp [rule_format, rotated]) blast
  then have "mset (rn_handles (node_of 0 (dt_world s))) = mset (held_handles 0 (runs_of s))"
    using shared_rooms_and_sessions_agree [of demo_key tally_urls _ _ s 0] s(2) by (simp add: shared_world_def)
  moreover have "rn_handles (node_of 0 (dt_world s)) = [rh_joined shared_handle]"
    using s(2) shared_done_value by (simp add: node_of_def room_of_def shared_world_def)
  ultimately show ?thesis by blast
qed

theorem listed_members_have_sessions_witness:
  "\<exists>s. list_members (rr_redis (dw_rooms (dt_world s) 7)) = [demo_member] \<and>
     in_room 7 5 s \<and> \<not> under_way 7 5 s"
proof -
  obtain s fl p where s: "(dist_step demo_key tally_urls False)\<^sup>*\<^sup>* (dist_start split_db split_fleet) s"
      "s = \<lparr>dt_world = shared_world fl shared_done, dt_sessions = [\<lparr>ds_gateway = 0, ds_joining = False,
        ds_trace = shared_trace, ds_prog = p\<rparr>]\<rparr>"
    using shared_system by blast
  have room: "dw_rooms (dt_world s) 7 = shared_done" by (simp add: s(2) shared_world_def)
  have nodes: "rr_nodes shared_done = [rr_nodes shared_done ! 0]"
    using shared_done_value(2) by (auto simp: length_Suc_conv)
  have idle: "\<not> under_way 7 5 s"
    unfolding under_way_def room by (subst nodes) (simp add: shared_done_value)
  have "demo_member \<in> set (list_members (rr_redis (dw_rooms (dt_world s) 7)))"
    by (simp add: room shared_done_value)
  from listed_members_have_sessions [OF s(1) this] have "in_room 7 5 s"
    using idle by (simp add: demo_member_def)
  then show ?thesis using idle by (intro exI [of _ s] conjI) (simp add: room shared_done_value)
qed

end
