(* ===== verification/Client_Play.thy ===== *)
theory Client_Play
  imports Voice_Proto "HOL-Library.Multiset"
begin

text \<open>
  Playback in the client, \<open>client/src/play.rs\<close>: the jitter buffer of a voice stream (\<open>State\<close>), and the
  task that fills and drains it (\<open>play_stream\<close>). The decoder and the soft clipper are third-party
  code, functions of a state of their own; \<open>BinaryHeap\<close> does not say which of two packets with one
  sequence number it yields first: \<open>tie\<close> is that choice.
\<close>

section \<open>Queues by smallest key\<close>

text \<open>What the buffer expects of its heap.\<close>

locale min_queue =
  fixes nil :: 'q
    and ins :: "'a \<Rightarrow> 'q \<Rightarrow> 'q"
    and del_min :: "nat \<Rightarrow> 'q \<Rightarrow> ('a \<times> 'q) option"
    and items :: "'q \<Rightarrow> 'a multiset"
    and key :: "'a \<Rightarrow> 'k::linorder"
  assumes items_nil: "items nil = {#}"
    and items_ins: "items (ins x q) = add_mset x (items q)"
    and del_min_None: "del_min tie q = None \<longleftrightarrow> items q = {#}"
    and del_min_items: "del_min tie q = Some (x, q') \<Longrightarrow> items q = add_mset x (items q')"
    and del_min_least: "del_min tie q = Some (x, q') \<Longrightarrow> y \<in># items q \<Longrightarrow> key x \<le> key y"
begin

lemma del_min_ins: "\<exists>x q'. del_min tie (ins y q) = Some (x, q') \<and> key x \<le> key y"
proof (cases "del_min tie (ins y q)")
  case None
  then show ?thesis by (simp add: del_min_None items_ins)
next
  case (Some p)
  then show ?thesis
    using del_min_least [of tie "ins y q" "fst p" "snd p" y] by (cases p) (simp add: items_ins)
qed

lemma del_min_twice:
  "del_min tie q = Some (x, q1) \<Longrightarrow> del_min tie' q1 = Some (y, q2) \<Longrightarrow> key x \<le> key y"
  using del_min_least [of tie q x q1 y] del_min_items [of tie q x q1] del_min_items [of tie' q1 y q2]
  by simp

end

section \<open>The jitter buffer\<close>

record jvoice =
  jv_sequence :: u64
  jv_payload :: "u8 list"

definition jvoice_from :: "voice \<Rightarrow> jvoice" where
  "jvoice_from v = \<lparr>jv_sequence = sequence v, jv_payload = payload v\<rparr>"

definition heap_push :: "jvoice \<Rightarrow> jvoice list \<Rightarrow> jvoice list" where
  "heap_push v q = q @ [v]"

definition heap_pop :: "nat \<Rightarrow> jvoice list \<Rightarrow> (jvoice \<times> jvoice list) option" where
  "heap_pop tie q =
     (if q = [] then None
      else (let least = Min (set (map jv_sequence q));
                best = filter (\<lambda>v. jv_sequence v = least) q;
                v = best ! (tie mod length best)
            in Some (v, remove1 v q)))"

record jitter =
  jb_queue :: "jvoice list"
  next_expected :: u64

definition jitter_new :: jitter where
  "jitter_new = \<lparr>jb_queue = [], next_expected = 0\<rparr>"

text \<open>A packet that is too old is logged and queued all the same; \<open>+ 1\<close> wraps in a release build.\<close>

definition jitter_push :: "jvoice \<Rightarrow> jitter \<Rightarrow> jitter" where
  "jitter_push v st = st\<lparr>jb_queue := heap_push v (jb_queue st)\<rparr>"

definition jitter_pop :: "nat \<Rightarrow> jitter \<Rightarrow> jitter \<times> jvoice option" where
  "jitter_pop tie st = (case heap_pop tie (jb_queue st) of
      Some (v, q) \<Rightarrow> (st\<lparr>jb_queue := q, next_expected := jv_sequence v + 1\<rparr>, Some v)
    | None \<Rightarrow> (st\<lparr>next_expected := next_expected st + 1\<rparr>, None))"

definition jitter_tick :: "nat \<Rightarrow> jvoice \<Rightarrow> jitter \<Rightarrow> jitter \<times> jvoice option" where
  "jitter_tick tie v st =
     (if 3 \<le> length (jb_queue st)
      then (case jitter_pop tie st of (st', x) \<Rightarrow> (jitter_push v st', x))
      else if jv_sequence v = next_expected st
      then (st\<lparr>next_expected := jv_sequence v + 1\<rparr>, Some v)
      else (jitter_push v st, None))"

section \<open>The stream task\<close>

record ('d, 'pcm) codec =
  decode_float :: "'d \<Rightarrow> u8 list option \<Rightarrow> 'd \<times> 'pcm option"
  soft_clip :: "'d \<Rightarrow> 'pcm \<Rightarrow> 'd \<times> 'pcm option"

text \<open>The samples appended to the sink, and whether the task goes on: a decoding error is logged.\<close>

definition decode_and_submit ::
  "('d, 'pcm) codec \<Rightarrow> 'd \<Rightarrow> u8 list option \<Rightarrow> 'd \<times> 'pcm list \<times> bool" where
  "decode_and_submit cd d data = (case decode_float cd d data of
      (d', None) \<Rightarrow> (d', [], True)
    | (d', Some pcm) \<Rightarrow> (case soft_clip cd d' pcm of
          (d'', None) \<Rightarrow> (d'', [], False)
        | (d'', Some clipped) \<Rightarrow> (d'', [clipped], True)))"

record 'd play_stream =
  ps_inbox :: "voice list"
  ps_senders :: bool
  ps_jitter :: jitter
  ps_codec :: 'd
  ps_deadline :: instant
  ps_running :: bool

definition play_rx_new :: "'d \<Rightarrow> instant \<Rightarrow> 'd play_stream" where
  "play_rx_new d now = \<lparr>ps_inbox = [], ps_senders = True, ps_jitter = jitter_new, ps_codec = d,
     ps_deadline = now, ps_running = True\<rparr>"

datatype try_send_error = SendFull | SendClosed

definition play_tx_send :: "voice \<Rightarrow> 'd play_stream \<Rightarrow> 'd play_stream \<times> (try_send_error + unit)" where
  "play_tx_send v s =
     (if \<not> ps_running s then (s, Inl SendClosed)
      else if 3 \<le> length (ps_inbox s) then (s, Inl SendFull)
      else (s\<lparr>ps_inbox := ps_inbox s @ [v]\<rparr>, Inr ()))"

definition submit ::
  "('d, 'pcm) codec \<Rightarrow> u8 list option \<Rightarrow> 'd play_stream \<Rightarrow> 'd play_stream \<times> 'pcm list" where
  "submit cd data s = (case decode_and_submit cd (ps_codec s) data of
      (d, out, True) \<Rightarrow> (s\<lparr>ps_codec := d, ps_deadline := ps_deadline s + 20\<rparr>, out)
    | (d, out, False) \<Rightarrow> (s\<lparr>ps_codec := d, ps_running := False\<rparr>, out))"

text \<open>
  One turn of the loop at a time \<open>now\<close>, \<open>None\<close> while it waits. A message is taken first; the timer
  is looked at only when there is none.
\<close>

definition play_turn ::
  "('d, 'pcm) codec \<Rightarrow> nat \<Rightarrow> instant \<Rightarrow> 'd play_stream \<Rightarrow> ('d play_stream \<times> 'pcm list) option" where
  "play_turn cd tie now s =
     (if \<not> ps_running s then None
      else case ps_inbox s of
        v # rest \<Rightarrow>
          (case jitter_tick tie (jvoice_from v) (ps_jitter s) of
             (j, None) \<Rightarrow> Some (s\<lparr>ps_inbox := rest, ps_jitter := j\<rparr>, [])
           | (j, Some x) \<Rightarrow>
               Some (submit cd (Some (jv_payload x)) (s\<lparr>ps_inbox := rest, ps_jitter := j\<rparr>)))
      | [] \<Rightarrow>
          (if \<not> ps_senders s then Some (s\<lparr>ps_running := False\<rparr>, [])
           else if ps_deadline s \<le> now
           then (case jitter_pop tie (ps_jitter s) of
               (j, x) \<Rightarrow> Some (submit cd (map_option jv_payload x) (s\<lparr>ps_jitter := j\<rparr>)))
           else None))"

section \<open>The heap\<close>

lemma heap_pop_Some:
  assumes "heap_pop tie q = Some (v, q')"
  shows "v \<in> set q \<and> q' = remove1 v q \<and> (\<forall>w \<in> set q. jv_sequence v \<le> jv_sequence w)"
proof -
  let ?least = "Min (set (map jv_sequence q))"
  let ?best = "filter (\<lambda>v. jv_sequence v = ?least) q"
  have ne: "q \<noteq> []" and v: "v = ?best ! (tie mod length ?best)" "q' = remove1 v q"
    using assms by (auto simp: heap_pop_def Let_def split: if_splits)
  have "?least \<in> jv_sequence ` set q" using ne Min_in [of "set (map jv_sequence q)"] by simp
  then have "?best \<noteq> []" by (auto simp: filter_empty_conv)
  then have "?best ! (tie mod length ?best) \<in> set ?best" by (intro nth_mem) simp
  then have "v \<in> set ?best" by (simp only: v(1))
  then have "v \<in> set q" "jv_sequence v = ?least" by simp_all
  moreover have "?least \<le> jv_sequence w" if "w \<in> set q" for w
    using that by (intro Min_le) simp_all
  ultimately show ?thesis using v(2) by simp
qed

interpretation heap: min_queue "[]" heap_push heap_pop mset jv_sequence
proof
  show "mset [] = {#}" by simp
  show "mset (heap_push x q) = add_mset x (mset q)" for x q by (simp add: heap_push_def)
  show "heap_pop tie q = None \<longleftrightarrow> mset q = {#}" for tie q by (simp add: heap_pop_def Let_def)
  show "mset q = add_mset x (mset q')" if "heap_pop tie q = Some (x, q')" for tie q x q'
    using heap_pop_Some [OF that] by simp
  show "jv_sequence x \<le> jv_sequence y" if "heap_pop tie q = Some (x, q')" "y \<in># mset q" for tie q x q' y
    using heap_pop_Some [OF that(1)] that(2) by simp
qed

text \<open>From a queue in order the first one comes.\<close>

lemma heap_pop_sorted:
  assumes "sorted_wrt (<) (map jv_sequence (v # q))"
  shows "heap_pop tie (v # q) = Some (v, q)"
proof -
  obtain x q' where x: "heap_pop tie (v # q) = Some (x, q')"
    using heap.del_min_None [of tie "v # q"] by fastforce
  have "jv_sequence x \<le> jv_sequence v" "x \<in> set (v # q)" "q' = remove1 x (v # q)"
    using heap_pop_Some [OF x] by auto
  moreover have "jv_sequence v < jv_sequence w" if "w \<in> set q" for w using assms that by simp
  ultimately have "x = v" by fastforce
  then show ?thesis using x \<open>q' = remove1 x (v # q)\<close> by simp
qed

section \<open>Histories of the buffer\<close>

datatype jitter_event = Arrive jvoice | Timeout

text \<open>What is played: at a timeout of an empty buffer the decoder conceals a gap (\<open>None\<close>).\<close>

fun jitter_run :: "(nat \<times> jitter_event) list \<Rightarrow> jitter \<Rightarrow> jitter \<times> jvoice option list" where
  "jitter_run [] st = (st, [])"
| "jitter_run ((tie, Arrive v) # evs) st =
     (case jitter_tick tie v st of (st', x) \<Rightarrow>
        (case jitter_run evs st' of (st'', out) \<Rightarrow> (st'', (case x of None \<Rightarrow> out | Some y \<Rightarrow> Some y # out))))"
| "jitter_run ((tie, Timeout) # evs) st =
     (case jitter_pop tie st of (st', x) \<Rightarrow>
        (case jitter_run evs st' of (st'', out) \<Rightarrow> (st'', x # out)))"

fun arrivals :: "(nat \<times> jitter_event) list \<Rightarrow> jvoice list" where
  "arrivals [] = []"
| "arrivals ((tie, Arrive v) # evs) = v # arrivals evs"
| "arrivals ((tie, Timeout) # evs) = arrivals evs"

abbreviation played :: "jvoice option list \<Rightarrow> jvoice list" where
  "played out \<equiv> List.map_filter (\<lambda>x. x) out"

lemma played_simps [simp]:
  "played [] = []" "played (None # out) = played out" "played (Some v # out) = v # played out"
  by (simp_all add: map_filter_simps)

lemma jitter_pop_items:
  "jitter_pop tie st = (st', x) \<Longrightarrow>
     mset (jb_queue st) = mset (case x of None \<Rightarrow> [] | Some v \<Rightarrow> [v]) + mset (jb_queue st')"
  using heap.del_min_items [of tie "jb_queue st"]
  by (auto simp: jitter_pop_def split: option.splits)

lemma jitter_tick_items:
  assumes "jitter_tick tie v st = (st', x)"
  shows "add_mset v (mset (jb_queue st)) =
    mset (case x of None \<Rightarrow> [] | Some w \<Rightarrow> [w]) + mset (jb_queue st')"
  using assms jitter_pop_items [of tie st]
  by (auto simp: jitter_tick_def jitter_push_def heap.items_ins split: if_splits prod.splits)

lemma jitter_pop_length:
  "jitter_pop tie st = (st', x) \<Longrightarrow> length (jb_queue st') = length (jb_queue st) - 1"
  using jitter_pop_items [of tie st st' x] heap.del_min_None [of tie "jb_queue st"]
  by (auto simp: jitter_pop_def simp flip: size_mset split: option.splits)

lemma jitter_tick_length:
  "jitter_tick tie v st = (st', x) \<Longrightarrow> length (jb_queue st) \<le> 3 \<Longrightarrow> length (jb_queue st') \<le> 3"
  using jitter_pop_length [of tie st]
  by (auto simp: jitter_tick_def jitter_push_def heap_push_def split: if_splits prod.splits)

lemma jitter_run_conserves:
  "jitter_run evs st = (st', out) \<Longrightarrow> length (jb_queue st) \<le> 3 \<Longrightarrow>
     mset (played out) + mset (jb_queue st') = mset (jb_queue st) + mset (arrivals evs) \<and>
     length (jb_queue st') \<le> 3"
proof (induction evs st arbitrary: st' out rule: jitter_run.induct)
  case (2 tie v evs st)
  obtain st1 x where x: "jitter_tick tie v st = (st1, x)" by (cases "jitter_tick tie v st")
  obtain out1 where out1: "jitter_run evs st1 = (st', out1)"
      "out = (case x of None \<Rightarrow> out1 | Some y \<Rightarrow> Some y # out1)"
    using 2(2) x by (auto split: prod.splits)
  have "mset (played out1) + mset (jb_queue st') = mset (jb_queue st1) + mset (arrivals evs) \<and>
      length (jb_queue st') \<le> 3"
    using 2(1) [OF x [symmetric] out1(1)] jitter_tick_length [OF x 2(3)] by simp
  then show ?case
    using jitter_tick_items [OF x] out1(2) by (cases x) (simp_all add: ac_simps)
next
  case (3 tie evs st)
  obtain st1 x where x: "jitter_pop tie st = (st1, x)" by (cases "jitter_pop tie st")
  obtain out1 where out1: "jitter_run evs st1 = (st', out1)" "out = x # out1"
    using 3(2) x by (auto split: prod.splits)
  have "mset (played out1) + mset (jb_queue st') = mset (jb_queue st1) + mset (arrivals evs) \<and>
      length (jb_queue st') \<le> 3"
    using 3(1) [OF x [symmetric] out1(1)] jitter_pop_length [OF x] 3(3) by simp
  then show ?case
    using jitter_pop_items [OF x] out1(2) by (cases x) (simp_all add: ac_simps)
qed simp

lemma jitter_buffer_conserves:
  "jitter_run evs jitter_new = (st, out) \<Longrightarrow>
     mset (played out) + mset (jb_queue st) = mset (arrivals evs) \<and> length (jb_queue st) \<le> 3"
  using jitter_run_conserves [of evs jitter_new st out] by (simp add: jitter_new_def)

text \<open>A run continued by one event.\<close>

lemma jitter_run_append:
  "jitter_run (evs @ evs') st = (case jitter_run evs st of (st1, out1) \<Rightarrow>
     (case jitter_run evs' st1 of (st2, out2) \<Rightarrow> (st2, out1 @ out2)))"
  by (induction evs st rule: jitter_run.induct) (auto split: prod.splits option.splits)

lemma arrivals_append [simp]: "arrivals (evs @ evs') = arrivals evs @ arrivals evs'"
  by (induction evs rule: arrivals.induct) simp_all

section \<open>Histories of a stream\<close>

text \<open>
  Packets are sent and turns are taken, in any order; \<open>got\<close> are the packets the stream has accepted,
  \<open>sounds\<close> what it has appended to the sink, with a decoder that began in state \<open>d0\<close>.
\<close>

inductive play_reach ::
  "('d, 'pcm) codec \<Rightarrow> instant \<Rightarrow> 'd \<Rightarrow> 'd play_stream \<Rightarrow> voice list \<Rightarrow> 'pcm list \<Rightarrow> bool"
  for cd :: "('d, 'pcm) codec" and t0 :: instant and d0 :: 'd where
  start: "play_reach cd t0 d0 (play_rx_new d0 t0) [] []"
| send: "play_reach cd t0 d0 s got sounds \<Longrightarrow> play_tx_send v s = (s', r) \<Longrightarrow>
     play_reach cd t0 d0 s' (case r of Inl e \<Rightarrow> got | Inr u \<Rightarrow> got @ [v]) sounds"
| hang_up: "play_reach cd t0 d0 s got sounds \<Longrightarrow>
     play_reach cd t0 d0 (s\<lparr>ps_senders := False\<rparr>) got sounds"
| turn: "play_reach cd t0 d0 s got sounds \<Longrightarrow> play_turn cd tie now s = Some (s', out) \<Longrightarrow>
     play_reach cd t0 d0 s' got (sounds @ out)"

text \<open>
  What a sequence of frames sounds like, and the decoder after it: each frame is decoded, \<open>None\<close> as
  a gap to conceal, and clipped; a frame that cannot be decoded or clipped is silent.
\<close>

fun sound_of :: "('d, 'pcm) codec \<Rightarrow> 'd \<Rightarrow> u8 list option list \<Rightarrow> 'd \<times> 'pcm list" where
  "sound_of cd d [] = (d, [])"
| "sound_of cd d (frame # frames) = (case decode_float cd d frame of
      (d1, None) \<Rightarrow> sound_of cd d1 frames
    | (d1, Some pcm) \<Rightarrow> (case soft_clip cd d1 pcm of
          (d2, None) \<Rightarrow> sound_of cd d2 frames
        | (d2, Some clipped) \<Rightarrow> (case sound_of cd d2 frames of (d3, out) \<Rightarrow> (d3, clipped # out))))"

lemma sound_of_append:
  "sound_of cd d (xs @ ys) = (case sound_of cd d xs of (d1, out1) \<Rightarrow>
     (case sound_of cd d1 ys of (d2, out2) \<Rightarrow> (d2, out1 @ out2)))"
  by (induction xs arbitrary: d) (auto split: prod.splits option.splits)

lemma submit_facts:
  assumes "submit cd frame s = (s', out)"
  shows "ps_inbox s' = ps_inbox s \<and> ps_jitter s' = ps_jitter s \<and>
    sound_of cd (ps_codec s) [frame] = (ps_codec s', out) \<and>
    (\<not> ps_running s' \<or> ps_running s \<and> ps_deadline s' = ps_deadline s + 20)"
  using assms by (auto simp: submit_def decode_and_submit_def split: prod.splits option.splits bool.splits)

definition stream_inv ::
  "('d, 'pcm) codec \<Rightarrow> instant \<Rightarrow> 'd \<Rightarrow> 'd play_stream \<Rightarrow> voice list \<Rightarrow> 'pcm list \<Rightarrow>
     (nat \<times> jitter_event) list \<Rightarrow> jvoice option list \<Rightarrow> bool" where
  "stream_inv cd t0 d0 s got sounds evs frames \<longleftrightarrow> length (ps_inbox s) \<le> 3 \<and>
     map jvoice_from got = arrivals evs @ map jvoice_from (ps_inbox s) \<and>
     jitter_run evs jitter_new = (ps_jitter s, frames) \<and>
     sound_of cd d0 (map (map_option jv_payload) frames) = (ps_codec s, sounds) \<and>
     (\<not> ps_running s \<or> ps_deadline s = t0 + 20 * length frames)"

lemma stream_inv_turn:
  assumes "stream_inv cd t0 d0 s got sounds evs frames"
    and turn: "play_turn cd tie now s = Some (s', out)"
  shows "\<exists>evs' frames'. stream_inv cd t0 d0 s' got (sounds @ out) evs' frames'"
proof -
  have running: "ps_running s" using turn by (auto simp: play_turn_def split: if_splits)
  have inv: "length (ps_inbox s) \<le> 3" "map jvoice_from got = arrivals evs @ map jvoice_from (ps_inbox s)"
    "jitter_run evs jitter_new = (ps_jitter s, frames)" "ps_deadline s = t0 + 20 * length frames"
    "sound_of cd d0 (map (map_option jv_payload) frames) = (ps_codec s, sounds)"
    using assms(1) running by (simp_all add: stream_inv_def)
  note unfolds = stream_inv_def jitter_run_append sound_of_append inv
  show ?thesis
  proof (cases "ps_inbox s")
    case (Cons v rest)
    obtain j x where x: "jitter_tick tie (jvoice_from v) (ps_jitter s) = (j, x)"
      by (cases "jitter_tick tie (jvoice_from v) (ps_jitter s)")
    have "stream_inv cd t0 d0 s' got (sounds @ out) (evs @ [(tie, Arrive (jvoice_from v))])
        (frames @ (case x of None \<Rightarrow> [] | Some y \<Rightarrow> [Some y]))"
      using turn running Cons x inv(1,2,4,5)
        submit_facts [of cd "Some (jv_payload (the x))" "s\<lparr>ps_inbox := rest, ps_jitter := j\<rparr>" s' out]
      by (cases x) (auto simp: play_turn_def unfolds simp del: sound_of.simps(2))
    then show ?thesis by blast
  next
    case Nil
    show ?thesis
    proof (cases "ps_senders s")
      case True
      obtain j x where x: "jitter_pop tie (ps_jitter s) = (j, x)" by (cases "jitter_pop tie (ps_jitter s)")
      have "stream_inv cd t0 d0 s' got (sounds @ out) (evs @ [(tie, Timeout)]) (frames @ [x])"
        using turn running Nil True x inv(1,2,4,5)
          submit_facts [of cd "map_option jv_payload x" "s\<lparr>ps_jitter := j\<rparr>" s' out]
        by (auto simp: play_turn_def unfolds simp del: sound_of.simps(2) split: if_splits)
      then show ?thesis by blast
    next
      case False
      then have "stream_inv cd t0 d0 s' got (sounds @ out) evs frames"
        using turn running Nil inv by (auto simp: play_turn_def stream_inv_def)
      then show ?thesis by blast
    qed
  qed
qed

lemma play_reach_inv:
  "play_reach cd t0 d0 s got sounds \<Longrightarrow> \<exists>evs frames. stream_inv cd t0 d0 s got sounds evs frames"
proof (induction rule: play_reach.induct)
  case start
  have "stream_inv cd t0 d0 (play_rx_new d0 t0) [] [] [] []"
    by (simp add: stream_inv_def play_rx_new_def)
  then show ?case by blast
next
  case (send s got sounds v s' r)
  then obtain evs frames where "stream_inv cd t0 d0 s got sounds evs frames" by blast
  then have "stream_inv cd t0 d0 s' (case r of Inl e \<Rightarrow> got | Inr u \<Rightarrow> got @ [v]) sounds evs frames"
    using send.hyps(2) by (auto simp: stream_inv_def play_tx_send_def split: if_splits)
  then show ?case by blast
next
  case (hang_up s got sounds)
  then show ?case by (simp add: stream_inv_def)
next
  case (turn s got sounds tie now s' out)
  obtain evs frames where "stream_inv cd t0 d0 s got sounds evs frames" using turn.IH by blast
  then show ?case using turn.hyps(2) by (rule stream_inv_turn)
qed

text \<open>
  C15: A voice stream accounts for every packet it accepts, and plays what it accounts for. Whatever
  arrives, in whatever order and whatever the timing, there is one sequence of frames, packets and
  concealed gaps, such that the sound the stream has appended to the sink is exactly the decoding
  of those frames in order; each packet the stream has accepted is one of these frames exactly
  once, or one of at most three in the jitter buffer, or one of at most three waiting for the task;
  the frames are the ones the jitter buffer releases; and while the stream runs its deadline is
  20 milliseconds ahead for every frame.
\<close>

theorem stream_accounts_for_packets:
  assumes "play_reach cd t0 d0 s got sounds"
  shows "\<exists>evs frames. sound_of cd d0 (map (map_option jv_payload) frames) = (ps_codec s, sounds) \<and>
    mset (map jvoice_from got) = mset (played frames) +
      mset (jb_queue (ps_jitter s)) + mset (map jvoice_from (ps_inbox s)) \<and>
    jitter_run evs jitter_new = (ps_jitter s, frames) \<and>
    map jvoice_from got = arrivals evs @ map jvoice_from (ps_inbox s) \<and>
    length (jb_queue (ps_jitter s)) \<le> 3 \<and> length (ps_inbox s) \<le> 3 \<and>
    (\<not> ps_running s \<or> ps_deadline s = t0 + 20 * length frames)"
proof -
  obtain evs frames where inv: "stream_inv cd t0 d0 s got sounds evs frames"
    using play_reach_inv [OF assms] by blast
  then have "mset (map jvoice_from got) = mset (arrivals evs) + mset (map jvoice_from (ps_inbox s))"
    unfolding stream_inv_def by (metis mset_append)
  then show ?thesis
    using inv jitter_buffer_conserves [of evs "ps_jitter s" frames]
    by (intro exI [of _ evs] exI [of _ frames]) (simp add: stream_inv_def)
qed

text \<open>A codec that is always silent, and one whose sound is the frame itself.\<close>

definition silent_codec :: "(unit, unit) codec" where
  "silent_codec = \<lparr>decode_float = (\<lambda>d x. (d, Some ())), soft_clip = (\<lambda>d p. (d, Some p))\<rparr>"

definition echo_codec :: "(unit, u8 list option) codec" where
  "echo_codec = \<lparr>decode_float = (\<lambda>d x. (d, Some x)), soft_clip = (\<lambda>d p. (d, Some p))\<rparr>"

lemma sound_of_echo: "sound_of echo_codec d frames = (d, frames)"
  by (induction frames) (simp_all add: echo_codec_def)

theorem stream_accounts_for_packets_witness:
  "\<exists>s. play_reach echo_codec 1000 () s
      [\<lparr>sequence = 0, stream_time = 0, source_id = 1, payload = [9]\<rparr>,
       \<lparr>sequence = 2, stream_time = 0, source_id = 1, payload = [8]\<rparr>] [Some [9]] \<and>
    jb_queue (ps_jitter s) = [\<lparr>jv_sequence = 2, jv_payload = [8]\<rparr>] \<and> ps_deadline s = 1020"
proof -
  let ?v = "\<lparr>sequence = 0, stream_time = 0, source_id = 1, payload = [9]\<rparr>"
  let ?w = "\<lparr>sequence = 2, stream_time = 0, source_id = 1, payload = [8]\<rparr>"
  let ?s0 = "play_rx_new () 1000"
  let ?s1 = "?s0\<lparr>ps_inbox := [?v]\<rparr>" and ?s2 = "?s0\<lparr>ps_inbox := [?v, ?w]\<rparr>"
  let ?s3 = "?s0\<lparr>ps_inbox := [?w], ps_jitter := \<lparr>jb_queue = [], next_expected = 1\<rparr>, ps_deadline := 1020\<rparr>"
  let ?s4 = "?s3\<lparr>ps_inbox := [],
    ps_jitter := \<lparr>jb_queue = [\<lparr>jv_sequence = 2, jv_payload = [8]\<rparr>], next_expected = 1\<rparr>\<rparr>"
  have r0: "play_reach echo_codec 1000 () ?s0 [] []" by (rule play_reach.start)
  have r1: "play_reach echo_codec 1000 () ?s1 [?v] []"
    using play_reach.send [OF r0, of ?v ?s1 "Inr ()"] by (simp add: play_tx_send_def play_rx_new_def)
  have r2: "play_reach echo_codec 1000 () ?s2 [?v, ?w] []"
    using play_reach.send [OF r1, of ?w ?s2 "Inr ()"] by (simp add: play_tx_send_def play_rx_new_def)
  have "play_turn echo_codec 0 1000 ?s2 = Some (?s3, [Some [9]])"
    by (simp add: play_turn_def play_rx_new_def jitter_tick_def jitter_new_def submit_def
        decode_and_submit_def echo_codec_def jvoice_from_def)
  from play_reach.turn [OF r2 this]
  have r3: "play_reach echo_codec 1000 () ?s3 [?v, ?w] [Some [9]]" by simp
  have "play_turn echo_codec 0 1000 ?s3 = Some (?s4, [])"
    by (simp add: play_turn_def play_rx_new_def jitter_tick_def jitter_push_def heap_push_def
        jvoice_from_def)
  from play_reach.turn [OF r3 this]
  have r4: "play_reach echo_codec 1000 () ?s4 [?v, ?w] [Some [9]]" by simp
  have "ps_deadline ?s4 = 1020"
    using stream_accounts_for_packets [OF r4] by (auto simp: sound_of_echo play_rx_new_def)
  moreover have "jb_queue (ps_jitter ?s4) = [\<lparr>jv_sequence = 2, jv_payload = [8]\<rparr>]" by simp
  ultimately show ?thesis using r4 by blast
qed

section \<open>Order\<close>

text \<open>The buffer while packets arrive in order: ordered, and nothing in it is behind \<open>next_expected\<close>.\<close>

definition ahead :: "jitter \<Rightarrow> jvoice list \<Rightarrow> bool" where
  "ahead st vs \<longleftrightarrow> sorted_wrt (<) (map jv_sequence (jb_queue st @ vs)) \<and>
     (\<forall>v \<in> set (jb_queue st @ vs). next_expected st \<le> jv_sequence v \<and> jv_sequence v < - 1)"

lemma next_le: "(a :: u64) < b \<Longrightarrow> a + 1 \<le> b"
  by (simp add: inc_le)

lemma ahead_pop:
  assumes "ahead st vs" and "jb_queue st = v # q"
  shows "jitter_pop tie st = (st\<lparr>jb_queue := q, next_expected := jv_sequence v + 1\<rparr>, Some v) \<and>
    ahead (st\<lparr>jb_queue := q, next_expected := jv_sequence v + 1\<rparr>) vs"
proof -
  have "sorted_wrt (<) (map jv_sequence (v # q))"
    using assms by (simp add: ahead_def sorted_wrt_append)
  then have "heap_pop tie (v # q) = Some (v, q)" by (rule heap_pop_sorted)
  then show ?thesis
    using assms by (auto simp: ahead_def jitter_pop_def sorted_wrt_append intro: next_le)
qed

lemma ahead_push:
  assumes "ahead st (v # vs)"
  shows "jb_queue (jitter_push v st) = jb_queue st @ [v] \<and> ahead (jitter_push v st) vs"
  using assms by (simp add: ahead_def jitter_push_def heap_push_def)

lemma ahead_push_pop:
  assumes "ahead st (v # vs)" and "jb_queue st = w # q"
  shows "ahead (jitter_push v (st\<lparr>jb_queue := q, next_expected := jv_sequence w + 1\<rparr>)) vs"
  using ahead_pop [OF assms] ahead_push by blast

lemma ahead_ready:
  assumes "ahead st (v # vs)" and "jv_sequence v = next_expected st"
  shows "jb_queue st = [] \<and> ahead (st\<lparr>next_expected := jv_sequence v + 1\<rparr>) vs"
proof -
  have "jb_queue st = []"
  proof (rule ccontr)
    assume "jb_queue st \<noteq> []"
    then obtain w where w: "w \<in> set (jb_queue st)" by (cases "jb_queue st") auto
    then have "jv_sequence w < jv_sequence v" "next_expected st \<le> jv_sequence w"
      using assms(1) by (auto simp: ahead_def sorted_wrt_append)
    then show False using assms(2) by simp
  qed
  then show ?thesis using assms by (auto simp: ahead_def intro: next_le)
qed

lemma jitter_run_fifo:
  "jitter_run evs st = (st', out) \<Longrightarrow> ahead st (arrivals evs) \<Longrightarrow> None \<notin> set out \<Longrightarrow>
     played out @ jb_queue st' = jb_queue st @ arrivals evs"
proof (induction evs st arbitrary: st' out rule: jitter_run.induct)
  case (2 tie v evs st)
  obtain st1 x where x: "jitter_tick tie v st = (st1, x)" by (cases "jitter_tick tie v st")
  obtain out1 where out1: "jitter_run evs st1 = (st', out1)"
      "out = (case x of None \<Rightarrow> out1 | Some y \<Rightarrow> Some y # out1)"
    using 2(2) x by (auto split: prod.splits)
  have step: "(case x of None \<Rightarrow> [] | Some y \<Rightarrow> [y]) @ jb_queue st1 = jb_queue st @ [v] \<and>
      ahead st1 (arrivals evs)"
  proof (cases "3 \<le> length (jb_queue st)")
    case True
    then obtain w q where q: "jb_queue st = w # q" by (cases "jb_queue st") auto
    have ord: "ahead st (v # arrivals evs)" using 2(3) by simp
    have st1: "st1 = jitter_push v (st\<lparr>jb_queue := q, next_expected := jv_sequence w + 1\<rparr>)" "x = Some w"
      using x True ahead_pop [OF ord q, of tie] by (simp_all add: jitter_tick_def)
    show ?thesis
      using ahead_push_pop [OF ord q] q by (simp add: st1 jitter_push_def heap_push_def)
  next
    case False
    then show ?thesis
      using x 2(3) ahead_push [of st v "arrivals evs"] ahead_ready [of st v "arrivals evs"]
      by (auto simp: jitter_tick_def split: if_splits)
  qed
  have "None \<notin> set out1" using 2(4) out1(2) by (auto split: option.splits)
  then have "played out1 @ jb_queue st' = jb_queue st1 @ arrivals evs"
    using 2(1) [OF x [symmetric] out1(1)] step by simp
  then show ?case using step out1(2) by (cases x) auto
next
  case (3 tie evs st)
  obtain st1 x where x: "jitter_pop tie st = (st1, x)" by (cases "jitter_pop tie st")
  obtain out1 where out1: "jitter_run evs st1 = (st', out1)" "out = x # out1"
    using 3(2) x by (auto split: prod.splits)
  show ?case
  proof (cases "jb_queue st")
    case Nil
    then have "x = None" using x by (auto simp: jitter_pop_def heap_pop_def)
    then show ?thesis using 3(4) out1(2) by simp
  next
    case (Cons w q)
    have ord: "ahead st (arrivals evs)" using 3(3) by simp
    have st1: "st1 = st\<lparr>jb_queue := q, next_expected := jv_sequence w + 1\<rparr>" "x = Some w"
      using x ahead_pop [OF ord Cons, of tie] by simp_all
    have "played out1 @ jb_queue st' = jb_queue st1 @ arrivals evs"
      using 3(1) [OF x [symmetric] out1(1)] ahead_pop [OF ord Cons, of tie] 3(4) out1(2)
      by (simp add: st1)
    then show ?thesis using out1(2) Cons by (simp add: st1)
  qed
qed simp

text \<open>
  In order until the buffer runs dry. When packets arrive in the order of their sequence numbers
  and the timer never finds the buffer empty, the client plays exactly the packets that have
  arrived, in order, except for the last ones, which are the ones still buffered.
\<close>

theorem playback_in_order:
  assumes "jitter_run evs jitter_new = (st, out)"
    and "sorted_wrt (<) (map jv_sequence (arrivals evs))"
    and "\<forall>v \<in> set (arrivals evs). jv_sequence v < - 1"
    and "None \<notin> set out"
  shows "played out @ jb_queue st = arrivals evs"
  using jitter_run_fifo [OF assms(1) _ assms(4)] assms(2,3) by (simp add: ahead_def jitter_new_def)

theorem playback_in_order_witness:
  "played (snd (jitter_run [(0, Arrive \<lparr>jv_sequence = 5, jv_payload = [1]\<rparr>),
       (0, Arrive \<lparr>jv_sequence = 7, jv_payload = [2]\<rparr>), (0, Timeout)] jitter_new)) =
     [\<lparr>jv_sequence = 5, jv_payload = [1]\<rparr>]"
proof -
  let ?a = "\<lparr>jv_sequence = 5, jv_payload = [1]\<rparr>" and ?b = "\<lparr>jv_sequence = 7, jv_payload = [2]\<rparr>"
  let ?evs = "[(0, Arrive ?a), (0, Arrive ?b), (0, Timeout)]"
  have "heap_pop 0 [?a, ?b] = Some (?a, [?b])" by (rule heap_pop_sorted) simp
  then have run: "jitter_run ?evs jitter_new = (\<lparr>jb_queue = [?b], next_expected = 6\<rparr>, [Some ?a])"
    by (simp add: jitter_tick_def jitter_new_def jitter_push_def heap_push_def jitter_pop_def)
  have "played [Some ?a] @ [?b] = [?a, ?b]"
    using playback_in_order [OF run] by simp
  then show ?thesis unfolding run by simp
qed

text \<open>
  After a gap, packets are swapped. Once the timer has found the buffer empty it expects the
  packet after the missing one: when the missing packet and its successor then arrive together, in
  order, the successor is played first.
\<close>

theorem packets_swapped_after_gap:
  "snd (jitter_run [(t, Timeout), (t, Arrive \<lparr>jv_sequence = n, jv_payload = xs\<rparr>),
       (t, Arrive \<lparr>jv_sequence = n + 1, jv_payload = ys\<rparr>), (t, Timeout)]
     \<lparr>jb_queue = [], next_expected = n\<rparr>) =
   [None, Some \<lparr>jv_sequence = n + 1, jv_payload = ys\<rparr>, Some \<lparr>jv_sequence = n, jv_payload = xs\<rparr>]"
  by (simp add: jitter_tick_def jitter_push_def heap_push_def jitter_pop_def heap_pop_def)

end
