(* ===== verification/Client_Udp.thy ===== *)
theory Client_Udp
  imports Voice_Crypto Client_Play
begin

text \<open>
  The client's side of the voice datagrams: \<open>client/src/udp.rs\<close> with the discovery of its own address,
  the task that sends the microphone (\<open>udp_tx\<close>) and the task that receives and distributes voice
  (\<open>udp_rx\<close>), over the socket of \<open>server/udp-proto/src/lib.rs\<close>. Encoding, cipher, the operating
  system and the texts of addresses are arguments.
\<close>

section \<open>The socket\<close>

datatype io_kind = IoNotFound | IoPermissionDenied | IoAddrInUse | IoConnectionRefused | IoOtherKind

datatype udp_error = IoError io_kind | DecodeError | EncodeError

definition fatal :: "udp_error \<Rightarrow> bool" where
  "fatal e = (case e of
      IoError k \<Rightarrow> k \<in> {IoNotFound, IoPermissionDenied, IoAddrInUse, IoConnectionRefused}
    | DecodeError \<Rightarrow> True
    | EncodeError \<Rightarrow> True)"

definition DEFAULT_BUF_SIZE :: nat where
  "DEFAULT_BUF_SIZE = 1600"

text \<open>\<open>os_send\<close> is what the operating system says to a datagram.\<close>

record udp_io =
  uio_encode :: "client_message \<Rightarrow> u8 list"
  uio_decode :: "u8 list \<Rightarrow> server_message option"
  uio_os_send :: "u8 list \<Rightarrow> io_kind option"
  uio_enc :: "u8 list cipher"
  uio_dec :: "u8 list cipher"

text \<open>A message that does not fit the buffer cannot be encoded; a datagram is cut to its size.\<close>

definition udp_send :: "udp_io \<Rightarrow> client_message \<Rightarrow> udp_error + u8 list" where
  "udp_send io m =
     (let bs = uio_encode io m
      in if DEFAULT_BUF_SIZE < length bs then Inl EncodeError
         else case uio_os_send io bs of Some k \<Rightarrow> Inl (IoError k) | None \<Rightarrow> Inr bs)"

definition udp_recv :: "udp_io \<Rightarrow> io_kind + u8 list \<Rightarrow> udp_error + server_message" where
  "udp_recv io inb = (case inb of
      Inl k \<Rightarrow> Inl (IoError k)
    | Inr bs \<Rightarrow> (case uio_decode io (take DEFAULT_BUF_SIZE bs) of
          None \<Rightarrow> Inl DecodeError | Some m \<Rightarrow> Inr m))"

section \<open>Discovery\<close>

datatype setup_error = SetupUdp udp_error | SetupTimeout | SetupBadData

text \<open>
  One attempt: the request is sent, and the next datagram is the answer; \<open>None\<close> when none comes
  for 100 milliseconds. The port is cut to 16 bits.
\<close>

definition discover_ip ::
  "udp_io \<Rightarrow> u8 list \<Rightarrow> u32 \<Rightarrow> (io_kind + u8 list) option \<Rightarrow> setup_error + socket_addr" where
  "discover_ip io uuid_bytes src inb =
     (case udp_send io (client_ip_disco \<lparr>disco_uuid = uuid_bytes, disco_source_id = src\<rparr>) of
        Inl e \<Rightarrow> Inl (SetupUdp e)
      | Inr bs \<Rightarrow> (case inb of
          None \<Rightarrow> Inl SetupTimeout
        | Some x \<Rightarrow> (case udp_recv io x of
            Inl e \<Rightarrow> Inl (SetupUdp e)
          | Inr msg \<Rightarrow> (case sm_message msg of
              Some (SIpDisco d) \<Rightarrow> Inr (sa_from (disco_ip d) (ucast (disco_port d)))
            | _ \<Rightarrow> Inl SetupBadData))))"

section \<open>Sending the microphone\<close>

definition KEEPALIVE_INTERVAL :: instant where
  "KEEPALIVE_INTERVAL = 5000"

record udp_tx =
  tx_deadline :: instant
  tx_start_seq :: u64
  tx_sequence :: u64
  tx_stream_time :: u64
  tx_sent :: u64              \<comment> \<open>the counter shared with the receiving task\<close>
  tx_running :: bool

definition udp_tx_new :: "instant \<Rightarrow> u64 \<Rightarrow> u64 \<Rightarrow> udp_tx" where
  "udp_tx_new now start_seq_num stream_time0 = \<lparr>tx_deadline = now + KEEPALIVE_INTERVAL,
     tx_start_seq = start_seq_num, tx_sequence = start_seq_num, tx_stream_time = stream_time0,
     tx_sent = 0, tx_running = True\<rparr>"

text \<open>\<open>TxTimer\<close> carries the wall clock and the number of packets received so far.\<close>

datatype tx_event = TxVoice "u8 list" | TxMicDead | TxTimer u64 u64

definition tx_stop :: "udp_tx \<Rightarrow> udp_tx" where
  "tx_stop t = t\<lparr>tx_running := False\<rparr>"

definition tx_voice ::
  "udp_io \<Rightarrow> u8 list \<Rightarrow> u32 \<Rightarrow> u8 list \<Rightarrow> udp_tx \<Rightarrow> udp_tx \<times> client_message list" where
  "tx_voice io key src frame t =
     (case voice_encrypt (uio_enc io) key frame (tx_sequence t) (tx_stream_time t) of
        None \<Rightarrow> (tx_stop t, [])
      | Some secret \<Rightarrow>
          (let m = client_voice \<lparr>sequence = tx_sequence t, stream_time = tx_stream_time t,
                     source_id = src, payload = secret\<rparr>
           in case udp_send io m of
                Inl e \<Rightarrow> (tx_stop t, [])
              | Inr bs \<Rightarrow> (t\<lparr>tx_sequence := tx_sequence t + 1,
                           tx_stream_time := tx_stream_time t + 960\<rparr>, [m])))"

text \<open>\<open>swap\<close> yields the value of before: the ping reports what had been sent at the last ping.\<close>

definition tx_ping ::
  "udp_io \<Rightarrow> u32 \<Rightarrow> u64 \<Rightarrow> u64 \<Rightarrow> udp_tx \<Rightarrow> udp_tx \<times> client_message list" where
  "tx_ping io src clock received t =
     (let m = client_ping \<lparr>ping_seq = clock, ping_recv = received, ping_sent = tx_sent t,
                ping_source_id = src\<rparr>;
          t' = t\<lparr>tx_sent := tx_sequence t - tx_start_seq t\<rparr>
      in case udp_send io m of
           Inl e \<Rightarrow> (tx_stop t', [])
         | Inr bs \<Rightarrow> (t'\<lparr>tx_deadline := tx_deadline t' + KEEPALIVE_INTERVAL\<rparr>, [m]))"

definition udp_tx_step ::
  "udp_io \<Rightarrow> u8 list \<Rightarrow> u32 \<Rightarrow> bool \<Rightarrow> tx_event \<Rightarrow> udp_tx \<Rightarrow> udp_tx \<times> client_message list" where
  "udp_tx_step io key src mute ev t =
     (if \<not> tx_running t then (t, [])
      else case ev of
        TxVoice frame \<Rightarrow> (if mute then (t, []) else tx_voice io key src frame t)
      | TxMicDead \<Rightarrow> (tx_stop t, [])
      | TxTimer clock received \<Rightarrow> tx_ping io src clock received t)"

fun udp_tx_run ::
  "udp_io \<Rightarrow> u8 list \<Rightarrow> u32 \<Rightarrow> bool \<Rightarrow> tx_event list \<Rightarrow> udp_tx \<Rightarrow> udp_tx \<times> client_message list" where
  "udp_tx_run io key src mute [] t = (t, [])"
| "udp_tx_run io key src mute (ev # evs) t =
     (case udp_tx_step io key src mute ev t of (t', out) \<Rightarrow>
        (case udp_tx_run io key src mute evs t' of (t'', out') \<Rightarrow> (t'', out @ out')))"

section \<open>Receiving\<close>

datatype voice_event = VeAlreadyPresent u32 | VeJoined u32 | VeLeft u32

datatype rx_status = RxRunning | RxDone | RxFailed | RxPanicked

text \<open>\<open>rx_plays\<close> holds every stream ever started; \<open>rx_current\<close> names the current ones by position.\<close>

record 'd udp_rx =
  rx_current :: "(u32, nat) btree_map"
  rx_plays :: "'d play_stream list"
  rx_received :: u64          \<comment> \<open>the counter shared with the sending task\<close>
  rx_status :: rx_status

definition udp_rx_new :: "'d udp_rx" where
  "udp_rx_new = \<lparr>rx_current = [], rx_plays = [], rx_received = 0, rx_status = RxRunning\<rparr>"

text \<open>The sender of a stream that leaves the map is dropped.\<close>

definition hang_up :: "u32 \<Rightarrow> 'd udp_rx \<Rightarrow> 'd udp_rx" where
  "hang_up q rx = (case map_of (rx_current rx) q of
      None \<Rightarrow> rx
    | Some i \<Rightarrow> rx\<lparr>rx_plays := (rx_plays rx)[i := (rx_plays rx ! i)\<lparr>ps_senders := False\<rparr>]\<rparr>)"

definition rx_register :: "'d \<Rightarrow> instant \<Rightarrow> u32 \<Rightarrow> 'd udp_rx \<Rightarrow> 'd udp_rx" where
  "rx_register d now q rx =
     (let rx' = hang_up q rx
      in rx'\<lparr>rx_plays := rx_plays rx' @ [play_rx_new d now],
             rx_current := bt_insert q (length (rx_plays rx')) (rx_current rx')\<rparr>)"

definition rx_remove :: "u32 \<Rightarrow> 'd udp_rx \<Rightarrow> 'd udp_rx" where
  "rx_remove q rx = (let rx' = hang_up q rx in rx'\<lparr>rx_current := bt_remove q (rx_current rx')\<rparr>)"

text \<open>A full stream drops the packet, a stream that has ended is a panic.\<close>

definition rx_send :: "u32 \<Rightarrow> voice \<Rightarrow> 'd udp_rx \<Rightarrow> 'd udp_rx" where
  "rx_send q v rx = (case map_of (rx_current rx) q of
      None \<Rightarrow> rx
    | Some i \<Rightarrow> (case play_tx_send v (rx_plays rx ! i) of
          (s, Inl SendClosed) \<Rightarrow> rx\<lparr>rx_status := RxPanicked\<rparr>
        | (s, r) \<Rightarrow> rx\<lparr>rx_plays := (rx_plays rx)[i := s]\<rparr>))"

text \<open>
  \<open>RxSock\<close>: a datagram, with the wall clock; \<open>RxEvent\<close>: what the control stream tells. With debug
  logging on, the round trip time of a pong is computed by a subtraction that may panic.
\<close>

datatype rx_event = RxSock u64 "io_kind + u8 list" | RxEvent instant "voice_event option"

definition rx_message ::
  "udp_io \<Rightarrow> u8 list \<Rightarrow> bool \<Rightarrow> u64 \<Rightarrow> server_message \<Rightarrow> 'd udp_rx \<Rightarrow> 'd udp_rx" where
  "rx_message io key debug clock msg rx = (case sm_message msg of
      Some (SVoice v) \<Rightarrow>
        (case voice_decrypt (uio_dec io) key (payload v) (sequence v) (stream_time v) of
           None \<Rightarrow> rx\<lparr>rx_status := RxFailed\<rparr>
         | Some frame \<Rightarrow> rx_send (source_id v) (v\<lparr>payload := frame\<rparr>)
             (rx\<lparr>rx_received := rx_received rx + 1\<rparr>))
    | Some (SPong p) \<Rightarrow> (if debug \<and> clock < pong_seq p then rx\<lparr>rx_status := RxPanicked\<rparr> else rx)
    | Some (SIpDisco d) \<Rightarrow> rx\<lparr>rx_status := RxPanicked\<rparr>
    | None \<Rightarrow> rx\<lparr>rx_status := RxFailed\<rparr>)"

definition udp_rx_step ::
  "udp_io \<Rightarrow> u8 list \<Rightarrow> bool \<Rightarrow> 'd \<Rightarrow> rx_event \<Rightarrow> 'd udp_rx \<Rightarrow> 'd udp_rx" where
  "udp_rx_step io key debug d ev rx =
     (if rx_status rx \<noteq> RxRunning then rx
      else case ev of
        RxSock clock inb \<Rightarrow> (case udp_recv io inb of
            Inl e \<Rightarrow> (if fatal e then rx\<lparr>rx_status := RxFailed\<rparr> else rx)
          | Inr msg \<Rightarrow> rx_message io key debug clock msg rx)
      | RxEvent now (Some (VeJoined q)) \<Rightarrow> rx_register d now q rx
      | RxEvent now (Some (VeAlreadyPresent q)) \<Rightarrow> rx_register d now q rx
      | RxEvent now (Some (VeLeft q)) \<Rightarrow> rx_remove q rx
      | RxEvent now None \<Rightarrow> rx\<lparr>rx_status := RxDone\<rparr>)"

section \<open>What is sent\<close>

fun mic_frames :: "tx_event list \<Rightarrow> u8 list list" where
  "mic_frames [] = []"
| "mic_frames (TxVoice frame # evs) = frame # mic_frames evs"
| "mic_frames (ev # evs) = mic_frames evs"

fun tx_voices :: "client_message list \<Rightarrow> voice list" where
  "tx_voices [] = []"
| "tx_voices (m # ms) = (case cm_payload m of Some (CVoice v) \<Rightarrow> v # tx_voices ms | _ \<Rightarrow> tx_voices ms)"

lemma tx_voices_append [simp]: "tx_voices (xs @ ys) = tx_voices xs @ tx_voices ys"
  by (induction xs) (auto split: option.splits client_payload.splits)

lemma tx_stopped: "\<not> tx_running t \<Longrightarrow> udp_tx_run io key src mute evs t = (t, [])"
  by (induction evs) (simp_all add: udp_tx_step_def)

text \<open>The microphone is sent as the plain recursion says.\<close>

fun sealed_frames :: "udp_io \<Rightarrow> u8 list \<Rightarrow> u32 \<Rightarrow> u64 \<Rightarrow> u64 \<Rightarrow> u8 list list \<Rightarrow> voice list \<Rightarrow> bool" where
  "sealed_frames io key src n time fs [] = True"
| "sealed_frames io key src n time fs (v # vs) = (case fs of
      [] \<Rightarrow> False
    | f # fs \<Rightarrow> sequence v = n \<and> stream_time v = time \<and> source_id v = src \<and>
        voice_encrypt (uio_enc io) key f n time = Some (payload v) \<and>
        sealed_frames io key src (n + 1) (time + 960) fs vs)"

lemma tx_ping_facts:
  assumes "tx_ping io src clock received t = (t', out)"
  shows "tx_voices out = [] \<and> tx_sequence t' = tx_sequence t \<and> tx_stream_time t' = tx_stream_time t \<and>
    (\<not> tx_running t' \<or> tx_running t)"
  using assms
  by (auto simp: tx_ping_def Let_def tx_stop_def client_ping_def client_message_new_def split: sum.splits)

lemma tx_voice_facts:
  assumes "tx_voice io key src frame t = (t', out)"
  shows "out = [] \<and> \<not> tx_running t' \<or>
    (\<exists>v. out = [client_voice v] \<and> sequence v = tx_sequence t \<and> stream_time v = tx_stream_time t \<and>
      source_id v = src \<and>
      voice_encrypt (uio_enc io) key frame (tx_sequence t) (tx_stream_time t) = Some (payload v) \<and>
      tx_sequence t' = tx_sequence t + 1 \<and> tx_stream_time t' = tx_stream_time t + 960)"
  using assms by (auto simp: tx_voice_def Let_def tx_stop_def split: option.splits sum.splits)

lemma udp_tx_run_seals:
  "udp_tx_run io key src False evs t = (t', out) \<Longrightarrow>
     sealed_frames io key src (tx_sequence t) (tx_stream_time t) (mic_frames evs) (tx_voices out) \<and>
     (\<not> tx_running t' \<or> length (tx_voices out) = length (mic_frames evs))"
proof (induction evs arbitrary: t t' out)
  case (Cons ev evs)
  obtain t1 out1 where step: "udp_tx_step io key src False ev t = (t1, out1)"
    by (cases "udp_tx_step io key src False ev t")
  obtain out2 where out2: "udp_tx_run io key src False evs t1 = (t', out2)" "out = out1 @ out2"
    using Cons.prems step by (auto split: prod.splits)
  note IH = Cons.IH [OF out2(1)]
  show ?case
  proof (cases "tx_running t")
    case False
    then show ?thesis using Cons.prems tx_stopped [OF False] by auto
  next
    case True
    show ?thesis
    proof (cases ev)
      case (TxVoice frame)
      then have "tx_voice io key src frame t = (t1, out1)" using step True by (simp add: udp_tx_step_def)
      from tx_voice_facts [OF this] show ?thesis
      proof (elim disjE conjE exE)
        assume "out1 = []" "\<not> tx_running t1"
        then show ?thesis using tx_stopped [of t1] out2 by auto
      qed (use IH TxVoice out2(2) in \<open>simp add: client_voice_def client_message_new_def\<close>)
    next
      case TxMicDead
      then have "\<not> tx_running t1" "out1 = []" using step True by (auto simp: udp_tx_step_def tx_stop_def)
      then show ?thesis using tx_stopped [of t1] out2 by auto
    next
      case (TxTimer clock received)
      then have "tx_ping io src clock received t = (t1, out1)"
        using step True by (simp add: udp_tx_step_def)
      then show ?thesis using tx_ping_facts IH TxTimer out2(2) by auto
    qed
  qed
qed simp

lemma sealed_frames_open:
  assumes "aead_inverse (uio_enc io) (uio_dec io)"
  shows "sealed_frames io key src n time fs vs \<Longrightarrow>
    map (\<lambda>v. voice_decrypt (uio_dec io) key (payload v) (sequence v) (stream_time v)) vs =
      map Some (take (length vs) fs)"
proof (induction vs arbitrary: n time fs)
  case (Cons v vs)
  then show ?case using voice_decrypt_encrypt [OF assms] by (cases fs) auto
qed simp

lemma sealed_frames_sequence:
  "sealed_frames io key src n time fs vs \<Longrightarrow>
     map sequence vs = map (\<lambda>k. n + of_nat k) [0..<length vs] \<and> length vs \<le> length fs"
proof (induction vs arbitrary: n time fs)
  case (Cons v vs)
  then obtain f fs' where fs: "fs = f # fs'" by (cases fs) auto
  then have "map sequence vs = map (\<lambda>k. (n + 1) + of_nat k) [0..<length vs]" "length vs \<le> length fs'"
    using Cons.IH [of "n + 1" "time + 960" fs'] Cons.prems by simp_all
  moreover have "map (\<lambda>k. n + of_nat k) [0..<Suc (length vs)] =
      n # map (\<lambda>k. (n + 1) + of_nat k) [0..<length vs]"
    by (simp add: upt_conv_Cons [OF zero_less_Suc] map_Suc_upt [symmetric] o_def add.assoc
        del: upt_Suc map_Suc_upt)
  ultimately show ?case using Cons.prems fs by simp
qed simp

lemma of_nat_inj_u64: "inj_on (\<lambda>k. n + (of_nat k :: u64)) {..< 2 ^ 64}"
proof (rule inj_onI)
  fix j k :: nat assume jk: "j \<in> {..<2 ^ 64}" "k \<in> {..<2 ^ 64}" "n + (of_nat j :: u64) = n + of_nat k"
  then have "unat (of_nat j :: u64) = unat (of_nat k :: u64)" by simp
  then show "j = k" using jk(1,2) by (simp add: unat_of_nat take_bit_nat_eq_self)
qed

text \<open>
  C8: The client never uses a nonce twice. Whatever the order of microphone frames and pings, the
  voice datagrams a client sends in a session, as long as they are fewer than \<open>2^64\<close>, all have
  different nonces, and they open, under the key of the session, to the frames of the
  microphone, in order and without a gap; and while the task runs, every frame has been sent.
\<close>

theorem client_nonces_are_fresh:
  assumes "udp_tx_run io key src False evs (udp_tx_new now s time) = (t, out)"
    and "aead_inverse (uio_enc io) (uio_dec io)"
    and "length (mic_frames evs) \<le> 2 ^ 64"
  shows "distinct (map (\<lambda>v. voice_nonce (sequence v) (stream_time v)) (tx_voices out)) \<and>
    map (\<lambda>v. voice_decrypt (uio_dec io) key (payload v) (sequence v) (stream_time v)) (tx_voices out) =
      map Some (take (length (tx_voices out)) (mic_frames evs)) \<and>
    (\<not> tx_running t \<or> length (tx_voices out) = length (mic_frames evs))"
proof -
  have run: "sealed_frames io key src s time (mic_frames evs) (tx_voices out)"
    "\<not> tx_running t \<or> length (tx_voices out) = length (mic_frames evs)"
    using udp_tx_run_seals [OF assms(1)] by (simp_all add: udp_tx_new_def)
  have seqs: "map sequence (tx_voices out) = map (\<lambda>k. s + of_nat k) [0..<length (tx_voices out)]"
    and short: "length (tx_voices out) \<le> 2 ^ 64"
    using sealed_frames_sequence [OF run(1)] assms(3) by simp_all
  have "inj_on (\<lambda>k. s + (of_nat k :: u64)) {0..<length (tx_voices out)}"
    by (rule inj_on_subset [OF of_nat_inj_u64]) (use short in auto)
  then have "distinct (map sequence (tx_voices out))"
    unfolding seqs by (simp add: distinct_map)
  then have "distinct (map (\<lambda>v. voice_nonce (sequence v) (stream_time v)) (tx_voices out))"
    by (auto simp: distinct_map voice_nonce_inj inj_on_def)
  then show ?thesis using sealed_frames_open [OF assms(2) run(1)] run(2) by blast
qed

text \<open>A cipher that appends the first byte of the nonce, and a codec nobody decodes.\<close>

definition demo_udp :: udp_io where
  "demo_udp = \<lparr>uio_encode = (\<lambda>m. [1]), uio_decode = (\<lambda>bs. None), uio_os_send = (\<lambda>bs. None),
     uio_enc = (\<lambda>key nonce aad m. Some (m @ key)),
     uio_dec = (\<lambda>key nonce aad c. Some (take (length c - length key) c))\<rparr>"

theorem client_nonces_are_fresh_witness:
  "map (\<lambda>v. voice_decrypt (uio_dec demo_udp) [7] (payload v) (sequence v) (stream_time v))
     (tx_voices (snd (udp_tx_run demo_udp [7] 3 False [TxVoice [1, 2], TxTimer 9 0, TxVoice [3]]
        (udp_tx_new 0 (- 1) 5)))) = [Some [1, 2], Some [3]]"
proof -
  let ?evs = "[TxVoice [1, 2], TxTimer 9 0, TxVoice [3]]"
  obtain t out where run: "udp_tx_run demo_udp [7] 3 False ?evs (udp_tx_new 0 (- 1) 5) = (t, out)"
    by (cases "udp_tx_run demo_udp [7] 3 False ?evs (udp_tx_new 0 (- 1) 5)")
  have "aead_inverse (uio_enc demo_udp) (uio_dec demo_udp)"
    by (simp add: aead_inverse_def demo_udp_def)
  from client_nonces_are_fresh [OF run this]
  have "map (\<lambda>v. voice_decrypt (uio_dec demo_udp) [7] (payload v) (sequence v) (stream_time v)) (tx_voices out) =
      map Some (take (length (tx_voices out)) [[1, 2], [3]])" by simp
  moreover have "length (tx_voices out) = 2"
    using run by (auto simp: udp_tx_step_def tx_voice_def tx_ping_def udp_send_def demo_udp_def udp_tx_new_def
        voice_encrypt_def client_voice_def client_ping_def client_message_new_def DEFAULT_BUF_SIZE_def Let_def)
  ultimately show ?thesis unfolding run by simp
qed

section \<open>Speakers and streams\<close>

text \<open>
  The receiving task takes events while it runs, and the tasks of the streams take turns, in any
  order.
\<close>

inductive rx_reach ::
  "udp_io \<Rightarrow> u8 list \<Rightarrow> bool \<Rightarrow> ('d, 'pcm) codec \<Rightarrow> 'd \<Rightarrow> 'd udp_rx \<Rightarrow> rx_event list \<Rightarrow> bool"
  for io :: udp_io and key :: "u8 list" and debug :: bool and cd :: "('d, 'pcm) codec" and d :: 'd where
  start: "rx_reach io key debug cd d udp_rx_new []"
| event: "rx_reach io key debug cd d rx evs \<Longrightarrow> rx_status rx = RxRunning \<Longrightarrow>
     rx_reach io key debug cd d (udp_rx_step io key debug d ev rx) (evs @ [ev])"
| turn: "rx_reach io key debug cd d rx evs \<Longrightarrow> i < length (rx_plays rx) \<Longrightarrow>
     play_turn cd tie now (rx_plays rx ! i) = Some (s, out) \<Longrightarrow>
     rx_reach io key debug cd d (rx\<lparr>rx_plays := (rx_plays rx)[i := s]\<rparr>) evs"

text \<open>Who is there, by the events.\<close>

definition heard :: "rx_event \<Rightarrow> u32 set \<Rightarrow> u32 set" where
  "heard ev qs = (case ev of
      RxEvent now (Some (VeJoined q)) \<Rightarrow> insert q qs
    | RxEvent now (Some (VeAlreadyPresent q)) \<Rightarrow> insert q qs
    | RxEvent now (Some (VeLeft q)) \<Rightarrow> qs - {q}
    | _ \<Rightarrow> qs)"

definition speakers :: "rx_event list \<Rightarrow> u32 set" where
  "speakers evs = fold heard evs {}"

lemma speakers_simps [simp]: "speakers [] = {}" "speakers (evs @ [ev]) = heard ev (speakers evs)"
  by (simp_all add: speakers_def)

definition clip_may_fail :: "('d, 'pcm) codec \<Rightarrow> bool" where
  "clip_may_fail cd \<longleftrightarrow> (\<exists>d pcm. snd (soft_clip cd d pcm) = None)"

text \<open>A stream of speaker \<open>q\<close>.\<close>

definition stream_ok :: "('d, 'pcm) codec \<Rightarrow> u32 \<Rightarrow> 'd play_stream \<Rightarrow> bool" where
  "stream_ok cd q s \<longleftrightarrow> ps_senders s \<and> (ps_running s \<or> clip_may_fail cd) \<and>
     (\<forall>v \<in> set (ps_inbox s). source_id v = q)"

definition rx_inv :: "('d, 'pcm) codec \<Rightarrow> 'd udp_rx \<Rightarrow> bool" where
  "rx_inv cd rx \<longleftrightarrow>
     (\<forall>q i. map_of (rx_current rx) q = Some i \<longrightarrow>
        i < length (rx_plays rx) \<and> stream_ok cd q (rx_plays rx ! i)) \<and>
     (\<forall>q q' i. map_of (rx_current rx) q = Some i \<longrightarrow> map_of (rx_current rx) q' = Some i \<longrightarrow> q = q') \<and>
     (\<forall>i < length (rx_plays rx). ps_senders (rx_plays rx ! i) \<longrightarrow> (\<exists>q. map_of (rx_current rx) q = Some i))"

lemma rx_invD:
  assumes "rx_inv cd rx"
  shows "map_of (rx_current rx) q = Some i \<Longrightarrow> i < length (rx_plays rx)"
    and "map_of (rx_current rx) q = Some i \<Longrightarrow> stream_ok cd q (rx_plays rx ! i)"
    and "map_of (rx_current rx) q = Some i \<Longrightarrow> map_of (rx_current rx) q' = Some i \<Longrightarrow> q = q'"
    and "i < length (rx_plays rx) \<Longrightarrow> ps_senders (rx_plays rx ! i) \<Longrightarrow>
      \<exists>q. map_of (rx_current rx) q = Some i"
  using assms unfolding rx_inv_def by blast+

text \<open>Changing one stream, and nothing else.\<close>

lemma rx_inv_update:
  assumes inv: "rx_inv cd rx" and "rx_current rx' = rx_current rx"
    and plays: "rx_plays rx' = (rx_plays rx)[i := s]"
    and same: "ps_senders s = ps_senders (rx_plays rx ! i)"
    and ok: "\<And>q. map_of (rx_current rx) q = Some i \<Longrightarrow> stream_ok cd q s"
  shows "rx_inv cd rx'"
  unfolding rx_inv_def assms(2) plays
proof (intro conjI allI impI)
  fix q j assume q: "map_of (rx_current rx) q = Some j"
  show "j < length ((rx_plays rx)[i := s])" using rx_invD(1) [OF inv q] by simp
  show "stream_ok cd q ((rx_plays rx)[i := s] ! j)"
    using rx_invD(1,2) [OF inv q] ok q by (cases "j = i") simp_all
next
  fix q q' j assume "map_of (rx_current rx) q = Some j" "map_of (rx_current rx) q' = Some j"
  then show "q = q'" by (rule rx_invD(3) [OF inv])
next
  fix j assume "j < length ((rx_plays rx)[i := s])" "ps_senders ((rx_plays rx)[i := s] ! j)"
  then show "\<exists>q. map_of (rx_current rx) q = Some j"
    using rx_invD(4) [OF inv, of j] same by (cases "j = i") simp_all
qed

lemma submit_senders:
  assumes "submit cd data s = (s', out)"
  shows "ps_senders s' = ps_senders s \<and> ps_inbox s' = ps_inbox s \<and>
    (ps_running s' = ps_running s \<or> clip_may_fail cd)"
proof -
  have "clip_may_fail cd" if "decode_and_submit cd d data = (d', o', False)" for d d' o'
    using that by (auto simp: decode_and_submit_def clip_may_fail_def split: prod.splits option.splits)
      (metis snd_conv)
  then show ?thesis
    using assms by (auto simp: submit_def split: prod.splits bool.splits)
qed

lemma play_turn_stream_ok:
  assumes "play_turn cd tie now s = Some (s', out)"
  shows "ps_senders s' = ps_senders s \<and> (stream_ok cd q s \<longrightarrow> stream_ok cd q s')"
proof (cases "ps_inbox s")
  case (Cons v rest)
  then show ?thesis
    using assms submit_senders [of cd _ "s\<lparr>ps_inbox := rest, ps_jitter := _\<rparr>" s' out]
    by (auto simp: play_turn_def stream_ok_def split: if_splits prod.splits option.splits)
next
  case Nil
  then show ?thesis
    using assms submit_senders [of cd _ "s\<lparr>ps_jitter := _\<rparr>" s' out]
    by (auto simp: play_turn_def stream_ok_def split: if_splits prod.splits option.splits)
qed

lemma rx_inv_send:
  assumes "rx_inv cd rx"
  shows "rx_inv cd (rx_send (source_id v) v rx)"
proof (cases "map_of (rx_current rx) (source_id v)")
  case None
  then show ?thesis using assms by (simp add: rx_send_def)
next
  case (Some i)
  obtain s r where s: "play_tx_send v (rx_plays rx ! i) = (s, r)"
    by (cases "play_tx_send v (rx_plays rx ! i)")
  have "stream_ok cd (source_id v) s" "ps_senders s = ps_senders (rx_plays rx ! i)"
    using s rx_invD(2) [OF assms Some] by (auto simp: play_tx_send_def stream_ok_def split: if_splits)
  moreover have "q = source_id v" if "map_of (rx_current rx) q = Some i" for q
    using rx_invD(3) [OF assms that Some] .
  ultimately have "rx_inv cd (rx\<lparr>rx_plays := (rx_plays rx)[i := s]\<rparr>)"
    by (intro rx_inv_update [OF assms, of _ i s]) auto
  then show ?thesis
    using assms Some s by (auto simp: rx_send_def rx_inv_def split: sum.splits try_send_error.splits)
qed

text \<open>After a sender has been dropped, only the map still names its stream.\<close>

lemma hang_up_facts:
  assumes "rx_inv cd rx"
  shows "rx_current (hang_up q rx) = rx_current rx \<and>
    length (rx_plays (hang_up q rx)) = length (rx_plays rx) \<and>
    (\<forall>q' i. q' \<noteq> q \<longrightarrow> map_of (rx_current rx) q' = Some i \<longrightarrow>
      rx_plays (hang_up q rx) ! i = rx_plays rx ! i) \<and>
    (\<forall>i < length (rx_plays rx). ps_senders (rx_plays (hang_up q rx) ! i) \<longrightarrow>
      (\<exists>q'. q' \<noteq> q \<and> map_of (rx_current rx) q' = Some i))"
proof (cases "map_of (rx_current rx) q")
  case None
  then show ?thesis using rx_invD(4) [OF assms] by (auto simp: hang_up_def) (metis option.distinct(1))
next
  case (Some i)
  have "ps_senders ((rx_plays rx)[i := (rx_plays rx ! i)\<lparr>ps_senders := False\<rparr>] ! j) \<Longrightarrow>
      j < length (rx_plays rx) \<Longrightarrow> \<exists>q'. q' \<noteq> q \<and> map_of (rx_current rx) q' = Some j" for j
    using rx_invD(4) [OF assms, of j] Some by (cases "j = i") (auto, metis option.inject)
  moreover have "(rx_plays rx)[i := (rx_plays rx ! i)\<lparr>ps_senders := False\<rparr>] ! j = rx_plays rx ! j"
    if "q' \<noteq> q" "map_of (rx_current rx) q' = Some j" for q' j
    using rx_invD(3) [OF assms Some, of q'] that by (cases "j = i") auto
  ultimately show ?thesis using Some by (simp add: hang_up_def)
qed

lemma rx_inv_remove:
  assumes "rx_inv cd rx"
  shows "rx_inv cd (rx_remove q rx)"
  using hang_up_facts [OF assms, of q] rx_invD(1-3) [OF assms]
  unfolding rx_inv_def by (auto simp: rx_remove_def Let_def split: if_splits)

lemma stream_ok_new: "stream_ok cd q (play_rx_new d now)"
  by (simp add: stream_ok_def play_rx_new_def)

lemma rx_inv_register:
  assumes "rx_inv cd rx"
  shows "rx_inv cd (rx_register d now q rx)"
  using hang_up_facts [OF assms, of q] rx_invD(1-3) [OF assms]
  unfolding rx_inv_def
  by (auto simp: rx_register_def Let_def nth_append less_Suc_eq stream_ok_new split: if_splits)

lemma rx_keys:
  "map_of (rx_current (hang_up q rx)) = map_of (rx_current rx)"
  "map_of (rx_current (rx_remove q rx)) = (map_of (rx_current rx))(q := None)"
  "dom (map_of (rx_current (rx_register d now q rx))) = insert q (dom (map_of (rx_current rx)))"
  "rx_current (rx_send q v rx) = rx_current rx"
  by (auto simp: hang_up_def rx_remove_def rx_register_def rx_send_def Let_def
      split: option.splits prod.splits sum.splits try_send_error.splits)

lemma rx_inv_status [simp]: "rx_inv cd (rx\<lparr>rx_status := st\<rparr>) = rx_inv cd rx"
  "rx_inv cd (rx\<lparr>rx_received := n\<rparr>) = rx_inv cd rx"
  by (simp_all add: rx_inv_def)

lemma rx_message_inv:
  assumes "rx_inv cd rx"
  shows "rx_inv cd (rx_message io key debug clock msg rx) \<and>
    rx_current (rx_message io key debug clock msg rx) = rx_current rx"
proof -
  have "rx_inv cd (rx_send (source_id v) (v\<lparr>payload := frame\<rparr>) (rx\<lparr>rx_received := rx_received rx + 1\<rparr>))"
    for v frame
    using rx_inv_send [of cd "rx\<lparr>rx_received := rx_received rx + 1\<rparr>" "v\<lparr>payload := frame\<rparr>"] assms by simp
  then show ?thesis
    using assms by (auto simp: rx_message_def rx_keys split: option.splits server_payload.splits)
qed

lemma rx_step_inv:
  assumes "rx_inv cd rx" and "rx_status rx = RxRunning"
  shows "rx_inv cd (udp_rx_step io key debug d ev rx) \<and>
    dom (map_of (rx_current (udp_rx_step io key debug d ev rx))) = heard ev (dom (map_of (rx_current rx)))"
proof (cases ev)
  case (RxSock clock inb)
  then show ?thesis
    using assms rx_message_inv [OF assms(1)]
    by (auto simp: udp_rx_step_def heard_def split: sum.splits)
next
  case (RxEvent now e)
  then show ?thesis
    using assms rx_inv_register [OF assms(1), of d now] rx_inv_remove [OF assms(1)]
    by (cases e; cases "the e") (auto simp: udp_rx_step_def heard_def rx_keys)
qed

lemma rx_reach_inv:
  "rx_reach io key debug cd d rx evs \<Longrightarrow> rx_inv cd rx \<and> dom (map_of (rx_current rx)) = speakers evs"
proof (induction rule: rx_reach.induct)
  case start
  show ?case by (simp add: rx_inv_def udp_rx_new_def)
next
  case (event rx evs ev)
  then show ?case
    using rx_step_inv [of cd rx io key debug d ev] by (simp only: speakers_simps)
next
  case (turn rx evs i tie now s out)
  have "rx_inv cd (rx\<lparr>rx_plays := (rx_plays rx)[i := s]\<rparr>)"
  proof (rule rx_inv_update [of cd rx _ i s])
    show "rx_inv cd rx" using turn by blast
    show "ps_senders s = ps_senders (rx_plays rx ! i)" using play_turn_stream_ok [OF turn(3)] by blast
    show "stream_ok cd q s" if "map_of (rx_current rx) q = Some i" for q
      using play_turn_stream_ok [OF turn(3), of q] rx_invD(2) [of cd rx q i] turn that by blast
  qed simp_all
  then show ?case using turn by simp
qed

text \<open>
  C16: Every speaker has a stream of its own. In whatever order datagrams, announcements and turns of
  the playing tasks come, the client has exactly one stream for each speaker that has
  been announced and has not left; different speakers have different streams, only those
  streams can still be sent to, what waits in a stream has been spoken by its speaker, and such a
  stream is alive unless the clipper failed.
\<close>

theorem each_speaker_has_a_stream:
  assumes "rx_reach io key debug cd d rx evs"
  shows "dom (map_of (rx_current rx)) = speakers evs \<and>
    inj_on (map_of (rx_current rx)) (speakers evs) \<and>
    {i. i < length (rx_plays rx) \<and> ps_senders (rx_plays rx ! i)} = ran (map_of (rx_current rx)) \<and>
    (\<forall>q i. map_of (rx_current rx) q \<noteq> Some i \<or> stream_ok cd q (rx_plays rx ! i))"
proof -
  have inv: "rx_inv cd rx" and keys: "dom (map_of (rx_current rx)) = speakers evs"
    using rx_reach_inv [OF assms] by simp_all
  have "inj_on (map_of (rx_current rx)) (speakers evs)"
    using rx_invD(3) [OF inv] unfolding keys [symmetric] by (auto simp: inj_on_def)
  moreover have "{i. i < length (rx_plays rx) \<and> ps_senders (rx_plays rx ! i)} = ran (map_of (rx_current rx))"
    using rx_invD(1,2,4) [OF inv] by (auto simp: ran_def stream_ok_def)
  moreover have "map_of (rx_current rx) q \<noteq> Some i \<or> stream_ok cd q (rx_plays rx ! i)" for q i
    using rx_invD(2) [OF inv] by blast
  ultimately show ?thesis using keys by blast
qed

theorem each_speaker_has_a_stream_witness:
  "\<exists>rx. rx_reach demo_udp [7] False silent_codec () rx
      [RxEvent 0 (Some (VeAlreadyPresent 3)), RxEvent 5 (Some (VeJoined 3)), RxEvent 9 (Some (VeJoined 4))] \<and>
    dom (map_of (rx_current rx)) = {3, 4} \<and> length (rx_plays rx) = 3 \<and>
    card {i. i < length (rx_plays rx) \<and> ps_senders (rx_plays rx ! i)} = 2"
proof -
  let ?step = "udp_rx_step demo_udp [7] False ()"
  let ?a = "RxEvent 0 (Some (VeAlreadyPresent 3))" and ?b = "RxEvent 5 (Some (VeJoined 3))"
    and ?c = "RxEvent 9 (Some (VeJoined 4))"
  let ?rx = "?step ?c (?step ?b (?step ?a udp_rx_new))"
  have run: "rx_status udp_rx_new = RxRunning" "rx_status (?step ?a udp_rx_new) = RxRunning"
    "rx_status (?step ?b (?step ?a udp_rx_new)) = RxRunning"
    by (simp_all add: udp_rx_new_def udp_rx_step_def rx_register_def hang_up_def)
  have "rx_reach demo_udp [7] False silent_codec () ?rx ((([] @ [?a]) @ [?b]) @ [?c])"
    by (intro rx_reach.event rx_reach.start run)
  then have reach: "rx_reach demo_udp [7] False silent_codec () ?rx [?a, ?b, ?c]" by simp
  have "rx_current ?rx = [(3, 1), (4, 2)]" "length (rx_plays ?rx) = 3"
    by (simp_all add: udp_rx_new_def udp_rx_step_def rx_register_def hang_up_def)
  then have rx: "length (rx_plays ?rx) = 3" "ran (map_of (rx_current ?rx)) = {1, 2}"
    by (simp_all add: ran_map_upd)
  have "speakers [?a, ?b, ?c] = {3, 4}" by (auto simp: speakers_def heard_def)
  then show ?thesis
    using each_speaker_has_a_stream [OF reach] rx by (intro exI [of _ ?rx]) (use reach in simp)
qed

end
