(* ===== verification/Client_Main.thy ===== *)
theory Client_Main
  imports Client_Udp Ws_Stream
begin

text \<open>
  The client program: what it asks its user (\<open>read_choice\<close>), how it sets up a session over the control
  stream (\<open>ControlStream\<close> in \<open>server/ws-proto/src/client.rs\<close>) and the voice socket, and the loop that
  tells the voice tasks who is there (\<open>client/src/main.rs\<close>). Standard input, the texts of keys and
  the events of the gateway are arguments.
\<close>

section \<open>Choosing from a list\<close>

text \<open>ASCII text; \<open>char::is_whitespace\<close> and \<open>usize::from_str\<close>.\<close>

definition is_whitespace :: "char \<Rightarrow> bool" where
  "is_whitespace c \<longleftrightarrow> of_char c \<in> {9 .. 13 :: nat} \<or> of_char c = (32 :: nat)"

definition digit_of :: "char \<Rightarrow> nat option" where
  "digit_of c = (let k = of_char c in if 48 \<le> k \<and> k \<le> 57 then Some (k - 48) else None)"

fun digits_value :: "nat \<Rightarrow> string \<Rightarrow> nat option" where
  "digits_value acc [] = Some acc"
| "digits_value acc (c # s) = (case digit_of c of
     None \<Rightarrow> None
   | Some k \<Rightarrow> (if acc * 10 + k < 2 ^ 64 then digits_value (acc * 10 + k) s else None))"

definition parse_usize :: "string \<Rightarrow> nat option" where
  "parse_usize s = (let body = (case s of [] \<Rightarrow> [] | c # r \<Rightarrow> if c = CHR ''+'' then r else s)
     in if body = [] then None else digits_value 0 body)"

text \<open>A line of the input, \<open>None\<close> when reading fails; after the last one every read gives nothing.\<close>

definition read_line :: "string option list \<Rightarrow> string option \<times> string option list" where
  "read_line inp = (case inp of [] \<Rightarrow> (Some [], []) | l # rest \<Rightarrow> (l, rest))"

definition quits :: "string \<Rightarrow> bool" where
  "quits line \<longleftrightarrow> (case line of [] \<Rightarrow> False | c # s \<Rightarrow> c = CHR ''q'' \<or> c = CHR ''Q'')"

definition chosen :: "'v list \<Rightarrow> string \<Rightarrow> 'v option" where
  "chosen vs line = (case parse_usize (filter (\<lambda>c. \<not> is_whitespace c) line) of
      None \<Rightarrow> None | Some i \<Rightarrow> (if i < length vs then Some (vs ! i) else None))"

text \<open>The loop may go on for ever: not returning is \<open>None\<close>.\<close>

partial_function (option) read_choice ::
  "'v list \<Rightarrow> string option list \<Rightarrow> ('v option \<times> string option list) option" where
  "read_choice vs inp = (case read_line inp of (l, rest) \<Rightarrow>
     (case l of
        None \<Rightarrow> Some (None, rest)
      | Some line \<Rightarrow>
          (if quits line then Some (None, rest)
           else case chosen vs line of
             Some v \<Rightarrow> Some (Some v, rest)
           | None \<Rightarrow> read_choice vs rest)))"

text \<open>What ends the loop.\<close>

definition decisive :: "'v list \<Rightarrow> string option \<Rightarrow> bool" where
  "decisive vs l = (case l of None \<Rightarrow> True | Some line \<Rightarrow> quits line \<or> chosen vs line \<noteq> None)"

section \<open>Finding the own address\<close>

text \<open>
  At most five requests. What the attempts receive is a list, \<open>None\<close> for a timeout; a request that
  cannot be sent receives nothing. The rest of the datagrams stays in the socket.
\<close>

partial_function (option) discover_loop ::
  "udp_io \<Rightarrow> u8 list \<Rightarrow> u32 \<Rightarrow> nat \<Rightarrow> (io_kind + u8 list) option list \<Rightarrow>
     (socket_addr option \<times> (io_kind + u8 list) option list) option" where
  "discover_loop io uuid_bytes src attempt inp =
     (if attempt = 5 then Some (None, inp)
      else case discover_ip io uuid_bytes src (case inp of [] \<Rightarrow> None | x # rest \<Rightarrow> x) of
        Inr addr \<Rightarrow> Some (Some addr, tl inp)
      | Inl e \<Rightarrow> discover_loop io uuid_bytes src (attempt + 1)
          (case udp_send io (client_ip_disco \<lparr>disco_uuid = uuid_bytes, disco_source_id = src\<rparr>) of
             Inl e \<Rightarrow> inp | Inr bs \<Rightarrow> tl inp))"

section \<open>The control stream\<close>

datatype control_error = DeadReceiver | End | UnexpectedMessage server_event | ShutdownError

text \<open>
  What the owner of the stream sees: the events still to come, after which there is an end, how
  many sends will succeed, and what has been sent.
\<close>

record control_stream =
  cs_inc :: "server_event list"
  cs_sends :: nat
  cs_out :: "client_event list"

definition cs_send :: "client_event \<Rightarrow> control_stream \<Rightarrow> control_stream \<times> (control_error + unit)" where
  "cs_send ev cs = (if cs_sends cs = 0 then (cs, Inl DeadReceiver)
     else (cs\<lparr>cs_sends := cs_sends cs - 1, cs_out := cs_out cs @ [ev]\<rparr>, Inr ()))"

definition next_event :: "control_stream \<Rightarrow> control_stream \<times> (control_error + server_event)" where
  "next_event cs = (case cs_inc cs of
      [] \<Rightarrow> (cs, Inl End) | ev # evs \<Rightarrow> (cs\<lparr>cs_inc := evs\<rparr>, Inr ev))"

definition cs_await ::
  "(server_event \<Rightarrow> 'a option) \<Rightarrow> control_stream \<Rightarrow> control_stream \<times> (control_error + 'a)" where
  "cs_await pick cs = (case next_event cs of
      (cs', Inl e) \<Rightarrow> (cs', Inl e)
    | (cs', Inr ev) \<Rightarrow> (cs', case pick ev of None \<Rightarrow> Inl (UnexpectedMessage ev) | Some x \<Rightarrow> Inr x))"

definition await_initialized :: "control_stream \<Rightarrow> control_stream \<times> (control_error + uuid)" where
  "await_initialized = cs_await (\<lambda>ev. case ev of SeInit i \<Rightarrow> Some i | _ \<Rightarrow> None)"

definition await_voice_udp :: "control_stream \<Rightarrow> control_stream \<times> (control_error + server_announce)" where
  "await_voice_udp = cs_await (\<lambda>ev. case ev of SeUdpAnnounce a \<Rightarrow> Some a | _ \<Rightarrow> None)"

definition await_ready :: "control_stream \<Rightarrow> control_stream \<times> (control_error + ready_msg)" where
  "await_ready = cs_await (\<lambda>ev. case ev of SeReady r \<Rightarrow> Some r | _ \<Rightarrow> None)"

definition cs_init where
  "cs_init i name = cs_send (CeInit \<lparr>user_id = i, init_name = name\<rparr>)"

definition cs_join where
  "cs_join channel_id = cs_send (CeJoin channel_id)"

definition cs_announce_udp where
  "cs_announce_udp a = cs_send (CeUdpAnnounce \<lparr>ca_ip = sa_ip a, ca_port = sa_port a\<rparr>)"

section \<open>The session of a client\<close>

datatype client_error = ControlError control_error | DiscoveryFailed | BadKey

definition step_then ::
  "('s \<Rightarrow> 's \<times> (control_error + 'a)) \<Rightarrow> ('a \<Rightarrow> 's \<Rightarrow> 's \<times> (client_error + 'b)) \<Rightarrow> 's \<Rightarrow>
     's \<times> (client_error + 'b)" where
  "step_then f k s = (case f s of (s', Inl e) \<Rightarrow> (s', Inl (ControlError e)) | (s', Inr x) \<Rightarrow> k x s')"

text \<open>\<open>decode_key\<close> is base64 and the cipher's check of the length.\<close>

record client_env =
  ce_udp :: udp_io
  ce_uuid_bytes :: "uuid \<Rightarrow> u8 list"
  ce_decode_key :: "string \<Rightarrow> u8 list option"
  ce_datagrams :: "(io_kind + u8 list) option list"

text \<open>
  From \<open>init\<close> to \<open>Ready\<close>: the key, and the sources announced to the voice tasks as already present;
  the client itself is left out.
\<close>

definition client_setup ::
  "client_env \<Rightarrow> uuid \<Rightarrow> string \<Rightarrow> uuid \<Rightarrow> control_stream \<Rightarrow>
     control_stream \<times> (client_error + u8 list \<times> u32 \<times> voice_event list)" where
  "client_setup e i name channel_id =
     step_then (cs_init i name) (\<lambda>_.
     step_then await_initialized (\<lambda>_.
     step_then (cs_join channel_id) (\<lambda>_.
     step_then await_voice_udp (\<lambda>ann cs.
       case discover_loop (ce_udp e) (ce_uuid_bytes e i) (sa_source_id ann) 0 (ce_datagrams e) of
         Some (Some addr, rest) \<Rightarrow>
           step_then (cs_announce_udp addr) (\<lambda>_.
           step_then await_ready (\<lambda>ready cs.
             case ce_decode_key e (rd_crypt_key ready) of
               None \<Rightarrow> (cs, Inl BadKey)
             | Some key \<Rightarrow> (cs, Inr (key, rd_src_id ready,
                 map (\<lambda>u. VeAlreadyPresent (pm_source_id u))
                   (filter (\<lambda>u. pm_source_id u \<noteq> rd_src_id ready) (rd_present ready)))))) cs
       | _ \<Rightarrow> (cs, Inl DiscoveryFailed)))))"

datatype main_status = MainRunning | MainDone | MainFailed

text \<open>One turn of the loop: the user interrupts, or the stream has an event, or it has ended.\<close>

datatype main_event = Interrupt bool | StreamEvent server_event bool | StreamEnd

record main_state =
  ms_status :: main_status
  ms_voice :: "voice_event list"
  ms_out :: "client_event list"

text \<open>The flags say whether \<open>leave\<close> and \<open>stop\<close> succeed.\<close>

definition main_step :: "main_event \<Rightarrow> main_state \<Rightarrow> main_state" where
  "main_step ev s =
     (if ms_status s \<noteq> MainRunning then s
      else case ev of
        Interrupt ok \<Rightarrow> (if ok then s\<lparr>ms_out := ms_out s @ [CeLeave], ms_status := MainDone\<rparr>
          else s\<lparr>ms_status := MainFailed\<rparr>)
      | StreamEnd \<Rightarrow> s\<lparr>ms_status := MainFailed\<rparr>
      | StreamEvent (SeJoinError c) ok \<Rightarrow> s\<lparr>ms_status := (if ok then MainDone else MainFailed)\<rparr>
      | StreamEvent (SeJoined u) ok \<Rightarrow> s\<lparr>ms_voice := ms_voice s @ [VeJoined (pm_source_id u)]\<rparr>
      | StreamEvent (SeLeft u) ok \<Rightarrow> s\<lparr>ms_voice := ms_voice s @ [VeLeft (pm_source_id u)]\<rparr>
      | StreamEvent SeDisconnected ok \<Rightarrow> s\<lparr>ms_status := MainFailed\<rparr>
      | StreamEvent _ ok \<Rightarrow> s)"

section \<open>When the choice returns\<close>

lemma read_choice_decisive:
  assumes "read_choice vs inp = Some r"
  shows "\<exists>l \<in> set inp. decisive vs l"
proof (rule read_choice.raw_induct [where P = "\<lambda>vs inp r. \<exists>l \<in> set inp. decisive vs l",
      rotated, OF assms], goal_cases)
  case (1 f vs inp r)
  show ?case
  proof (cases inp)
    case Nil
    have "chosen vs [] = None" by (simp add: chosen_def parse_usize_def)
    then have "f vs [] = Some r" using 1(2) Nil by (simp add: read_line_def quits_def)
    then show ?thesis using 1(1) Nil by fastforce
  next
    case (Cons l rest)
    show ?thesis
    proof (cases "decisive vs l")
      case False
      then obtain line where "l = Some line" "\<not> quits line" "chosen vs line = None"
        by (auto simp: decisive_def split: option.splits)
      then have "f vs rest = Some r" using 1(2) Cons by (simp add: read_line_def)
      then show ?thesis using 1(1) Cons by fastforce
    qed (simp add: Cons)
  qed
qed

lemma read_choice_returns:
  "\<exists>l \<in> set inp. decisive vs l \<Longrightarrow> \<exists>r. read_choice vs inp = Some r"
proof (induction inp)
  case (Cons l inp)
  then show ?case
    by (subst read_choice.simps)
      (auto simp: read_line_def decisive_def split: option.splits)
qed simp

text \<open>
  C34: When the choice returns. Asking the user for one of a list returns exactly when some line of the
  input quits, is the position of an item, or cannot be read; when the input ends before, for
  instance because it is closed, the loop never returns.
\<close>

theorem read_choice_returns_iff:
  "(\<exists>r. read_choice vs inp = Some r) \<longleftrightarrow> (\<exists>l. l \<in> set inp \<and> decisive vs l)"
  using read_choice_decisive read_choice_returns by (metis (no_types))

section \<open>Discovery ends\<close>

definition request_of :: "u8 list \<Rightarrow> u32 \<Rightarrow> client_message" where
  "request_of uuid_bytes src = client_ip_disco \<lparr>disco_uuid = uuid_bytes, disco_source_id = src\<rparr>"

text \<open>What the \<open>k\<close>-th attempt receives.\<close>

definition answer_to :: "(io_kind + u8 list) option list \<Rightarrow> nat \<Rightarrow> (io_kind + u8 list) option" where
  "answer_to inp k = (if k < length inp then inp ! k else None)"

lemma answer_to_tl [simp]: "answer_to (tl inp) k = answer_to inp (Suc k)"
  by (cases inp) (simp_all add: answer_to_def)

lemma answer_to_0 [simp]: "(case inp of [] \<Rightarrow> None | x # rest \<Rightarrow> x) = answer_to inp 0"
  by (cases inp) (simp_all add: answer_to_def)

lemma unsent_discovery:
  assumes "udp_send io (request_of uuid_bytes src) = Inl e"
  shows "discover_ip io uuid_bytes src x = Inl (SetupUdp e)"
  using assms by (simp add: discover_ip_def request_of_def)

lemma discover_loop_unsent:
  assumes "udp_send io (request_of uuid_bytes src) = Inl e"
  shows "n \<le> 5 \<Longrightarrow> discover_loop io uuid_bytes src (5 - n) inp = Some (None, inp)"
proof (induction n)
  case 0
  then show ?case by (subst discover_loop.simps) simp
next
  case (Suc n)
  then have "5 - Suc n + 1 = 5 - n" "5 - Suc n \<noteq> 5" by simp_all
  then show ?case
    using Suc assms unsent_discovery [OF assms]
    by (subst discover_loop.simps) (simp add: request_of_def)
qed

lemma discover_loop_sent:
  assumes "udp_send io (request_of uuid_bytes src) = Inr bs"
  shows "n \<le> 5 \<Longrightarrow> \<exists>res rest. discover_loop io uuid_bytes src (5 - n) inp = Some (res, rest) \<and>
    (case res of
       None \<Rightarrow> (\<forall>k < n. \<exists>e. discover_ip io uuid_bytes src (answer_to inp k) = Inl e)
     | Some a \<Rightarrow> (\<exists>k < n. discover_ip io uuid_bytes src (answer_to inp k) = Inr a \<and>
         (\<forall>j < k. \<exists>e. discover_ip io uuid_bytes src (answer_to inp j) = Inl e) \<and>
         rest = drop (Suc k) inp))"
proof (induction n arbitrary: inp)
  case 0
  show ?case by (subst discover_loop.simps) simp
next
  case (Suc n)
  have attempt: "5 - Suc n + 1 = 5 - n" "5 - Suc n \<noteq> 5" using Suc.prems by simp_all
  show ?case
  proof (cases "discover_ip io uuid_bytes src (answer_to inp 0)")
    case (Inr a)
    then have "discover_loop io uuid_bytes src (5 - Suc n) inp = Some (Some a, tl inp)"
      using attempt by (subst discover_loop.simps) simp
    then show ?thesis
      using Inr by (intro exI [of _ "Some a"] exI [of _ "tl inp"]) (auto intro!: exI [of _ 0] simp: drop_Suc)
  next
    case (Inl e)
    then have "discover_loop io uuid_bytes src (5 - Suc n) inp =
        discover_loop io uuid_bytes src (5 - n) (tl inp)"
      using attempt assms by (subst discover_loop.simps) (simp add: request_of_def)
    moreover obtain res rest where res: "discover_loop io uuid_bytes src (5 - n) (tl inp) = Some (res, rest)"
      "case res of
         None \<Rightarrow> (\<forall>k < n. \<exists>e. discover_ip io uuid_bytes src (answer_to inp (Suc k)) = Inl e)
       | Some a \<Rightarrow> (\<exists>k < n. discover_ip io uuid_bytes src (answer_to inp (Suc k)) = Inr a \<and>
           (\<forall>j < k. \<exists>e. discover_ip io uuid_bytes src (answer_to inp (Suc j)) = Inl e) \<and>
           rest = drop (Suc k) (tl inp))"
      using Suc.IH [of "tl inp", unfolded answer_to_tl] Suc.prems by auto
    moreover have "case res of
         None \<Rightarrow> (\<forall>k < Suc n. \<exists>e. discover_ip io uuid_bytes src (answer_to inp k) = Inl e)
       | Some a \<Rightarrow> (\<exists>k < Suc n. discover_ip io uuid_bytes src (answer_to inp k) = Inr a \<and>
           (\<forall>j < k. \<exists>e. discover_ip io uuid_bytes src (answer_to inp j) = Inl e) \<and>
           rest = drop (Suc k) inp)"
    proof (cases res)
      case None
      then show ?thesis using res(2) Inl by (auto simp: less_Suc_eq_0_disj)
    next
      case (Some a)
      then obtain k where "k < n" "discover_ip io uuid_bytes src (answer_to inp (Suc k)) = Inr a"
        "\<forall>j < k. \<exists>e. discover_ip io uuid_bytes src (answer_to inp (Suc j)) = Inl e"
        "rest = drop (Suc k) (tl inp)"
        using res(2) by auto
      then have "Suc k < Suc n" "\<forall>j < Suc k. \<exists>e. discover_ip io uuid_bytes src (answer_to inp j) = Inl e"
        "rest = drop (Suc (Suc k)) inp"
        using Inl by (auto simp: less_Suc_eq_0_disj drop_Suc)
      then show ?thesis
        using Some \<open>discover_ip io uuid_bytes src (answer_to inp (Suc k)) = Inr a\<close> by auto
    qed
    ultimately show ?thesis by (intro exI conjI) (simp, blast)
  qed
qed

text \<open>
  C35: Discovery ends. The client asks for its own address at most five times and always comes back:
  with the address of the first attempt that succeeds, the datagrams that came later left in the
  socket, and with none exactly when the first five attempts fail.
\<close>

theorem discovery_ends:
  "\<exists>res rest. discover_loop io uuid_bytes src 0 inp = Some (res, rest) \<and>
     (res = None \<longleftrightarrow> {k. k < 5 \<and> (\<exists>a. discover_ip io uuid_bytes src (answer_to inp k) = Inr a)} = {}) \<and>
     (res = None \<or> (\<exists>k < 5. rest = drop (Suc k) inp \<and>
        discover_ip io uuid_bytes src (answer_to inp k) = Inr (the res) \<and>
        {j. j < k \<and> (\<exists>a. discover_ip io uuid_bytes src (answer_to inp j) = Inr a)} = {}))"
proof (cases "udp_send io (request_of uuid_bytes src)")
  case (Inl e)
  then show ?thesis
    using discover_loop_unsent [OF Inl, of 5 inp] unsent_discovery [OF Inl] by simp
next
  case (Inr bs)
  obtain res rest where res: "discover_loop io uuid_bytes src 0 inp = Some (res, rest)"
    "case res of
       None \<Rightarrow> (\<forall>k < 5. \<exists>e. discover_ip io uuid_bytes src (answer_to inp k) = Inl e)
     | Some a \<Rightarrow> (\<exists>k < 5. discover_ip io uuid_bytes src (answer_to inp k) = Inr a \<and>
         (\<forall>j < k. \<exists>e. discover_ip io uuid_bytes src (answer_to inp j) = Inl e) \<and>
         rest = drop (Suc k) inp)"
    using discover_loop_sent [OF Inr, of 5 inp] by auto
  show ?thesis
  proof (cases res)
    case None
    have "discover_ip io uuid_bytes src (answer_to inp k) \<noteq> Inr a" if "k < 5" for k a
      using res(2) None that by fastforce
    then show ?thesis using res(1) None by (intro exI conjI) auto
  next
    case (Some a)
    then obtain k where k: "k < 5" "discover_ip io uuid_bytes src (answer_to inp k) = Inr a"
      "\<forall>j < k. \<exists>e. discover_ip io uuid_bytes src (answer_to inp j) = Inl e" "rest = drop (Suc k) inp"
      using res(2) by auto
    have "discover_ip io uuid_bytes src (answer_to inp j) \<noteq> Inr b" if "j < k" for j b
      using k(3) that by fastforce
    then have "{j. j < k \<and> (\<exists>a. discover_ip io uuid_bytes src (answer_to inp j) = Inr a)} = {}" by blast
    then show ?thesis using res(1) Some k by (intro exI conjI) auto
  qed
qed

text \<open>
  A late answer kills the receiver. When the answer to the first request comes too late, but
  before the second one gives up, the answer to the second request is left in the socket, and the
  receiving task, which takes it for a datagram of the session, panics.
\<close>

theorem late_answer_kills_receiver:
  assumes "udp_send io (request_of uuid_bytes src) = Inr bs"
    and "udp_recv io r = Inr (server_ip_disco a)" and "rx_status rx = RxRunning"
  shows "discover_loop io uuid_bytes src 0 [None, Some r, Some r] =
      Some (Some (sa_from (disco_ip a) (ucast (disco_port a))), [Some r]) \<and>
    rx_status (udp_rx_step io key debug d (RxSock clock r) rx) = RxPanicked"
proof -
  have first: "discover_ip io uuid_bytes src None = Inl SetupTimeout"
    and second: "discover_ip io uuid_bytes src (Some r) = Inr (sa_from (disco_ip a) (ucast (disco_port a)))"
    using assms(1,2) by (simp_all add: discover_ip_def request_of_def server_ip_disco_def server_message_new_def)
  have "discover_loop io uuid_bytes src 1 [Some r, Some r] =
      Some (Some (sa_from (disco_ip a) (ucast (disco_port a))), [Some r])"
    by (subst discover_loop.simps) (simp add: second answer_to_def)
  then have "discover_loop io uuid_bytes src 0 [None, Some r, Some r] =
      Some (Some (sa_from (disco_ip a) (ucast (disco_port a))), [Some r])"
    using assms(1) by (subst discover_loop.simps) (simp add: first answer_to_def request_of_def)
  moreover have "rx_status (udp_rx_step io key debug d (RxSock clock r) rx) = RxPanicked"
    using assms(2,3) by (simp add: udp_rx_step_def rx_message_def server_ip_disco_def server_message_new_def)
  ultimately show ?thesis ..
qed

definition answering_udp :: udp_io where
  "answering_udp = demo_udp\<lparr>uio_decode := (\<lambda>bs. Some (server_ip_disco \<lparr>disco_ip = V4 9, disco_port = 77\<rparr>))\<rparr>"

theorem late_answer_kills_receiver_witness:
  "discover_loop answering_udp [5] 3 0 [None, Some (Inr [1]), Some (Inr [1])] =
     Some (Some (SocketV4 9 77), [Some (Inr [1])]) \<and>
   rx_status (udp_rx_step answering_udp [7] False () (RxSock 0 (Inr [1])) udp_rx_new) = RxPanicked"
proof -
  have "udp_send answering_udp (request_of [5] 3) = Inr [1]"
    by (simp add: udp_send_def answering_udp_def demo_udp_def DEFAULT_BUF_SIZE_def)
  moreover have "udp_recv answering_udp (Inr [1]) =
      Inr (server_ip_disco \<lparr>disco_ip = V4 9, disco_port = 77\<rparr>)"
    by (simp add: udp_recv_def answering_udp_def)
  moreover have "rx_status (udp_rx_new :: unit udp_rx) = RxRunning" by (simp add: udp_rx_new_def)
  ultimately show ?thesis
    using late_answer_kills_receiver [of answering_udp "[5]" 3 "[1]" "Inr [1]"
        "\<lparr>disco_ip = V4 9, disco_port = 77\<rparr>" udp_rx_new "[7]" False "()" 0] by simp
qed

section \<open>Whom the client hears\<close>

text \<open>
  The events of the main loop and what it tells the receiving task; \<open>roster\<close> is who is there
  according to the gateway.
\<close>

definition main_run :: "main_event list \<Rightarrow> main_state \<Rightarrow> main_state" where
  "main_run evs s = fold main_step evs s"

definition roster :: "main_event list \<Rightarrow> u32 set \<Rightarrow> u32 set" where
  "roster evs qs = fold (\<lambda>ev qs. case ev of
      StreamEvent (SeJoined u) ok \<Rightarrow> insert (pm_source_id u) qs
    | StreamEvent (SeLeft u) ok \<Rightarrow> qs - {pm_source_id u}
    | _ \<Rightarrow> qs) evs qs"

text \<open>What the receiving task has been told, in order.\<close>

definition told :: "rx_event list \<Rightarrow> voice_event list" where
  "told evs = List.map_filter (\<lambda>ev. case ev of RxEvent now (Some ve) \<Rightarrow> Some ve | _ \<Rightarrow> None) evs"

definition main_new :: main_state where
  "main_new = \<lparr>ms_status = MainRunning, ms_voice = [], ms_out = []\<rparr>"

definition hears :: "voice_event \<Rightarrow> u32 set \<Rightarrow> u32 set" where
  "hears ve = heard (RxEvent 0 (Some ve))"

lemma hears_simps [simp]:
  "hears (VeJoined q) qs = insert q qs" "hears (VeAlreadyPresent q) qs = insert q qs"
  "hears (VeLeft q) qs = qs - {q}"
  by (simp_all add: hears_def heard_def)

lemma speakers_told: "speakers evs = fold hears (told evs) {}"
proof -
  have "fold heard evs qs = fold hears (told evs) qs" for qs
    by (induction evs arbitrary: qs)
      (auto simp: told_def map_filter_simps hears_def heard_def split: rx_event.splits option.splits)
  then show ?thesis by (simp add: speakers_def)
qed

lemma main_run_stopped: "ms_status s \<noteq> MainRunning \<Longrightarrow> main_run evs s = s"
  by (induction evs) (simp_all add: main_run_def main_step_def)

lemma main_run_voice:
  "ms_status (main_run evs s) = MainRunning \<Longrightarrow>
     fold hears (ms_voice (main_run evs s)) qs = roster evs (fold hears (ms_voice s) qs)"
proof (induction evs arbitrary: s)
  case (Cons ev evs)
  have cons: "main_run (ev # evs) s = main_run evs (main_step ev s)" by (simp add: main_run_def)
  have running: "ms_status (main_step ev s) = MainRunning"
    by (rule ccontr) (use Cons.prems main_run_stopped [of "main_step ev s" evs] in \<open>simp add: cons\<close>)
  have "fold hears (ms_voice (main_step ev s)) qs = roster [ev] (fold hears (ms_voice s) qs)"
    using running by (auto simp: main_step_def roster_def split: main_event.splits server_event.splits if_splits)
  then show ?case
    using Cons.IH [of "main_step ev s"] Cons.prems by (simp add: cons roster_def)
qed (simp add: main_run_def roster_def)

lemma hears_present: "fold hears (map VeAlreadyPresent qs) S = S \<union> set qs"
  by (induction qs arbitrary: S) auto

text \<open>
  The client plays whom the gateway announces. Once the receiving task has taken everything the
  main loop has told it, it has a stream for exactly those who were present when the client became
  ready, other than the client, and those who have joined since, except those who have left.
\<close>

theorem client_plays_the_roster:
  assumes "rx_reach io key debug cd d rx evs"
    and "told evs = map VeAlreadyPresent others @ ms_voice (main_run mevs main_new)"
    and "ms_status (main_run mevs main_new) = MainRunning"
  shows "dom (map_of (rx_current rx)) = roster mevs (set others)"
proof -
  have "speakers evs = fold hears (ms_voice (main_run mevs main_new)) (set others)"
    unfolding speakers_told assms(2) by (simp add: hears_present)
  then show ?thesis
    using rx_reach_inv [OF assms(1)] main_run_voice [OF assms(3), of "set others"]
    by (simp add: main_new_def)
qed

theorem client_plays_the_roster_witness:
  "\<exists>rx. rx_reach demo_udp [7] False silent_codec () rx
      [RxEvent 0 (Some (VeAlreadyPresent 3)), RxEvent 5 (Some (VeJoined 4))] \<and>
    dom (map_of (rx_current rx)) = {3, 4}"
proof -
  let ?step = "udp_rx_step demo_udp [7] False ()"
  let ?a = "RxEvent 0 (Some (VeAlreadyPresent 3))" and ?b = "RxEvent 5 (Some (VeJoined 4))"
  let ?rx = "?step ?b (?step ?a udp_rx_new)"
  have run: "rx_status udp_rx_new = RxRunning" "rx_status (?step ?a udp_rx_new) = RxRunning"
    by (simp_all add: udp_rx_new_def udp_rx_step_def rx_register_def hang_up_def)
  have "rx_reach demo_udp [7] False silent_codec () ?rx (([] @ [?a]) @ [?b])"
    by (intro rx_reach.event rx_reach.start run)
  then have reach: "rx_reach demo_udp [7] False silent_codec () ?rx [?a, ?b]" by simp
  let ?evs = "[StreamEvent (SeJoined \<lparr>pm_user = ''bob'', pm_source_id = 4\<rparr>) True]"
  have "dom (map_of (rx_current ?rx)) = roster ?evs (set [3])"
    by (rule client_plays_the_roster [OF reach])
      (simp_all add: told_def map_filter_simps main_run_def main_step_def main_new_def)
  then show ?thesis
    using reach by (intro exI [of _ ?rx]) (auto simp: roster_def)
qed

end
