(* ===== verification/Rest_Api.thy ===== *)
theory Rest_Api
  imports Gateway Client_Main
begin

text \<open>
  The REST interface of the standalone gateway (\<open>server/gateway/src/rest_api.rs\<close>, with the routes of
  \<open>lib.rs\<close>) and the client's use of it (\<open>client/src/channels_api.rs\<close>). JSON is serde's and a
  parameter. A path is the list of its segments, the root has an empty one; answering \<open>HEAD\<close> and
  preflight requests and the upgrade to a WebSocket are left to axum.
\<close>

section \<open>Errors\<close>

text \<open>\<open>'j\<close> are the bodies of answers.\<close>

datatype 'j api_error = InternalServerError | ApiNotFound | WithBody 'j "'j api_error"

fun status_code :: "'j api_error \<Rightarrow> nat" where
  "status_code InternalServerError = 500"
| "status_code ApiNotFound = 404"
| "status_code (WithBody message source) = status_code source"

section \<open>Requests and answers\<close>

datatype api_request =
    GetServers
  | PostServer string
  | GetServer uuid
  | PostChannel uuid string
  | GetChannel uuid
  | PostCleanup

record api_channel =
  ac_channel_id :: uuid
  ac_name :: string
  ac_present :: "client_info list"

record api_server =
  as_server_id :: uuid
  as_name :: string
  as_channels :: "api_channel list"

datatype api_body =
    BodyServers "server_row list" int
  | BodyCreated uuid
  | BodyServer api_server
  | BodyChannel api_channel
  | BodyDeleted "uuid list"

text \<open>Who is in a channel: nobody when it is not open.\<close>

definition list_present :: "uuid \<Rightarrow> gateway \<Rightarrow> client_info list" where
  "list_present room g = (case channels_get room g of
      None \<Rightarrow> [] | Some c \<Rightarrow> local_members (gw_states g ! gc_state c))"

definition api_servers :: "gateway \<Rightarrow> 'j api_error + api_body" where
  "api_servers g = (case registry_get_servers None None (gw_db g) of
      Inl e \<Rightarrow> Inl InternalServerError | Inr (rows, pages) \<Rightarrow> Inr (BodyServers rows pages))"

definition api_new_server :: "uuid \<Rightarrow> string \<Rightarrow> gateway \<Rightarrow> gateway \<times> ('j api_error + api_body)" where
  "api_new_server new_id name g = (case server_create new_id name (gw_db g) of
      (d, Inl e) \<Rightarrow> (g\<lparr>gw_db := d\<rparr>, Inl InternalServerError)
    | (d, Inr i) \<Rightarrow> (g\<lparr>gw_db := d\<rparr>, Inr (BodyCreated i)))"

definition api_get_server :: "uuid \<Rightarrow> gateway \<Rightarrow> 'j api_error + api_body" where
  "api_get_server sid g = (case get_server sid (gw_db g) of
      None \<Rightarrow> Inl ApiNotFound
    | Some s \<Rightarrow> Inr (BodyServer \<lparr>as_server_id = swc_id s, as_name = swc_name s,
        as_channels = map (\<lambda>c. \<lparr>ac_channel_id = ch_id c, ac_name = ch_name c,
          ac_present = list_present (ch_id c) g\<rparr>) (swc_channels s)\<rparr>))"

text \<open>
  The integrated registry answers \<open>Some\<close> whenever creation succeeds, so a missing server is an
  internal error, never \<open>NotFound\<close>.
\<close>

definition api_new_channel ::
  "instant \<Rightarrow> uuid \<Rightarrow> uuid \<Rightarrow> string \<Rightarrow> gateway \<Rightarrow> gateway \<times> ('j api_error + api_body)" where
  "api_new_channel now new_id sid name g = (case channel_create now new_id sid name (gw_db g) of
      (d, Inl e) \<Rightarrow> (g\<lparr>gw_db := d\<rparr>, Inl InternalServerError)
    | (d, Inr i) \<Rightarrow> (g\<lparr>gw_db := d\<rparr>, Inr (BodyCreated i)))"

definition api_get_channel :: "instant \<Rightarrow> uuid \<Rightarrow> gateway \<Rightarrow> 'j api_error + api_body" where
  "api_get_channel now cid g = (case Registry.get_channel now cid (gw_db g) of
      None \<Rightarrow> Inl ApiNotFound
    | Some c \<Rightarrow> Inr (BodyChannel \<lparr>ac_channel_id = ch_id (cm_info c), ac_name = ch_name (cm_info c),
        ac_present = list_present cid g\<rparr>))"

definition api_cleanup :: "instant \<Rightarrow> gateway \<Rightarrow> gateway \<times> ('j api_error + api_body)" where
  "api_cleanup now g = (case cleanup_stale_voice_servers now (gw_db g) of
      (d, gone) \<Rightarrow> (g\<lparr>gw_db := d\<rparr>, Inr (BodyDeleted gone)))"

text \<open>All of them.\<close>

definition api_handle ::
  "instant \<Rightarrow> uuid \<Rightarrow> api_request \<Rightarrow> gateway \<Rightarrow> gateway \<times> ('j api_error + api_body)" where
  "api_handle now new_id req g = (case req of
      GetServers \<Rightarrow> (g, api_servers g)
    | PostServer name \<Rightarrow> api_new_server new_id name g
    | GetServer sid \<Rightarrow> (g, api_get_server sid g)
    | PostChannel sid name \<Rightarrow> api_new_channel now new_id sid name g
    | GetChannel cid \<Rightarrow> (g, api_get_channel now cid g)
    | PostCleanup \<Rightarrow> api_cleanup now g)"

text \<open>The HTTP answer: an error without a body has an empty one.\<close>

definition success_code :: "api_body \<Rightarrow> nat" where
  "success_code b = (case b of BodyCreated i \<Rightarrow> 201 | _ \<Rightarrow> 200)"

definition into_response ::
  "'j \<Rightarrow> (api_body \<Rightarrow> 'j) \<Rightarrow> 'j api_error + api_body \<Rightarrow> nat \<times> 'j" where
  "into_response no_body json_of r = (case r of
      Inl (WithBody message source) \<Rightarrow> (status_code source, message)
    | Inl e \<Rightarrow> (status_code e, no_body)
    | Inr b \<Rightarrow> (success_code b, json_of b))"

text \<open>What the client keeps of the answers.\<close>

record client_channel =
  cc_channel_id :: uuid
  cc_name :: string
  cc_present :: "(string \<times> string) list"     \<comment> \<open>names and client ids\<close>

record client_server =
  csv_server_id :: uuid
  csv_name :: string
  csv_channels :: "client_channel list"

section \<open>Routes\<close>

datatype http_method = MGet | MPost | MOther

record 'j http_request =
  ht_method :: http_method
  ht_path :: "string list"
  ht_body :: 'j

text \<open>Texts of ids and JSON, on both sides; a body that is refused has the status of the refusal.\<close>

record 'j json =
  js_uuid_text :: "uuid \<Rightarrow> string"
  js_uuid_parse :: "string \<Rightarrow> uuid option"
  js_empty :: 'j
  js_refusal :: "nat \<Rightarrow> 'j"
  js_new_server :: "'j \<Rightarrow> nat + string"
  js_new_channel :: "'j \<Rightarrow> nat + (uuid \<times> string)"
  to_json :: "api_body \<Rightarrow> 'j"
  js_servers :: "'j \<Rightarrow> (server_row list \<times> int) option"
  js_server :: "'j \<Rightarrow> client_server option"

datatype routed = ToHandler api_request | ToWebSocket | Refused nat

definition on_method :: "http_method \<Rightarrow> http_method \<Rightarrow> routed \<Rightarrow> routed" where
  "on_method expected m r = (if m = expected then r else Refused 405)"

definition with_id :: "'j json \<Rightarrow> string \<Rightarrow> (uuid \<Rightarrow> api_request) \<Rightarrow> routed" where
  "with_id js seg f = (case js_uuid_parse js seg of None \<Rightarrow> Refused 400 | Some i \<Rightarrow> ToHandler (f i))"

definition with_body :: "nat + 'b \<Rightarrow> ('b \<Rightarrow> api_request) \<Rightarrow> routed" where
  "with_body b f = (case b of Inl st \<Rightarrow> Refused st | Inr x \<Rightarrow> ToHandler (f x))"

definition route :: "'j json \<Rightarrow> 'j http_request \<Rightarrow> routed" where
  "route js rq = (case ht_path rq of
      [p] \<Rightarrow>
        (if p = ''ws'' then on_method MGet (ht_method rq) ToWebSocket
         else if p = ''channels'' then on_method MPost (ht_method rq)
           (with_body (js_new_channel js (ht_body rq)) (\<lambda>(sid, name). PostChannel sid name))
         else if p = ''servers'' then (case ht_method rq of
             MGet \<Rightarrow> ToHandler GetServers
           | MPost \<Rightarrow> with_body (js_new_server js (ht_body rq)) PostServer
           | MOther \<Rightarrow> Refused 405)
         else Refused 404)
    | [p, q] \<Rightarrow>
        (if p = ''channels'' \<and> q \<noteq> '''' then on_method MGet (ht_method rq) (with_id js q GetChannel)
         else if p = ''servers'' \<and> q \<noteq> '''' then on_method MGet (ht_method rq) (with_id js q GetServer)
         else if p = ''voice_servers'' \<and> q = ''cleanup'' then on_method MPost (ht_method rq) (ToHandler PostCleanup)
         else Refused 404)
    | _ \<Rightarrow> Refused 404)"

definition gateway_answers ::
  "'j json \<Rightarrow> instant \<Rightarrow> uuid \<Rightarrow> gateway \<Rightarrow> 'j http_request \<Rightarrow> (nat \<times> 'j option) option" where
  "gateway_answers js now new_id g rq = Some (map_prod id Some (case route js rq of
      ToHandler req \<Rightarrow> into_response (js_empty js) (to_json js) (snd (api_handle now new_id req g))
    | ToWebSocket \<Rightarrow> (101, js_empty js)
    | Refused st \<Rightarrow> (st, js_refusal js st)))"

section \<open>The client\<close>

datatype request_error = Retriable | Fatal

text \<open>\<open>None\<close> is a failure of the transport.\<close>

definition handle_response ::
  "('j \<Rightarrow> 'v option) \<Rightarrow> (nat \<times> 'j option) option \<Rightarrow> request_error + 'v" where
  "handle_response parse resp = (case resp of
      None \<Rightarrow> Inl Retriable
    | Some (st, None) \<Rightarrow> Inl Retriable
    | Some (st, Some body) \<Rightarrow>
        (if 200 \<le> st \<and> st < 300 then (case parse body of None \<Rightarrow> Inl Fatal | Some v \<Rightarrow> Inr v)
         else if 400 \<le> st \<and> st < 500 then Inl Fatal
         else Inl Retriable))"

text \<open>What the client reads of an answer.\<close>

definition channel_view :: "(uuid \<Rightarrow> string) \<Rightarrow> api_channel \<Rightarrow> client_channel" where
  "channel_view uuid_text c = \<lparr>cc_channel_id = ac_channel_id c, cc_name = ac_name c,
     cc_present = map (\<lambda>i. (ci_name i, uuid_text (ci_client_id i))) (ac_present c)\<rparr>"

definition server_view :: "(uuid \<Rightarrow> string) \<Rightarrow> api_server \<Rightarrow> client_server" where
  "server_view uuid_text s = \<lparr>csv_server_id = as_server_id s, csv_name = as_name s,
     csv_channels = map (channel_view uuid_text) (as_channels s)\<rparr>"

text \<open>
  What is documented of the libraries: the text of an id is not empty and parses to the id, and
  reading JSON that was written gives the fields both sides name.
\<close>

definition json_ok :: "'j json \<Rightarrow> bool" where
  "json_ok js \<longleftrightarrow> (\<forall>i. js_uuid_text js i \<noteq> '''' \<and> js_uuid_parse js (js_uuid_text js i) = Some i) \<and>
     (\<forall>rows pages. js_servers js (to_json js (BodyServers rows pages)) = Some (rows, pages)) \<and>
     (\<forall>s. js_server js (to_json js (BodyServer s)) = Some (server_view (js_uuid_text js) s))"

text \<open>A segment pushed to the root replaces the empty one.\<close>

definition push_segment :: "string \<Rightarrow> string list \<Rightarrow> string list" where
  "push_segment p path = (if path = [''''] then [p] else path @ [p])"

definition http_get :: "'j json \<Rightarrow> string list \<Rightarrow> 'j http_request" where
  "http_get js path = \<lparr>ht_method = MGet, ht_path = path, ht_body = js_empty js\<rparr>"

definition client_get_servers ::
  "'j json \<Rightarrow> string list \<Rightarrow> ('j http_request \<Rightarrow> (nat \<times> 'j option) option) \<Rightarrow>
     request_error + (server_row list \<times> int)" where
  "client_get_servers js base send =
     handle_response (js_servers js) (send (http_get js (push_segment ''servers'' base)))"

definition client_get_server ::
  "'j json \<Rightarrow> string list \<Rightarrow> ('j http_request \<Rightarrow> (nat \<times> 'j option) option) \<Rightarrow> uuid \<Rightarrow>
     request_error + client_server" where
  "client_get_server js base send i = handle_response (js_server js)
     (send (http_get js (push_segment (js_uuid_text js i) (push_segment ''servers'' base))))"

lemma client_routes:
  assumes "json_ok js"
  shows "route js (http_get js (push_segment ''servers'' [''''])) = ToHandler GetServers"
    and "route js (http_get js (push_segment (js_uuid_text js i) (push_segment ''servers'' ['''']))) =
      ToHandler (GetServer i)"
  using assms by (simp_all add: route_def http_get_def push_segment_def on_method_def with_id_def json_ok_def)

text \<open>A base URL whose path ends in a slash keeps the empty segment.\<close>

lemma base_with_slash:
  assumes "xs \<noteq> []"
  shows "client_get_servers js (xs @ ['''']) (gateway_answers js now new_id g) = Inl Fatal"
proof -
  have "route js (http_get js (push_segment ''servers'' (xs @ ['''']))) = Refused 404"
    using assms by (cases xs; cases "tl xs") (auto simp: route_def http_get_def push_segment_def split: list.splits)
  then show ?thesis by (simp add: client_get_servers_def gateway_answers_def handle_response_def)
qed

lemma servers_answer:
  assumes "json_ok js"
  shows "client_get_servers js [''''] (gateway_answers js now new_id g) =
      Inr (take 100 (servers (gw_db g)), (int (length (servers (gw_db g))) + 99) div 100)"
proof -
  have "registry_get_servers None None (gw_db g) =
      Inr (take 100 (servers (gw_db g)), (int (length (servers (gw_db g))) + 99) div 100)"
    by (cases "servers (gw_db g)")
      (auto simp: registry_get_servers_def get_servers_def load_and_count_pages_def per_page_def
        paginate_def run_paginated_def wrap64_def o_def)
  then show ?thesis
    using assms by (simp add: client_get_servers_def gateway_answers_def client_routes [OF assms] api_handle_def api_servers_def
        into_response_def success_code_def handle_response_def json_ok_def)
qed

lemma server_answer:
  assumes "json_ok js"
  shows "client_get_server js [''''] (gateway_answers js now new_id g) sid =
      (case get_server sid (gw_db g) of
         None \<Rightarrow> Inl Fatal
       | Some s \<Rightarrow> Inr \<lparr>csv_server_id = sid, csv_name = swc_name s,
           csv_channels = map (\<lambda>c. \<lparr>cc_channel_id = ch_id c, cc_name = ch_name c,
             cc_present = map (\<lambda>i. (ci_name i, js_uuid_text js (ci_client_id i)))
               (list_present (ch_id c) g)\<rparr>) (swc_channels s)\<rparr>)"
proof -
  have "swc_id s = sid" if "get_server sid (gw_db g) = Some s" for s
    using that by (auto simp: get_server_def server_get_def find_Some_iff split: option.splits)
  then show ?thesis
    using assms by (auto simp: client_get_server_def gateway_answers_def client_routes [OF assms] api_handle_def api_get_server_def
        into_response_def success_code_def handle_response_def json_ok_def server_view_def
        channel_view_def split: option.splits)
qed

text \<open>
  C30: The client sees what the gateway has. Over a transport that delivers, listing the servers gives
  the first hundred servers of the registry and their number of pages; asking for a server gives its
  channels, each with the members of its open room and with none when it is not open, and an
  unknown server is a fatal error. That is so for a base URL without a path; one with a path that ends
  in a slash fails.
\<close>

theorem client_sees_the_gateway:
  assumes "json_ok js"
  shows "client_get_servers js [''''] (gateway_answers js now new_id g) =
      Inr (take 100 (servers (gw_db g)), (int (length (servers (gw_db g))) + 99) div 100) \<and>
    client_get_server js [''''] (gateway_answers js now new_id g) sid =
      (case get_server sid (gw_db g) of
         None \<Rightarrow> Inl Fatal
       | Some s \<Rightarrow> Inr \<lparr>csv_server_id = sid, csv_name = swc_name s,
           csv_channels = map (\<lambda>c. \<lparr>cc_channel_id = ch_id c, cc_name = ch_name c,
             cc_present = map (\<lambda>i. (ci_name i, js_uuid_text js (ci_client_id i)))
               (list_present (ch_id c) g)\<rparr>) (swc_channels s)\<rparr>) \<and>
    (\<forall>xs. xs \<noteq> [] \<longrightarrow> client_get_servers js (xs @ ['''']) (gateway_answers js now new_id g) = Inl Fatal)"
  using servers_answer [OF assms] server_answer [OF assms] base_with_slash by (intro conjI) blast+

lemma missing_server_is_internal:
  assumes "sid \<notin> sr_id ` set (servers (gw_db g))"
  shows "into_response none to_text (snd (api_handle now new_id (PostChannel sid name) g)) = (500, none)"
  using assms by (simp add: api_handle_def api_new_channel_def channel_create_def into_response_def)

text \<open>Bodies that are the answers themselves.\<close>

definition tally_id :: "uuid \<Rightarrow> string" where
  "tally_id i = replicate (Suc (unat i)) CHR ''x''"

definition plain_json :: "api_body option json" where
  "plain_json = \<lparr>js_uuid_text = tally_id, js_uuid_parse = (\<lambda>s. Some (of_nat (length s - 1))),
     js_empty = None, js_refusal = (\<lambda>st. None), js_new_server = (\<lambda>b. Inl 422), js_new_channel = (\<lambda>b. Inl 422),
     to_json = Some,
     js_servers = (\<lambda>b. case b of Some (BodyServers rows pages) \<Rightarrow> Some (rows, pages) | _ \<Rightarrow> None),
     js_server = (\<lambda>b. case b of Some (BodyServer s) \<Rightarrow> Some (server_view tally_id s) | _ \<Rightarrow> None)\<rparr>"

lemma plain_json_ok: "json_ok plain_json"
  by (simp add: json_ok_def plain_json_def tally_id_def)

theorem client_sees_the_gateway_witness:
  "client_get_servers plain_json [''''] (gateway_answers plain_json 0 1 (gateway_new empty_server sample_db)) =
     Inr ([\<lparr>sr_id = 5, sr_name = ''s''\<rparr>], 1) \<and>
   client_get_server plain_json [''''] (gateway_answers plain_json 0 1 (gateway_new empty_server sample_db)) 5 =
     Inr \<lparr>csv_server_id = 5, csv_name = ''s'',
       csv_channels = [\<lparr>cc_channel_id = 7, cc_name = ''c'', cc_present = []\<rparr>]\<rparr> \<and>
   client_get_server plain_json [''''] (gateway_answers plain_json 0 1 (gateway_new empty_server sample_db)) 6 =
     Inl Fatal"
proof -
  let ?g = "gateway_new empty_server sample_db"
  have g: "gw_db ?g = sample_db" "list_present c ?g = []" for c
    by (simp_all add: gateway_new_def list_present_def channels_get_def)
  have d: "servers sample_db = [\<lparr>sr_id = 5, sr_name = ''s''\<rparr>]" by (simp add: sample_db_value)
  have s: "get_server 5 sample_db = Some \<lparr>swc_id = 5, swc_name = ''s'',
      swc_channels = [\<lparr>ch_id = 7, ch_name = ''c''\<rparr>]\<rparr>" "get_server 6 sample_db = None"
    by (simp_all add: get_server_def server_get_def server_channels_def info_of_def sample_db_value)
  note sees = client_sees_the_gateway [OF plain_json_ok, of 0 1 ?g, unfolded g d]
  show ?thesis using sees [of 5] sees [of 6] by (simp add: s)
qed

end
