(* ===== verification/Control_Path.thy ===== *)
theory Control_Path
  imports Session Client_Main "HOL-Library.Sublist"
begin

text \<open>
  The set-up of a voice connection with both its ends: the client program
  (\<open>async_main_\<close> in \<open>client/src/main.rs\<close>, \<open>Client_Main\<close>) against the session that serves it
  (\<open>ServerSession\<close> in \<open>server/gateway/src/server/session.rs\<close>, \<open>Session\<close>). A run of the session gives
  what it took from its client and what it told it; the two fit when the session has received a
  prefix of what the client sent and the client reads what the session told it. Keepalives are not
  part of it: the tasks at both ends of the socket send and drop them (\<open>Ws_Stream\<close>).
\<close>

section \<open>Both sides of a run\<close>

fun taken :: "'v action \<Rightarrow> client_event list" where
  "taken (ANext (Some e)) = [e]"
| "taken (ASelect v (ClientEvt (Some e))) = [e]"
| "taken _ = []"

fun told_by :: "'v action \<Rightarrow> server_event list" where
  "told_by (ASend e True) = [e]"
| "told_by _ = []"

definition requests_of :: "'v action list \<Rightarrow> client_event list" where
  "requests_of tr = concat (map taken tr)"

definition replies_of :: "'v action list \<Rightarrow> server_event list" where
  "replies_of tr = concat (map told_by tr)"

lemma requests_of_simps [simp]: "requests_of [] = []" "requests_of (tr @ [a]) = requests_of tr @ taken a"
  by (simp_all add: requests_of_def)

lemma replies_of_simps [simp]: "replies_of [] = []" "replies_of (tr @ [a]) = replies_of tr @ told_by a"
  by (simp_all add: replies_of_def)

section \<open>The session of a client that follows the protocol\<close>

text \<open>
  How far such a client and its session are, with the answers of the voice host and the room that
  the session has on the way; \<open>OffScript\<close> when the client said anything else.
\<close>

datatype 'v talk =
    OffScript
  | Quiet
  | Named
  | Welcomed uuid
  | Joining uuid
  | Refused uuid
  | Rejected uuid
  | Located uuid 'v connection_data
  | Counted uuid 'v connection_data "client_info list"
  | Told uuid 'v connection_data "client_info list"
  | Replied uuid 'v connection_data "client_info list"
  | Secured uuid 'v connection_data "client_info list" session_data
  | Connected uuid 'v connection_data "client_info list" session_data

record script =
  sc_client :: uuid
  sc_name :: string
  sc_room :: uuid
  sc_addr :: client_announce

definition lines_of :: "script \<Rightarrow> client_event list" where
  "lines_of sc = [CeInit \<lparr>user_id = sc_client sc, init_name = sc_name sc\<rparr>, CeJoin (sc_room sc),
     CeUdpAnnounce (sc_addr sc)]"

definition open_for :: "script \<Rightarrow> open_connection_req" where
  "open_for sc = \<lparr>oc_user_name = sc_name sc, oc_channel_id = sc_room sc, oc_client_id = sc_client sc\<rparr>"

definition establish_for :: "script \<Rightarrow> establish_session_req" where
  "establish_for sc = \<lparr>es_channel_id = sc_room sc, es_client_id = sc_client sc,
     es_client_addr = sa_from (ca_ip (sc_addr sc)) (ca_port (sc_addr sc))\<rparr>"

definition announce_of :: "connection_data \<Rightarrow> server_announce" where
  "announce_of c = \<lparr>sa_msg_ip = sa_ip (cd_sock c), sa_msg_port = sa_port (cd_sock c),
     sa_source_id = cd_source_id c\<rparr>"

definition ready_of ::
  "(u8 list \<Rightarrow> string) \<Rightarrow> script \<Rightarrow> connection_data \<Rightarrow> client_info list \<Rightarrow> session_data \<Rightarrow> ready_msg" where
  "ready_of b64 sc c ms sd = ready_for b64 (open_for sc) c ms sd"

text \<open>What the client's next message makes of a talk: at a read, and between two iterations.\<close>

definition on_next :: "script \<Rightarrow> client_event \<Rightarrow> 'v talk \<Rightarrow> 'v talk option" where
  "on_next sc e m = (case m of
      Quiet \<Rightarrow> Some (if [e] = take 1 (lines_of sc) then Named else OffScript)
    | Told s v c ms \<Rightarrow> Some (if e = CeUdpAnnounce (sc_addr sc) then Replied s v c ms else OffScript)
    | _ \<Rightarrow> None)"

definition on_select :: "script \<Rightarrow> client_event \<Rightarrow> 'v talk \<Rightarrow> 'v talk option" where
  "on_select sc e m = (case m of
      Welcomed s \<Rightarrow> Some (if e = CeJoin (sc_room sc) then Joining s else OffScript)
    | Refused s \<Rightarrow> Some (if e = CeUdpAnnounce (sc_addr sc) then Rejected s else OffScript)
    | Rejected s \<Rightarrow> Some OffScript
    | Connected s v c ms sd \<Rightarrow> Some OffScript
    | _ \<Rightarrow> None)"

definition on_send ::
  "(u8 list \<Rightarrow> string) \<Rightarrow> script \<Rightarrow> server_event \<Rightarrow> 'v talk \<Rightarrow> 'v talk option" where
  "on_send b64 sc e m = (case m of
      Named \<Rightarrow> (case e of SeInit s \<Rightarrow> Some (Welcomed s) | _ \<Rightarrow> None)
    | Joining s \<Rightarrow> (if e = SeJoinError (sc_room sc) then Some (Refused s) else None)
    | Counted s v c ms \<Rightarrow>
        (if e = SeUdpAnnounce (announce_of c) then Some (Told s v c ms) else None)
    | Secured s v c ms sd \<Rightarrow>
        (if e = SeReady (ready_of b64 sc c ms sd) then Some (Connected s v c ms sd) else None)
    | Connected s v c ms sd \<Rightarrow> Some m
    | _ \<Rightarrow> None)"

definition scripted :: "(u8 list \<Rightarrow> string) \<Rightarrow> script \<Rightarrow> ('v, 'v talk) monitor" where
  "scripted b64 sc a m = (if m = OffScript then Some m else case a of
      ANext (Some e) \<Rightarrow> on_next sc e m
    | ASelect has_voice (ClientEvt (Some e)) \<Rightarrow> on_select sc e m
    | ASend e True \<Rightarrow> on_send b64 sc e m
    | AOpen v q (Inr c) \<Rightarrow> (case m of
        Joining s \<Rightarrow> (if q = open_for sc then Some (Located s v c) else None) | _ \<Rightarrow> None)
    | AMembers st (Some ms) \<Rightarrow> (case m of
        Located s v c \<Rightarrow> Some (Counted s v c ms) | _ \<Rightarrow> None)
    | AEstablish v' q (Inr sd) \<Rightarrow> (case m of
        Replied s v c ms \<Rightarrow>
          (if v' = v \<and> q = establish_for sc then Some (Secured s v c ms sd) else None)
      | _ \<Rightarrow> None)
    | _ \<Rightarrow> Some m)"

text \<open>Where a talk may be between two iterations of the session.\<close>

definition between :: "script \<Rightarrow> 'v session \<Rightarrow> 'v talk \<Rightarrow> bool" where
  "between sc s m = (case m of
      OffScript \<Rightarrow> True
    | Connected sid v c ms sd \<Rightarrow> True
    | Welcomed sid \<Rightarrow> ss_voice s = None \<and> ss_client_id s = sc_client sc \<and> ss_client_name s = sc_name sc
    | Refused sid \<Rightarrow> ss_voice s = None
    | Rejected sid \<Rightarrow> ss_voice s = None
    | _ \<Rightarrow> False)"

lemma bool_case_same [simp]: "(case b of True \<Rightarrow> x | False \<Rightarrow> x) = x"
  by (cases b) auto

lemmas scripted_defs = scripted_def on_next_def on_select_def on_send_def between_def
  lines_of_def open_for_def establish_for_def announce_of_def ready_of_def ready_for_def

interpretation dialogue: session_monitor b64 "scripted b64 sc" Quiet "between sc" "\<lambda>e m. True"
  for b64 :: "u8 list \<Rightarrow> string" and sc :: script
proof
  show "obeys (scripted b64 sc) (between sc) (\<lambda>e m. True) (session_init sid) Quiet" for sid
    by (auto simp: program_defs obeys_andthen pre_def scripted_defs split: program_splits)
  show "obeys (scripted b64 sc) (\<lambda>r m. case r of Some s \<Rightarrow> between sc s m | None \<Rightarrow> True)
      (\<lambda>e m. True) (session_iter b64 s) m"
    if "between sc s m" for s :: "'a session" and m
    using that
    by (cases "ss_voice s"; cases m)
      (auto simp: program_defs obeys_andthen obeys_on_error pre_def scripted_defs
        split: program_splits)
qed

section \<open>What both sides have said\<close>

text \<open>The messages exchanged, and the answers the session has got, at each point of a talk.\<close>

fun taken_at :: "script \<Rightarrow> 'v talk \<Rightarrow> nat" where
  "taken_at sc OffScript = 0"
| "taken_at sc Quiet = 0"
| "taken_at sc Named = 1"
| "taken_at sc (Welcomed s) = 1"
| "taken_at sc (Joining s) = 2"
| "taken_at sc (Refused s) = 2"
| "taken_at sc (Rejected s) = 3"
| "taken_at sc (Located s v c) = 2"
| "taken_at sc (Counted s v c ms) = 2"
| "taken_at sc (Told s v c ms) = 2"
| "taken_at sc (Replied s v c ms) = 3"
| "taken_at sc (Secured s v c ms sd) = 3"
| "taken_at sc (Connected s v c ms sd) = 3"

fun told_at :: "(u8 list \<Rightarrow> string) \<Rightarrow> script \<Rightarrow> 'v talk \<Rightarrow> server_event list" where
  "told_at b64 sc OffScript = []"
| "told_at b64 sc Quiet = []"
| "told_at b64 sc Named = []"
| "told_at b64 sc (Welcomed s) = [SeInit s]"
| "told_at b64 sc (Joining s) = [SeInit s]"
| "told_at b64 sc (Refused s) = [SeInit s, SeJoinError (sc_room sc)]"
| "told_at b64 sc (Rejected s) = [SeInit s, SeJoinError (sc_room sc)]"
| "told_at b64 sc (Located s v c) = [SeInit s]"
| "told_at b64 sc (Counted s v c ms) = [SeInit s]"
| "told_at b64 sc (Told s v c ms) = [SeInit s, SeUdpAnnounce (announce_of c)]"
| "told_at b64 sc (Replied s v c ms) = [SeInit s, SeUdpAnnounce (announce_of c)]"
| "told_at b64 sc (Secured s v c ms sd) = [SeInit s, SeUdpAnnounce (announce_of c)]"
| "told_at b64 sc (Connected s v c ms sd) =
     [SeInit s, SeUdpAnnounce (announce_of c), SeReady (ready_of b64 sc c ms sd)]"

fun answered_at :: "script \<Rightarrow> 'v talk \<Rightarrow> 'v action set \<Rightarrow> bool" where
  "answered_at sc (Located s v c) A = (AOpen v (open_for sc) (Inr c) \<in> A)"
| "answered_at sc (Counted s v c ms) A =
     (AOpen v (open_for sc) (Inr c) \<in> A \<and> (\<exists>st. AMembers st (Some ms) \<in> A))"
| "answered_at sc (Told s v c ms) A =
     (AOpen v (open_for sc) (Inr c) \<in> A \<and> (\<exists>st. AMembers st (Some ms) \<in> A))"
| "answered_at sc (Replied s v c ms) A =
     (AOpen v (open_for sc) (Inr c) \<in> A \<and> (\<exists>st. AMembers st (Some ms) \<in> A))"
| "answered_at sc (Secured s v c ms sd) A =
     (AOpen v (open_for sc) (Inr c) \<in> A \<and> (\<exists>st. AMembers st (Some ms) \<in> A) \<and>
      AEstablish v (establish_for sc) (Inr sd) \<in> A)"
| "answered_at sc (Connected s v c ms sd) A =
     (AOpen v (open_for sc) (Inr c) \<in> A \<and> (\<exists>st. AMembers st (Some ms) \<in> A) \<and>
      AEstablish v (establish_for sc) (Inr sd) \<in> A)"
| "answered_at sc _ A = True"

definition connected :: "'v talk \<Rightarrow> bool" where
  "connected m = (case m of Connected s v c ms sd \<Rightarrow> True | _ \<Rightarrow> False)"

definition recorded :: "(u8 list \<Rightarrow> string) \<Rightarrow> script \<Rightarrow> 'v action list \<Rightarrow> 'v talk \<Rightarrow> bool" where
  "recorded b64 sc tr m =
     (if m = OffScript then \<not> prefix (requests_of tr) (lines_of sc)
      else requests_of tr = take (taken_at sc m) (lines_of sc) \<and> answered_at sc m (set tr) \<and>
        (if connected m then prefix (told_at b64 sc m) (replies_of tr)
         else replies_of tr = told_at b64 sc m))"

lemma answered_at_mono: "answered_at sc m A \<Longrightarrow> A \<subseteq> B \<Longrightarrow> answered_at sc m B"
  by (cases m) auto

text \<open>An action that is no message leaves the talk where it is.\<close>

lemma recorded_quiet:
  assumes "recorded b64 sc tr m" and "taken a = []" and "told_by a = []"
  shows "recorded b64 sc (tr @ [a]) m"
  using assms answered_at_mono [of sc m "set tr" "set (tr @ [a])"] by (auto simp: recorded_def subset_insertI)

lemma recorded_off:
  assumes "recorded b64 sc tr OffScript"
  shows "recorded b64 sc (tr @ [a]) OffScript"
  using assms append_prefixD [of "requests_of tr" "taken a" "lines_of sc"] by (auto simp: recorded_def)

lemma recorded_step:
  assumes "scripted b64 sc a m = Some m'" and "recorded b64 sc tr m"
  shows "recorded b64 sc (tr @ [a]) m'"
proof (cases "m = OffScript")
  case True
  then show ?thesis using assms recorded_off by (auto simp: scripted_def)
next
  case on: False
  show ?thesis
  proof (cases "taken a = [] \<and> told_by a = [] \<and> m' = m")
    case True
    then show ?thesis using assms(2) recorded_quiet by blast
  next
    case False
    then show ?thesis using assms on
      by (cases m; cases a)
        (auto simp: scripted_def on_next_def on_select_def on_send_def recorded_def connected_def
          lines_of_def split: option.splits sum.splits bool.splits session_event.splits
          if_splits server_event.splits)
  qed
qed

lemma recorded_run: "accepts (scripted b64 sc) tr Quiet = Some m \<Longrightarrow> recorded b64 sc tr m"
proof (induction tr arbitrary: m rule: rev_induct)
  case Nil
  then show ?case by (simp add: recorded_def connected_def)
next
  case (snoc a tr)
  then obtain n where "accepts (scripted b64 sc) tr Quiet = Some n" "scripted b64 sc a n = Some m"
    by (auto simp: accepts_append bind_eq_Some_conv split: option.splits)
  then show ?case using snoc.IH recorded_step by blast
qed

section \<open>The client against its session\<close>

definition script_for :: "uuid \<Rightarrow> string \<Rightarrow> uuid \<Rightarrow> client_announce \<Rightarrow> script" where
  "script_for i name room a = \<lparr>sc_client = i, sc_name = name, sc_room = room, sc_addr = a\<rparr>"

definition announced :: "socket_addr \<Rightarrow> client_announce" where
  "announced addr = \<lparr>ca_ip = sa_ip addr, ca_port = sa_port addr\<rparr>"

lemmas client_defs = client_setup_def step_then_def cs_init_def cs_join_def cs_announce_udp_def
  cs_send_def await_initialized_def await_voice_udp_def await_ready_def cs_await_def next_event_def

text \<open>The address the client announces when it reads these events.\<close>

definition announces :: "client_env \<Rightarrow> uuid \<Rightarrow> server_event list \<Rightarrow> client_announce" where
  "announces e i evs = (case evs of
      _ # SeUdpAnnounce u # _ \<Rightarrow>
        (case discover_loop (ce_udp e) (ce_uuid_bytes e i) (sa_source_id u) 0 (ce_datagrams e) of
           Some (Some addr, rest) \<Rightarrow> announced addr | _ \<Rightarrow> announced (SocketV4 0 0))
    | _ \<Rightarrow> announced (SocketV4 0 0))"

lemma client_says_lines:
  assumes "client_setup e i name room cs = (cs', r)" and "cs_out cs = []"
  shows "prefix (cs_out cs') (lines_of (script_for i name room (announces e i (cs_inc cs))))"
  using assms
  by (auto simp: client_defs lines_of_def script_for_def announced_def announces_def
      split: if_splits list.splits server_event.splits option.splits prod.splits)

lemma discover_ip_address: "discover_ip io u src x = Inr addr \<Longrightarrow> \<exists>ip p. addr = sa_from ip p"
  by (auto simp: discover_ip_def split: sum.splits option.splits server_payload.splits)

lemma discovered_address:
  assumes "discover_loop io u src n inp = Some (Some addr, rest)"
  shows "sa_from (sa_ip addr) (sa_port addr) = addr"
proof -
  have "\<forall>addr. fst y = Some addr \<longrightarrow> (\<exists>ip p. addr = sa_from ip p)"
    if "discover_loop io u src n inp = Some y" for y
    using that
    by (rule discover_loop.raw_induct [rotated])
      (auto split: if_splits sum.splits dest: discover_ip_address)
  then show ?thesis using assms by fastforce
qed

text \<open>
  What it means that a client is set up as its session and the voice host see it: the host opened a
  connection for this user in this room and gave it the source id and the key the client now has,
  it expects the client at the address the client discovered with this source id, and the client
  counts as present the other members the room had then.
\<close>

definition set_up_with ::
  "client_env \<Rightarrow> uuid \<Rightarrow> string \<Rightarrow> uuid \<Rightarrow> 'v action set \<Rightarrow> u8 list \<Rightarrow> u32 \<Rightarrow> voice_event list \<Rightarrow> bool" where
  "set_up_with e i name room A key src present \<longleftrightarrow>
     (\<exists>v c st ms sd addr rest.
        AOpen v \<lparr>oc_user_name = name, oc_channel_id = room, oc_client_id = i\<rparr> (Inr c) \<in> A \<and>
        AMembers st (Some ms) \<in> A \<and>
        discover_loop (ce_udp e) (ce_uuid_bytes e i) src 0 (ce_datagrams e) = Some (Some addr, rest) \<and>
        AEstablish v \<lparr>es_channel_id = room, es_client_id = i, es_client_addr = addr\<rparr> (Inr sd) \<in> A \<and>
        key = sd_crypt_key sd \<and> src = cd_source_id c \<and>
        present = map (\<lambda>m. VeAlreadyPresent (ci_source_id m)) (filter (\<lambda>m. ci_source_id m \<noteq> src) ms))"

text \<open>What the client makes of the events it is told, up to each point of the talk.\<close>

lemma client_hears:
  assumes "client_setup e i name room cs = (cs', r)" and "m \<noteq> OffScript"
    and "if connected m then prefix (told_at b64 sc m) (cs_inc cs) else cs_inc cs = told_at b64 sc m"
    and "sc_room sc = room"
  shows "r = Inl (ControlError (Client_Main.UnexpectedMessage ev)) \<Longrightarrow> ev = SeJoinError room"
    and "r = Inl BadKey \<or> r = Inr x \<Longrightarrow> connected m"
  using assms
  by (cases m; auto simp: client_defs connected_def prefix_def
      split: if_splits option.splits prod.splits)+

lemma client_connected:
  assumes "client_setup e i name room cs = (cs', r)"
    and "prefix [SeInit s, SeUdpAnnounce (announce_of c), SeReady (ready_of b64 sc c ms sd)] (cs_inc cs)"
    and "ce_decode_key e (b64 (sd_crypt_key sd)) = Some (sd_crypt_key sd)"
  shows "r \<noteq> Inl BadKey"
    and "r = Inr (key, src, present) \<Longrightarrow> \<exists>addr rest.
      discover_loop (ce_udp e) (ce_uuid_bytes e i) src 0 (ce_datagrams e) = Some (Some addr, rest) \<and>
      announces e i (cs_inc cs) = announced addr \<and> key = sd_crypt_key sd \<and> src = cd_source_id c \<and>
      present = map (\<lambda>m. VeAlreadyPresent (ci_source_id m)) (filter (\<lambda>m. ci_source_id m \<noteq> src) ms)"
  using assms
  by (auto simp: client_defs prefix_def ready_of_def ready_for_def announce_of_def announces_def
      filter_map o_def split: if_splits option.splits prod.splits)

lemma setup_agreement:
  assumes run: "session_run b64 tr (session_start b64 sid) = Some p"
    and client: "client_setup e i name room cs = (cs', r)"
    and fresh: "cs_out cs = []"
    and sent: "prefix (requests_of tr) (cs_out cs')"
    and told: "cs_inc cs = replies_of tr"
    and codec: "\<And>k. length k = 32 \<Longrightarrow> ce_decode_key e (b64 k) = Some k"
    and keys: "\<And>v q sd. AEstablish v q (Inr sd) \<in> set tr \<Longrightarrow> length (sd_crypt_key sd) = 32"
  shows "(\<forall>ev. r = Inl (ControlError (Client_Main.UnexpectedMessage ev)) \<longrightarrow> ev = SeJoinError room) \<and>
    r \<noteq> Inl BadKey \<and>
    (\<forall>key src present. r = Inr (key, src, present) \<longrightarrow>
       set_up_with e i name room (set tr) key src present)"
proof -
  define sc where "sc = script_for i name room (announces e i (cs_inc cs))"
  obtain m where m: "accepts (scripted b64 sc) tr Quiet = Some m"
    using dialogue.run_accepted [OF run] by blast
  have rec: "recorded b64 sc tr m" by (rule recorded_run [OF m])
  have "prefix (requests_of tr) (lines_of sc)"
    using sent client_says_lines [OF client fresh] prefix_order.trans unfolding sc_def by blast
  then have on: "m \<noteq> OffScript" using rec by (auto simp: recorded_def)
  have view: "if connected m then prefix (told_at b64 sc m) (cs_inc cs) else cs_inc cs = told_at b64 sc m"
    using rec on by (simp add: recorded_def told)
  have room: "sc_room sc = room" by (simp add: sc_def script_for_def)
  note hears = client_hears [OF client on view room]
  have "r \<noteq> Inl BadKey \<and> (\<forall>key src present. r = Inr (key, src, present) \<longrightarrow>
      set_up_with e i name room (set tr) key src present)" if conn: "connected m"
  proof -
    obtain s v c ms sd where mc: "m = Connected s v c ms sd"
      using conn by (cases m) (auto simp: connected_def)
    obtain st where answers: "AOpen v (open_for sc) (Inr c) \<in> set tr" "AMembers st (Some ms) \<in> set tr"
        "AEstablish v (establish_for sc) (Inr sd) \<in> set tr"
      using rec mc by (auto simp: recorded_def)
    have pre: "prefix [SeInit s, SeUdpAnnounce (announce_of c), SeReady (ready_of b64 sc c ms sd)]
        (cs_inc cs)"
      using view conn mc by simp
    have "ce_decode_key e (b64 (sd_crypt_key sd)) = Some (sd_crypt_key sd)"
      using codec keys answers(3) by blast
    note ready = client_connected [OF client pre this]
    have "set_up_with e i name room (set tr) key src present" if "r = Inr (key, src, present)"
      for key src present
      unfolding set_up_with_def
      using ready(2) [OF that] answers discovered_address
      by (fastforce simp: sc_def script_for_def open_for_def establish_for_def announced_def)
    then show ?thesis using ready(1) by blast
  qed
  then show ?thesis using hears by blast
qed

text \<open>
  C5: Client and session agree. While a client sets up its voice connection, its
  session only tells it what it waits for, or that the room does not exist: no other message
  surprises it, and it can always read its key. A client whose set-up succeeds is the one the voice
  host knows: the host opened a connection for this user in this room and gave it the source id and
  the key the client has, it expects datagrams from the address the client discovered with this
  source id, and the client starts with a stream for every other member the room had.
\<close>

theorem client_and_session_agree:
  assumes run: "session_run b64 tr (session_start b64 sid) = Some p"
    and client: "client_setup e i name room cs = (cs', r)"
    and fresh: "cs_out cs = []"
    and sent: "prefix (requests_of tr) (cs_out cs')"
    and told: "cs_inc cs = replies_of tr"
    and codec: "\<And>k. length k = 32 \<Longrightarrow> ce_decode_key e (b64 k) = Some k"
    and keys: "\<And>v q sd. AEstablish v q (Inr sd) \<in> set tr \<Longrightarrow> length (sd_crypt_key sd) = 32"
  shows "(\<forall>ev. r = Inl (ControlError (Client_Main.UnexpectedMessage ev)) \<longrightarrow> ev = SeJoinError room) \<and>
    r \<noteq> Inl BadKey \<and>
    (\<forall>key src present. r = Inr (key, src, present) \<longrightarrow>
       set_up_with e i name room (set tr) key src present)"
  by (rule setup_agreement [OF assms])

section \<open>A set-up from both sides\<close>

definition key_text :: "u8 list \<Rightarrow> string" where
  "key_text k = map (\<lambda>b. char_of (unat b)) k"

definition text_key :: "string \<Rightarrow> u8 list option" where
  "text_key s = (if length s = 32 then Some (map (\<lambda>c. of_nat (of_char c)) s) else None)"

lemma text_key: "length k = 32 \<Longrightarrow> text_key (key_text k) = Some k"
proof -
  have "unat b < 256" for b :: u8
    using unsigned_less [of b, where 'a = nat] by simp
  then have "of_nat (of_char (char_of (unat b) :: char)) = b" for b :: u8
    by (simp add: of_char_of)
  then show "length k = 32 \<Longrightarrow> text_key (key_text k) = Some k"
    by (simp add: text_key_def key_text_def o_def)
qed

definition demo_caller :: client_env where
  "demo_caller = \<lparr>ce_udp = answering_udp, ce_uuid_bytes = (\<lambda>i. [5]), ce_decode_key = text_key,
     ce_datagrams = [Some (Inr [1])]\<rparr>"

definition demo_members :: "client_info list" where
  "demo_members = [\<lparr>ci_client_id = 4, ci_source_id = 2, ci_name = ''bob''\<rparr>, jr_info (rh_joined demo_room)]"

definition demo_secret :: "u8 list" where
  "demo_secret = replicate 32 7"

definition demo_ready :: ready_msg where
  "demo_ready = \<lparr>rd_id = 5, rd_src_id = 9,
     rd_present = [\<lparr>pm_user = ''bob'', pm_source_id = 2\<rparr>, \<lparr>pm_user = ''ann'', pm_source_id = 9\<rparr>],
     rd_crypt_key = key_text demo_secret\<rparr>"

definition demo_setup_trace :: "unit action list" where
  "demo_setup_trace =
     (let ch = \<lparr>gc_room_id = 5, gc_state = 0, gc_voice = ()\<rparr>; me = jr_info (rh_joined demo_room) in
      [ANext (Some (CeInit \<lparr>user_id = 1, init_name = ''ann''\<rparr>)), ASend (SeInit 7) True,
       ASelect False (ClientEvt (Some (CeJoin 5))), AMapGet 5 (Some ch),
       AOpen () \<lparr>oc_user_name = ''ann'', oc_channel_id = 5, oc_client_id = 1\<rparr>
         (Inr \<lparr>cd_sock = demo_sock, cd_source_id = 9\<rparr>),
       AJoin 0 me (Some demo_room), AMembers 0 (Some demo_members),
       ASend (SeUdpAnnounce \<lparr>sa_msg_ip = V4 0x7f000001, sa_msg_port = 33333, sa_source_id = 9\<rparr>) True,
       ANext (Some (CeUdpAnnounce \<lparr>ca_ip = V4 9, ca_port = 77\<rparr>)),
       AEstablish () \<lparr>es_channel_id = 5, es_client_id = 1, es_client_addr = SocketV4 9 77\<rparr>
         (Inr \<lparr>sd_crypt_key = demo_secret\<rparr>),
       ASend (SeReady demo_ready) True])"

lemma demo_setup_run:
  "\<exists>p. session_run key_text demo_setup_trace (session_start key_text 7) = Some p"
  by (simp add: demo_setup_trace_def Let_def session_start_def resume_def program_defs demo_room_def
      demo_sock_def demo_members_def demo_ready_def)

lemma demo_discovery:
  "discover_loop answering_udp [5] 9 0 [Some (Inr [1])] = Some (Some (SocketV4 9 77), [])"
  by (subst discover_loop.simps)
    (simp add: discover_ip_def udp_send_def udp_recv_def answering_udp_def demo_udp_def
      DEFAULT_BUF_SIZE_def server_ip_disco_def server_message_new_def)

theorem client_and_session_agree_witness:
  "\<exists>cs'. client_setup demo_caller 1 ''ann'' 5
       \<lparr>cs_inc = replies_of demo_setup_trace, cs_sends = 3, cs_out = []\<rparr> =
     (cs', Inr (demo_secret, 9, [VeAlreadyPresent 2])) \<and>
   set_up_with demo_caller 1 ''ann'' 5 (set demo_setup_trace) demo_secret 9 [VeAlreadyPresent 2]"
proof -
  let ?cs = "\<lparr>cs_inc = replies_of demo_setup_trace, cs_sends = 3, cs_out = []\<rparr>"
  have inc: "replies_of demo_setup_trace = [SeInit 7, SeUdpAnnounce
      \<lparr>sa_msg_ip = V4 0x7f000001, sa_msg_port = 33333, sa_source_id = 9\<rparr>, SeReady demo_ready]"
    by (simp add: replies_of_def demo_setup_trace_def Let_def)
  have key: "text_key (key_text demo_secret) = Some demo_secret"
    by (rule text_key) (simp add: demo_secret_def)
  have ann: "discover_loop (ce_udp demo_caller) (ce_uuid_bytes demo_caller 1) 9 0
      (ce_datagrams demo_caller) = Some (Some (SocketV4 9 77), [])"
    by (simp add: demo_caller_def demo_discovery)
  let ?cs' = "\<lparr>cs_inc = [], cs_sends = 0, cs_out = requests_of demo_setup_trace\<rparr>"
  have cs': "client_setup demo_caller 1 ''ann'' 5 ?cs = (?cs', Inr (demo_secret, 9, [VeAlreadyPresent 2]))"
    unfolding inc
    by (simp add: client_defs ann, simp add: demo_caller_def demo_ready_def key requests_of_def
        demo_setup_trace_def Let_def)
  obtain p where run: "session_run key_text demo_setup_trace (session_start key_text 7) = Some p"
    using demo_setup_run by blast
  have "length (sd_crypt_key sd) = 32" if "AEstablish v q (Inr sd) \<in> set demo_setup_trace" for v q sd
    using that by (auto simp: demo_setup_trace_def Let_def demo_secret_def)
  then have "set_up_with demo_caller 1 ''ann'' 5 (set demo_setup_trace) demo_secret 9 [VeAlreadyPresent 2]"
    using client_and_session_agree [OF run cs']
    by (simp add: demo_caller_def text_key)
  then show ?thesis using cs' by blast
qed

end
