(* ===== verification/Client_Program.thy ===== *)
theory Client_Program
  imports Rest_Api Control_Path
begin

text \<open>
  The client program as a whole (\<open>main\<close> and \<open>async_main_\<close> in \<open>client/src/main.rs\<close>): it asks the
  gateway for the servers and the channels of one of them, lets its user choose, sets up the voice
  connection, starts the voice tasks (\<open>UdpSetup::run\<close> in \<open>client/src/udp.rs\<close>) and passes on who joins
  and leaves.
\<close>

section \<open>The program\<close>

record client_config =
  cf_ws_endpoint :: string
  cf_gateway_url :: string
  cf_client_id :: "uuid option"
  cf_name :: string
  cf_deaf :: bool
  cf_mute :: bool

text \<open>Choosing a channel. \<open>None\<close> when a choice never returns; \<open>Inr None\<close> when the user quits.\<close>

definition choose_channel ::
  "(request_error + (server_row list \<times> int)) \<Rightarrow> (uuid \<Rightarrow> request_error + client_server) \<Rightarrow>
     string option list \<Rightarrow> (request_error + uuid option) option" where
  "choose_channel got_servers got_server inp = (case got_servers of
      Inl e \<Rightarrow> Some (Inl e)
    | Inr (info, pages) \<Rightarrow> (case read_choice info inp of
        None \<Rightarrow> None
      | Some (None, rest) \<Rightarrow> Some (Inr None)
      | Some (Some srv, rest) \<Rightarrow> (case got_server (sr_id srv) of
          Inl e \<Rightarrow> Some (Inl e)
        | Inr server \<Rightarrow> (case read_choice (csv_channels server) rest of
            None \<Rightarrow> None
          | Some (chan, rest) \<Rightarrow> Some (Inr (map_option cc_channel_id chan))))))"

text \<open>
  \<open>connect\<close> opens the WebSocket of an endpoint; \<open>mic_ok\<close> says whether the microphone could be opened
  when the voice tasks were started. The tasks themselves get \<open>cf_deaf\<close> and \<open>cf_mute\<close>.
\<close>

definition async_main ::
  "client_env \<Rightarrow> client_config \<Rightarrow> uuid \<Rightarrow> (string \<Rightarrow> control_stream option) \<Rightarrow> bool \<Rightarrow> uuid \<Rightarrow>
     main_event list \<Rightarrow> main_state" where
  "async_main e cfg new_id connect mic_ok room evs = (case connect (cf_ws_endpoint cfg) of
      None \<Rightarrow> \<lparr>ms_status = MainFailed, ms_voice = [], ms_out = []\<rparr>
    | Some cs \<Rightarrow>
       (case client_setup e (case cf_client_id cfg of None \<Rightarrow> new_id | Some i \<Rightarrow> i) (cf_name cfg) room cs of
          (cs', Inl err) \<Rightarrow> \<lparr>ms_status = MainFailed, ms_voice = [], ms_out = cs_out cs'\<rparr>
        | (cs', Inr (key, src, present)) \<Rightarrow>
            (if mic_ok
             then main_run evs \<lparr>ms_status = MainRunning, ms_voice = present, ms_out = cs_out cs'\<rparr>
             else \<lparr>ms_status = MainFailed, ms_voice = [], ms_out = cs_out cs'\<rparr>)))"

text \<open>
  \<open>rest\<close> is the REST client of an URL, with its two requests, and \<open>None\<close> when the URL is none it can
  use.
\<close>

definition client_main ::
  "client_config \<Rightarrow>
     (string \<Rightarrow> ((request_error + (server_row list \<times> int)) \<times> (uuid \<Rightarrow> request_error + client_server)) option) \<Rightarrow>
     string option list \<Rightarrow> (uuid \<Rightarrow> main_state) \<Rightarrow> main_status option" where
  "client_main cfg rest inp run = (case rest (cf_gateway_url cfg) of
      None \<Rightarrow> Some MainFailed
    | Some (got_servers, got_server) \<Rightarrow> (case choose_channel got_servers got_server inp of
        None \<Rightarrow> None
      | Some (Inl e) \<Rightarrow> Some MainFailed
      | Some (Inr None) \<Rightarrow> Some MainDone
      | Some (Inr (Some room)) \<Rightarrow> Some (ms_status (run room))))"

section \<open>The chosen channel\<close>

lemma read_choice_member:
  assumes "read_choice vs inp = Some (Some v, rest)"
  shows "v \<in> set vs"
proof -
  have "\<forall>v. fst r = Some v \<longrightarrow> v \<in> set vs" if "read_choice vs inp = Some r" for r
    using that
    by (rule read_choice.raw_induct [rotated])
      (auto simp: chosen_def split: if_splits option.splits prod.splits)
  then show ?thesis using assms by fastforce
qed

lemma server_channel_known:
  assumes "get_server sid d = Some s" and "c \<in> set (swc_channels s)"
  shows "Registry.get_channel now (ch_id c) d \<noteq> None"
  using assms
  by (fastforce simp: get_server_def server_channels_def channel_row_get_def Registry.get_channel_def
      info_of_def find_None_iff split: option.splits)

text \<open>What has to be chosen for the program to go on.\<close>

lemma choose_channel_cases:
  assumes "choose_channel got_servers got_server inp = Some (Inr (Some room))"
  obtains info pages srv server chan where "got_servers = Inr (info, pages)" and "srv \<in> set info"
    and "got_server (sr_id srv) = Inr server" and "chan \<in> set (csv_channels server)"
    and "room = cc_channel_id chan"
  using assms
  by (fastforce simp: choose_channel_def split: sum.splits option.splits prod.splits
      dest: read_choice_member)

text \<open>
  The chosen channel is known. Whatever the user types, a channel the program goes on to join is one
  of a server that the gateway listed, and one the registry has: the gateway's registry does not
  answer for it that there is no such channel.
\<close>

theorem chosen_channel_is_known:
  assumes "json_ok js"
    and "choose_channel (client_get_servers js [''''] (gateway_answers js now new_id g))
      (client_get_server js [''''] (gateway_answers js now' new_id g')) inp = Some (Inr (Some room))"
  shows "(\<exists>srv \<in> set (servers (gw_db g)). \<exists>s. get_server (sr_id srv) (gw_db g') = Some s \<and>
      room \<in> ch_id ` set (swc_channels s)) \<and>
    snd (get_voice_host_for bind_ok t room False (gw_db g') srvr) \<noteq> Some None"
proof -
  obtain info pages srv server chan where choice:
      "client_get_servers js [''''] (gateway_answers js now new_id g) = Inr (info, pages)"
      "srv \<in> set info"
      "client_get_server js [''''] (gateway_answers js now' new_id g') (sr_id srv) = Inr server"
      "chan \<in> set (csv_channels server)" "room = cc_channel_id chan"
    using assms(2) by (rule choose_channel_cases)
  have "srv \<in> set (servers (gw_db g))"
    using choice(1,2) servers_answer [OF assms(1)] by (auto dest: in_set_takeD)
  moreover obtain s where s: "get_server (sr_id srv) (gw_db g') = Some s"
      "room \<in> ch_id ` set (swc_channels s)"
    using choice(3-5) server_answer [OF assms(1)] by (auto split: option.splits)
  moreover have "Registry.get_channel t room (gw_db g') \<noteq> None"
    using server_channel_known [OF s(1)] s(2) by blast
  then have "snd (get_voice_host_for bind_ok t room False (gw_db g') srvr) \<noteq> Some None"
    by (auto simp: get_voice_host_for_def split: option.splits prod.splits bool.splits)
  ultimately show ?thesis by blast
qed

section \<open>Whom the client plays\<close>

definition stream_events :: "main_event list \<Rightarrow> server_event list" where
  "stream_events evs = List.map_filter (\<lambda>ev. case ev of StreamEvent e ok \<Rightarrow> Some e | _ \<Rightarrow> None) evs"

definition hears_reply :: "server_event \<Rightarrow> u32 set \<Rightarrow> u32 set" where
  "hears_reply e qs = (case e of
      SeJoined u \<Rightarrow> insert (pm_source_id u) qs
    | SeLeft u \<Rightarrow> qs - {pm_source_id u}
    | _ \<Rightarrow> qs)"

lemma roster_stream: "roster evs qs = fold hears_reply (stream_events evs) qs"
  by (induction evs arbitrary: qs)
    (auto simp: roster_def stream_events_def map_filter_simps hears_reply_def
      split: main_event.split server_event.split)

lemma setup_reads:
  assumes "client_setup e i name room cs = (cs', Inr x)"
  shows "\<exists>s u r. cs_inc cs = SeInit s # SeUdpAnnounce u # SeReady r # cs_inc cs'"
  using assms
  by (auto simp: client_defs
      split: if_splits list.splits server_event.splits option.splits prod.splits)

lemma main_run_out:
  "ms_status (main_run evs s) = MainRunning \<Longrightarrow> ms_out (main_run evs s) = ms_out s"
proof (induction evs arbitrary: s)
  case (Cons ev evs)
  have cons: "main_run (ev # evs) s = main_run evs (main_step ev s)" by (simp add: main_run_def)
  have running: "ms_status (main_step ev s) = MainRunning"
    by (rule ccontr) (use Cons.prems main_run_stopped [of "main_step ev s" evs] in \<open>simp add: cons\<close>)
  then have "ms_out (main_step ev s) = ms_out s"
    by (auto simp: main_step_def split: main_event.splits server_event.splits if_splits)
  then show ?case using Cons.IH [of "main_step ev s"] Cons.prems by (simp add: cons)
qed (simp add: main_run_def)

lemma async_main_running:
  assumes "async_main e cfg new_id connect mic_ok room evs = s" and "ms_status s = MainRunning"
    and "connect (cf_ws_endpoint cfg) = Some cs"
    and "i = (case cf_client_id cfg of None \<Rightarrow> new_id | Some i \<Rightarrow> i)"
  obtains cs' key src present where "client_setup e i (cf_name cfg) room cs = (cs', Inr (key, src, present))"
    and "ms_out s = cs_out cs'"
    and "fold hears (ms_voice s) {} = fold hears_reply (stream_events evs) (fold hears present {})"
proof -
  obtain cs' key src present where got:
      "client_setup e i (cf_name cfg) room cs = (cs', Inr (key, src, present))" "mic_ok"
    using assms by (auto simp: async_main_def split: prod.splits sum.splits if_splits)
  define s0 where "s0 = \<lparr>ms_status = MainRunning, ms_voice = present, ms_out = cs_out cs'\<rparr>"
  have s: "s = main_run evs s0"
    using assms(1,3,4) got by (simp add: async_main_def s0_def)
  have "fold hears (ms_voice s) {} = fold hears_reply (stream_events evs) (fold hears present {})"
    using main_run_voice [of evs s0 "{}"] assms(2) by (simp add: s roster_stream) (simp add: s0_def)
  moreover have "ms_out s = cs_out cs'"
    using main_run_out [of evs s0] assms(2) by (simp add: s) (simp add: s0_def)
  ultimately show thesis using that got(1) by blast
qed

text \<open>
  C6: The client plays its room. Take a running client, its session and its receiving task, which has
  taken all it was told. It has a stream for exactly the sources of the members the session found
  in the room when it set up the connection of this client, other than the client's own, with those
  the session has reported since as joining added and as leaving removed.
\<close>

theorem client_plays_its_room:
  assumes run: "session_run b64 tr (session_start b64 sid) = Some p"
    and ran: "async_main e cfg new_id connect mic_ok room evs = s" "ms_status s = MainRunning"
      "connect (cf_ws_endpoint cfg) = Some cs"
    and fresh: "cs_out cs = []"
    and sent: "prefix (requests_of tr) (ms_out s)"
    and told: "cs_inc cs = replies_of tr" "stream_events evs = drop 3 (replies_of tr)"
    and codec: "\<And>k. length k = 32 \<Longrightarrow> ce_decode_key e (b64 k) = Some k"
    and keys: "\<And>v q sd. AEstablish v q (Inr sd) \<in> set tr \<Longrightarrow> length (sd_crypt_key sd) = 32"
    and rx: "rx_reach (ce_udp e) key debug cd d rx rxevs" "Client_Main.told rxevs = ms_voice s"
  shows "\<exists>v q c st ms. AOpen v q (Inr c) \<in> set tr \<and> AMembers st (Some ms) \<in> set tr \<and>
    oc_channel_id q = room \<and>
    dom (map_of (rx_current rx)) =
      fold hears_reply (replies_of tr) (ci_source_id ` set ms - {cd_source_id c})"
proof -
  define i where "i = (case cf_client_id cfg of None \<Rightarrow> new_id | Some i \<Rightarrow> i)"
  obtain cs' k src present where got:
      "client_setup e i (cf_name cfg) room cs = (cs', Inr (k, src, present))" "ms_out s = cs_out cs'"
      "fold hears (ms_voice s) {} = fold hears_reply (stream_events evs) (fold hears present {})"
    using ran i_def by (rule async_main_running)
  have "set_up_with e i (cf_name cfg) room (set tr) k src present"
    using setup_agreement [OF run got(1) fresh _ told(1) codec keys] sent got(2) by simp
  then obtain v c st ms where room:
      "AOpen v \<lparr>oc_user_name = cf_name cfg, oc_channel_id = room, oc_client_id = i\<rparr> (Inr c) \<in> set tr"
      "AMembers st (Some ms) \<in> set tr"
      "present = map VeAlreadyPresent (map ci_source_id (filter (\<lambda>m. ci_source_id m \<noteq> cd_source_id c) ms))"
    unfolding set_up_with_def by auto
  have "fold hears present {} = ci_source_id ` set ms - {cd_source_id c}"
    unfolding room(3) hears_present by auto
  moreover obtain s0 u r where "replies_of tr = SeInit s0 # SeUdpAnnounce u # SeReady r # cs_inc cs'"
    using setup_reads [OF got(1)] told(1) by auto
  then have "fold hears_reply (stream_events evs) Q = fold hears_reply (replies_of tr) Q" for Q
    using told(2) by (simp add: hears_reply_def)
  moreover have "dom (map_of (rx_current rx)) = fold hears (ms_voice s) {}"
    using rx_reach_inv [OF rx(1)] rx(2) speakers_told by simp
  ultimately show ?thesis using room(1,2) got(3) by fastforce
qed

section \<open>One client from its choice to its streams\<close>

definition demo_gateway :: gateway where
  "demo_gateway = gateway_new empty_server sample_db"

lemma demo_answers:
  "client_get_servers plain_json [''''] (gateway_answers plain_json 0 1 demo_gateway) =
     Inr ([\<lparr>sr_id = 5, sr_name = ''s''\<rparr>], 1)"
  "client_get_server plain_json [''''] (gateway_answers plain_json 0 1 demo_gateway) 5 =
     Inr \<lparr>csv_server_id = 5, csv_name = ''s'',
       csv_channels = [\<lparr>cc_channel_id = 7, cc_name = ''c'', cc_present = []\<rparr>]\<rparr>"
  unfolding servers_answer [OF plain_json_ok] server_answer [OF plain_json_ok]
  by (simp_all add: demo_gateway_def gateway_new_def list_present_def channels_get_def get_server_def
      server_get_def server_channels_def info_of_def sample_db_value)

text \<open>The user first types something that is no position.\<close>

lemma demo_choice:
  "choose_channel (client_get_servers plain_json [''''] (gateway_answers plain_json 0 1 demo_gateway))
     (client_get_server plain_json [''''] (gateway_answers plain_json 0 1 demo_gateway))
     [Some ''x'', Some ''0'', Some '' 0''] = Some (Inr (Some 7))"
proof -
  note line = read_line_def quits_def chosen_def parse_usize_def is_whitespace_def digit_of_def
  have "read_choice [a] [Some ''x'', Some ''0'', Some '' 0''] = Some (Some a, [Some '' 0''])"
    for a :: server_row
    by (subst read_choice.simps, subst read_choice.simps) (simp add: line)
  moreover have "read_choice [a] [Some '' 0''] = Some (Some a, [])" for a :: client_channel
    by (subst read_choice.simps) (simp add: line)
  ultimately show ?thesis by (simp add: choose_channel_def demo_answers)
qed

theorem chosen_channel_is_known_witness:
  "(7 :: uuid) \<in> ch_id ` set (swc_channels (the (get_server 5 sample_db))) \<and>
   snd (get_voice_host_for (\<lambda>p. True) 0 7 False sample_db empty_server) \<noteq> Some None"
proof -
  have db: "gw_db demo_gateway = sample_db" by (simp add: demo_gateway_def gateway_new_def)
  have "servers sample_db = [\<lparr>sr_id = 5, sr_name = ''s''\<rparr>]" by (simp add: sample_db_value)
  then show ?thesis
    using chosen_channel_is_known [OF plain_json_ok demo_choice,
        where bind_ok = "\<lambda>p. True" and t = 0 and srvr = empty_server, unfolded db] by auto
qed

definition demo_whole_trace :: "unit action list" where
  "demo_whole_trace = demo_setup_trace @
     [ASelect True (ChanEvt (event_joined 8 ''cat'' 4)),
      ASend (SeJoined \<lparr>pm_user = ''cat'', pm_source_id = 4\<rparr>) True]"

lemma demo_whole_run:
  "\<exists>p. session_run key_text demo_whole_trace (session_start key_text 7) = Some p"
  by (simp add: demo_whole_trace_def demo_setup_trace_def Let_def session_start_def resume_def
      program_defs demo_room_def demo_sock_def demo_members_def demo_ready_def event_joined_def)

definition demo_rx_events :: "rx_event list" where
  "demo_rx_events = [RxEvent 0 (Some (VeAlreadyPresent 2)), RxEvent 5 (Some (VeJoined 4))]"

lemma demo_rx: "\<exists>rx. rx_reach (ce_udp demo_caller) demo_secret False silent_codec () rx demo_rx_events"
proof -
  let ?step = "udp_rx_step (ce_udp demo_caller) demo_secret False ()"
  let ?a = "RxEvent 0 (Some (VeAlreadyPresent 2))" and ?b = "RxEvent 5 (Some (VeJoined 4))"
  have "rx_status udp_rx_new = RxRunning" "rx_status (?step ?a udp_rx_new) = RxRunning"
    by (simp_all add: udp_rx_new_def udp_rx_step_def rx_register_def hang_up_def)
  then have "rx_reach (ce_udp demo_caller) demo_secret False silent_codec () (?step ?b (?step ?a udp_rx_new))
      (([] @ [?a]) @ [?b])"
    by (intro rx_reach.event rx_reach.start)
  then show ?thesis by (auto simp: demo_rx_events_def)
qed

theorem client_plays_its_room_witness:
  "\<exists>rx. rx_reach (ce_udp demo_caller) demo_secret False silent_codec () rx demo_rx_events \<and>
     dom (map_of (rx_current rx)) = {2, 4}"
proof -
  let ?cs = "\<lparr>cs_inc = replies_of demo_whole_trace, cs_sends = 3, cs_out = []\<rparr>"
  let ?joined = "SeJoined \<lparr>pm_user = ''cat'', pm_source_id = 4\<rparr>"
  let ?ann = "SeUdpAnnounce \<lparr>sa_msg_ip = V4 0x7f000001, sa_msg_port = 33333, sa_source_id = 9\<rparr>"
  let ?cfg = "\<lparr>cf_ws_endpoint = ''ws'', cf_gateway_url = ''http'', cf_client_id = Some 1,
      cf_name = ''ann'', cf_deaf = False, cf_mute = False\<rparr>"
  define s where "s = async_main demo_caller ?cfg 0 (\<lambda>url. Some ?cs) True 5 [StreamEvent ?joined True]"
  have replies: "replies_of demo_whole_trace = [SeInit 7, ?ann, SeReady demo_ready, ?joined]"
    and requests: "requests_of demo_whole_trace = requests_of demo_setup_trace"
    by (simp_all add: replies_of_def requests_of_def demo_whole_trace_def demo_setup_trace_def Let_def)
  have key: "text_key (key_text demo_secret) = Some demo_secret"
    by (rule text_key) (simp add: demo_secret_def)
  have addr: "discover_loop (ce_udp demo_caller) (ce_uuid_bytes demo_caller 1) 9 0
      (ce_datagrams demo_caller) = Some (Some (SocketV4 9 77), [])"
    by (simp add: demo_caller_def demo_discovery)
  have "client_setup demo_caller 1 ''ann'' 5 ?cs =
      (\<lparr>cs_inc = [?joined], cs_sends = 0, cs_out = requests_of demo_setup_trace\<rparr>,
       Inr (demo_secret, 9, [VeAlreadyPresent 2]))"
    unfolding replies
    by (simp add: client_defs addr, simp add: demo_caller_def demo_ready_def key requests_of_def
        demo_setup_trace_def Let_def)
  then have s: "s = \<lparr>ms_status = MainRunning, ms_voice = [VeAlreadyPresent 2, VeJoined 4],
      ms_out = requests_of demo_setup_trace\<rparr>"
    by (simp add: s_def async_main_def main_run_def main_step_def)
  obtain p rx where run: "session_run key_text demo_whole_trace (session_start key_text 7) = Some p"
      and rx: "rx_reach (ce_udp demo_caller) demo_secret False silent_codec () rx demo_rx_events"
    using demo_whole_run demo_rx by blast
  have told: "Client_Main.told demo_rx_events = ms_voice s"
    by (simp add: told_def demo_rx_events_def map_filter_simps s)
  have keys: "length (sd_crypt_key sd) = 32" if "AEstablish v q (Inr sd) \<in> set demo_whole_trace" for v q sd
    using that by (auto simp: demo_whole_trace_def demo_setup_trace_def Let_def demo_secret_def)
  have codec: "ce_decode_key demo_caller (key_text k) = Some k" if "length k = 32" for k
    using text_key [OF that] by (simp add: demo_caller_def)
  have "\<exists>v q c st ms. AOpen v q (Inr c) \<in> set demo_whole_trace \<and>
      AMembers st (Some ms) \<in> set demo_whole_trace \<and> oc_channel_id q = 5 \<and>
      dom (map_of (rx_current rx)) =
        fold hears_reply (replies_of demo_whole_trace) (ci_source_id ` set ms - {cd_source_id c})"
  proof (rule client_plays_its_room [OF run s_def [symmetric] _ _ _ _ _ _ _ _ rx told])
    show "stream_events [StreamEvent ?joined True] = drop 3 (replies_of demo_whole_trace)"
      by (simp add: stream_events_def map_filter_simps replies)
  qed (use codec keys in \<open>auto simp: s requests\<close>)
  moreover have "ms = demo_members" if "AMembers st (Some ms) \<in> set demo_whole_trace" for st ms
    using that by (auto simp: demo_whole_trace_def demo_setup_trace_def Let_def)
  moreover have "cd_source_id c = 9" if "AOpen v q (Inr c) \<in> set demo_whole_trace" for v q c
    using that by (auto simp: demo_whole_trace_def demo_setup_trace_def Let_def)
  ultimately have "dom (map_of (rx_current rx)) =
      fold hears_reply (replies_of demo_whole_trace) (ci_source_id ` set demo_members - {9})"
    by metis
  then have "dom (map_of (rx_current rx)) = {2, 4}"
    by (auto simp: replies hears_reply_def demo_members_def demo_room_def)
  then show ?thesis using rx by blast
qed

end
