(* ===== verification/Client_Mic.thy ===== *)
theory Client_Mic
  imports Voices_Prelude
begin

text \<open>
  The microphone of the client, \<open>Input\<close> in \<open>client/src/mic.rs\<close>: the samples of the audio callback are
  cut into periods of 20 milliseconds, which are resampled or not, denoised, encoded and handed to
  the sending task. Samples are of any type: their arithmetic, the resampler, the denoiser and the
  encoder are third-party code, functions of states of their own. Client_Device opens the device.
\<close>

section \<open>Slices\<close>

text \<open>\<open>chunks_exact\<close> and its remainder; a chunk size of 0 is a panic in Rust and is not reached.\<close>

function chunks_exact :: "nat \<Rightarrow> 'a list \<Rightarrow> 'a list list \<times> 'a list" where
  "chunks_exact n xs =
     (if n = 0 \<or> length xs < n then ([], xs)
      else (case chunks_exact n (drop n xs) of (cs, rest) \<Rightarrow> (take n xs # cs, rest)))"
  by pat_completeness auto
termination by (relation "measure (\<lambda>(n, xs). length xs)") auto

declare chunks_exact.simps [simp del]

fun interleave :: "'a list \<Rightarrow> 'a list \<Rightarrow> 'a list" where
  "interleave (x # xs) (y # ys) = x # y # interleave xs ys"
| "interleave _ _ = []"

text \<open>The halves of a slice of \<open>2 * n\<close> samples; an assertion fails for any other length.\<close>

fun halves :: "'a list \<Rightarrow> 'a list \<times> 'a list" where
  "halves (x # y # zs) = (case halves zs of (l, r) \<Rightarrow> (x # l, y # r))"
| "halves _ = ([], [])"

definition deinterleave :: "nat \<Rightarrow> 'a list \<Rightarrow> ('a list \<times> 'a list) outcome" where
  "deinterleave n xs = (if length xs = 2 * n then Done (halves xs) else Panicked)"

section \<open>The state\<close>

record ('f, 'r, 'n, 'e) mic_lib =
  ml_zero :: 'f
  ml_up :: "'f \<Rightarrow> 'f"
  ml_down :: "'f \<Rightarrow> 'f"
  ml_frames_in :: "'r \<Rightarrow> nat"     \<comment> \<open>\<open>input_frames_next\<close>: the frames a call needs\<close>
  ml_resample :: "'r \<Rightarrow> 'f list \<times> 'f list \<Rightarrow> ('r \<times> 'f list \<times> 'f list) option"
  ml_denoise :: "'n \<Rightarrow> 'f list \<Rightarrow> 'n \<times> 'f list"
  ml_encode :: "'e \<Rightarrow> 'f list \<Rightarrow> ('e \<times> u8 list) option"

record ('f, 'r, 'n, 'e) mic_input =
  input_buf :: "'f list"
  mi_opus :: 'e
  mi_resampler :: "'r option"
  mi_channels :: nat
  mi_rate :: nat
  denoiser_l :: 'n
  denoiser_r :: 'n
  mi_sent :: "u8 list list"     \<comment> \<open>what \<open>RecordTx\<close> has been given\<close>

section \<open>One period\<close>

text \<open>
  Without resampling. The denoised samples are not used: what is interleaved again are the
  samples that were denoised.
\<close>

fun plain_frames ::
  "('f, 'r, 'n, 'e) mic_lib \<Rightarrow> 'n \<Rightarrow> 'n \<Rightarrow> 'f list list \<Rightarrow> ('n \<times> 'n \<times> 'f list) outcome" where
  "plain_frames lib dl dr [] = Done (dl, dr, [])"
| "plain_frames lib dl dr (c # cs) = (case deinterleave 480 c of
     Panicked \<Rightarrow> Panicked
   | Done (l, r) \<Rightarrow>
       (case (ml_denoise lib dl l, ml_denoise lib dr r) of
          ((dl', denoised_l), (dr', denoised_r)) \<Rightarrow>
            (case plain_frames lib dl' dr' cs of
               Panicked \<Rightarrow> Panicked
             | Done (dl'', dr'', out) \<Rightarrow> Done (dl'', dr'', interleave l r @ out))))"

definition plain_period ::
  "('f, 'r, 'n, 'e) mic_lib \<Rightarrow> 'n \<Rightarrow> 'n \<Rightarrow> 'f list \<Rightarrow> ('n \<times> 'n \<times> 'f list) outcome" where
  "plain_period lib dl dr chunk = (case chunks_exact 960 chunk of (cs, rest) \<Rightarrow>
     (case plain_frames lib dl dr cs of
        Panicked \<Rightarrow> Panicked | Done (dl', dr', out) \<Rightarrow> Done (dl', dr', out @ rest)))"

text \<open>With resampling: frames of both channels are denoised into the buffer of the callback.\<close>

fun resampled_frames ::
  "('f, 'r, 'n, 'e) mic_lib \<Rightarrow> 'n \<Rightarrow> 'n \<Rightarrow> 'f list list \<Rightarrow> 'f list list \<Rightarrow> 'f list list \<Rightarrow>
     'n \<times> 'n \<times> 'f list list" where
  "resampled_frames lib dl dr (l # ls) (r # rs) (out # outs) =
     (case (ml_denoise lib dl l, ml_denoise lib dr r) of
        ((dl', denoised_l), (dr', denoised_r)) \<Rightarrow>
          (case resampled_frames lib dl' dr' ls rs outs of
             (dl'', dr'', res) \<Rightarrow> (dl'', dr'', interleave denoised_l denoised_r # res)))"
| "resampled_frames lib dl dr _ _ outs = (dl, dr, outs)"

definition resize :: "nat \<Rightarrow> 'a \<Rightarrow> 'a list \<Rightarrow> 'a list" where
  "resize n z xs = take n xs @ replicate (n - length xs) z"

text \<open>
  \<open>buf_in\<close> has \<open>rate / 50\<close> frames for each channel, and the period has to fill it exactly; it is what
  \<open>process_into_buffer\<close> is given, whose failure is a panic. The frames of \<open>buf_out\<close> are its answer.
\<close>

definition resampled_period ::
  "('f, 'r, 'n, 'e) mic_lib \<Rightarrow> 'r \<Rightarrow> nat \<Rightarrow> 'n \<Rightarrow> 'n \<Rightarrow> 'f list \<Rightarrow> 'f list \<Rightarrow>
     ('r \<times> 'n \<times> 'n \<times> 'f list) outcome" where
  "resampled_period lib rs rate dl dr chunk resampled = (case deinterleave (rate div 50) chunk of
     Panicked \<Rightarrow> Panicked
   | Done both \<Rightarrow> (case ml_resample lib rs both of
       None \<Rightarrow> Panicked
     | Some (rs', l, r) \<Rightarrow>
         (let buf = resize (2 * length l) (ml_zero lib) resampled in
          case chunks_exact 960 buf of (outs, rest) \<Rightarrow>
            (case resampled_frames lib dl dr (fst (chunks_exact 480 l)) (fst (chunks_exact 480 r)) outs of
               (dl', dr', res) \<Rightarrow> Done (rs', dl', dr', concat res @ rest)))))"

text \<open>
  A period: scaled up, processed, scaled down, encoded, sent. \<open>alive\<close> says that the sending task
  still listens. The second result is the buffer of the callback for the next period.
\<close>

definition mic_period ::
  "('f, 'r, 'n, 'e) mic_lib \<Rightarrow> bool \<Rightarrow> 'f list \<Rightarrow> ('f, 'r, 'n, 'e) mic_input \<Rightarrow> 'f list \<Rightarrow>
     (('f, 'r, 'n, 'e) mic_input \<times> 'f list) outcome" where
  "mic_period lib alive resampled st chunk =
     (let up = map (ml_up lib) chunk;
          processed = (case mi_resampler st of
            Some rs \<Rightarrow> (case resampled_period lib rs (mi_rate st) (denoiser_l st) (denoiser_r st) up resampled of
                Panicked \<Rightarrow> Panicked
              | Done (rs', dl, dr, buf) \<Rightarrow> Done (Some rs', dl, dr, map (ml_down lib) buf))
          | None \<Rightarrow> (case plain_period lib (denoiser_l st) (denoiser_r st) up of
                Panicked \<Rightarrow> Panicked
              | Done (dl, dr, buf) \<Rightarrow> Done (None, dl, dr, map (ml_down lib) buf)))
      in case processed of
           Panicked \<Rightarrow> Panicked
         | Done (rs, dl, dr, down) \<Rightarrow> (case ml_encode lib (mi_opus st) down of
             None \<Rightarrow> Panicked
           | Some (en, packet) \<Rightarrow>
               (if \<not> alive then Panicked
                else Done (st\<lparr>mi_resampler := rs, denoiser_l := dl, denoiser_r := dr, mi_opus := en,
                         mi_sent := mi_sent st @ [packet]\<rparr>,
                       if rs = None then resampled else down))))"

fun mic_periods ::
  "('f, 'r, 'n, 'e) mic_lib \<Rightarrow> bool \<Rightarrow> 'f list \<Rightarrow> ('f, 'r, 'n, 'e) mic_input \<Rightarrow> 'f list list \<Rightarrow>
     ('f, 'r, 'n, 'e) mic_input outcome" where
  "mic_periods lib alive resampled st [] = Done st"
| "mic_periods lib alive resampled st (c # cs) = (case mic_period lib alive resampled st c of
     Panicked \<Rightarrow> Panicked
   | Done (st', resampled') \<Rightarrow> mic_periods lib alive resampled' st' cs)"

section \<open>The callback\<close>

definition stereo :: "nat \<Rightarrow> 'f list \<Rightarrow> 'f list" where
  "stereo n data = (if n = 2 then data else concat (map (\<lambda>x. [x, x]) data))"

definition samples_per_period :: "nat \<Rightarrow> nat" where
  "samples_per_period rate = (2 * rate) div 50"

definition data_callback ::
  "('f, 'r, 'n, 'e) mic_lib \<Rightarrow> bool \<Rightarrow> 'f list \<Rightarrow> ('f, 'r, 'n, 'e) mic_input \<Rightarrow>
     ('f, 'r, 'n, 'e) mic_input outcome" where
  "data_callback lib alive data st =
     (case chunks_exact (samples_per_period (mi_rate st)) (input_buf st @ stereo (mi_channels st) data) of
        (cs, rest) \<Rightarrow> (case mic_periods lib alive [] st cs of
            Panicked \<Rightarrow> Panicked | Done st' \<Rightarrow> Done (st'\<lparr>input_buf := rest\<rparr>)))"

fun mic_run ::
  "('f, 'r, 'n, 'e) mic_lib \<Rightarrow> ('f list \<times> bool) list \<Rightarrow> ('f, 'r, 'n, 'e) mic_input \<Rightarrow>
     ('f, 'r, 'n, 'e) mic_input outcome" where
  "mic_run lib [] st = Done st"
| "mic_run lib ((data, alive) # calls) st = (case data_callback lib alive data st of
     Panicked \<Rightarrow> Panicked | Done st' \<Rightarrow> mic_run lib calls st')"

section \<open>Slices put together\<close>

lemma interleave_halves: "even (length xs) \<Longrightarrow> (case halves xs of (l, r) \<Rightarrow> interleave l r) = xs"
  by (induction xs rule: halves.induct) (auto split: prod.splits)

lemma chunks_exact_concat:
  "chunks_exact n xs = (cs, rest) \<Longrightarrow> concat cs @ rest = xs \<and> (\<forall>c \<in> set cs. length c = n)"
proof (induction n xs arbitrary: cs rest rule: chunks_exact.induct)
  case (1 n xs)
  show ?case
  proof (cases "n = 0 \<or> length xs < n")
    case True
    then show ?thesis using 1(2) by (subst (asm) chunks_exact.simps) simp
  next
    case False
    then obtain cs' where cs': "chunks_exact n (drop n xs) = (cs', rest)" "cs = take n xs # cs'"
      using 1(2) by (subst (asm) chunks_exact.simps) (auto split: prod.splits)
    show ?thesis using 1(1) [OF False cs'(1)] cs'(2) False by simp
  qed
qed

lemma chunks_exact_append:
  "chunks_exact n (xs @ ys) = (case chunks_exact n xs of (cs, rest) \<Rightarrow>
     (case chunks_exact n (rest @ ys) of (cs', rest') \<Rightarrow> (cs @ cs', rest')))"
proof (induction n xs rule: chunks_exact.induct)
  case (1 n xs)
  show ?case
  proof (cases "n = 0 \<or> length xs < n")
    case True
    then have "chunks_exact n xs = ([], xs)" by (subst chunks_exact.simps) simp
    then show ?thesis by (simp split: prod.splits)
  next
    case False
    then have "chunks_exact n xs = (case chunks_exact n (drop n xs) of (cs, rest) \<Rightarrow> (take n xs # cs, rest))"
      "chunks_exact n (xs @ ys) =
        (case chunks_exact n (drop n xs @ ys) of (cs, rest) \<Rightarrow> (take n xs # cs, rest))"
      by (subst chunks_exact.simps, simp)+
    then show ?thesis using 1 [OF False] by (simp split: prod.splits)
  qed
qed

lemma plain_frames_same:
  "\<forall>c \<in> set cs. length c = 960 \<Longrightarrow> \<exists>dl' dr'. plain_frames lib dl dr cs = Done (dl', dr', concat cs)"
proof (induction cs arbitrary: dl dr)
  case (Cons c cs)
  obtain l r where lr: "halves c = (l, r)" by (cases "halves c")
  have c: "interleave l r = c" using interleave_halves [of c] Cons.prems lr by simp
  obtain dl1 x dr1 y where den: "ml_denoise lib dl l = (dl1, x)" "ml_denoise lib dr r = (dr1, y)"
    by (cases "ml_denoise lib dl l"; cases "ml_denoise lib dr r")
  obtain dl' dr' where "plain_frames lib dl1 dr1 cs = Done (dl', dr', concat cs)"
    using Cons.IH [of dl1 dr1] Cons.prems by auto
  then show ?case using Cons.prems lr den c by (simp add: deinterleave_def)
qed simp

lemma plain_period_same: "\<exists>dl' dr'. plain_period lib dl dr chunk = Done (dl', dr', chunk)"
proof -
  obtain cs rest where cs: "chunks_exact 960 chunk = (cs, rest)" by (cases "chunks_exact 960 chunk")
  then have "concat cs @ rest = chunk" "\<forall>c \<in> set cs. length c = 960"
    using chunks_exact_concat by blast+
  then show ?thesis using plain_frames_same [of cs lib dl dr] cs by (auto simp: plain_period_def)
qed

section \<open>What is sent\<close>

text \<open>The packets of a list of periods.\<close>

fun encode_all ::
  "('f, 'r, 'n, 'e) mic_lib \<Rightarrow> 'e \<Rightarrow> 'f list list \<Rightarrow> ('e \<times> u8 list list) option" where
  "encode_all lib en [] = Some (en, [])"
| "encode_all lib en (c # cs) = (case ml_encode lib en c of
     None \<Rightarrow> None
   | Some (en', packet) \<Rightarrow> (case encode_all lib en' cs of
       None \<Rightarrow> None | Some (en'', packets) \<Rightarrow> Some (en'', packet # packets)))"

lemma encode_all_append:
  "encode_all lib en (xs @ ys) = (case encode_all lib en xs of
     None \<Rightarrow> None
   | Some (en', ps) \<Rightarrow> (case encode_all lib en' ys of
       None \<Rightarrow> None | Some (en'', qs) \<Rightarrow> Some (en'', ps @ qs)))"
  by (induction xs arbitrary: en) (auto split: option.splits prod.splits)

abbreviation up_and_down :: "('f, 'r, 'n, 'e) mic_lib \<Rightarrow> 'f list \<Rightarrow> 'f list" where
  "up_and_down lib c \<equiv> map (ml_down lib) (map (ml_up lib) c)"

lemma mic_period_plain:
  assumes "mi_resampler st = None" and "mic_period lib alive resampled st c = Done (st', resampled')"
  shows "\<exists>packet. ml_encode lib (mi_opus st) (up_and_down lib c) = Some (mi_opus st', packet) \<and>
    mi_sent st' = mi_sent st @ [packet] \<and> mi_resampler st' = None \<and> mi_rate st' = mi_rate st \<and>
    mi_channels st' = mi_channels st"
proof -
  obtain dl dr where "plain_period lib (denoiser_l st) (denoiser_r st) (map (ml_up lib) c) =
      Done (dl, dr, map (ml_up lib) c)"
    using plain_period_same [of lib "denoiser_l st" "denoiser_r st" "map (ml_up lib) c"]
    by (elim exE) (rule that)
  then show ?thesis
    using assms by (auto simp: mic_period_def Let_def split: option.splits if_splits)
qed

lemma mic_periods_plain:
  "mic_periods lib alive resampled st cs = Done st' \<Longrightarrow> mi_resampler st = None \<Longrightarrow>
     \<exists>packets. encode_all lib (mi_opus st) (map (up_and_down lib) cs) = Some (mi_opus st', packets) \<and>
       mi_sent st' = mi_sent st @ packets \<and> mi_resampler st' = None \<and> mi_rate st' = mi_rate st \<and>
       mi_channels st' = mi_channels st"
proof (induction cs arbitrary: resampled st)
  case (Cons c cs)
  obtain st1 res1 where st1: "mic_period lib alive resampled st c = Done (st1, res1)"
      "mic_periods lib alive res1 st1 cs = Done st'"
    using Cons.prems(1) by (auto split: outcome.splits)
  obtain packet where p: "ml_encode lib (mi_opus st) (up_and_down lib c) = Some (mi_opus st1, packet)"
      "mi_sent st1 = mi_sent st @ [packet]" "mi_resampler st1 = None" "mi_rate st1 = mi_rate st"
      "mi_channels st1 = mi_channels st"
    using mic_period_plain [OF Cons.prems(2) st1(1)] by blast
  show ?case using Cons.IH [OF st1(2) p(3)] p by auto
qed simp

lemma data_callback_plain:
  assumes "data_callback lib alive data st = Done st'" and "mi_resampler st = None"
    and "chunks_exact (samples_per_period (mi_rate st))
      (input_buf st @ stereo (mi_channels st) data) = (cs, rest)"
  shows "input_buf st' = rest \<and> mi_resampler st' = None \<and> mi_rate st' = mi_rate st \<and>
    mi_channels st' = mi_channels st \<and>
    (\<exists>packets. encode_all lib (mi_opus st) (map (up_and_down lib) cs) = Some (mi_opus st', packets) \<and>
      mi_sent st' = mi_sent st @ packets)"
proof -
  obtain st1 where "mic_periods lib alive [] st cs = Done st1" "st' = st1\<lparr>input_buf := rest\<rparr>"
    using assms(1,3) by (auto simp: data_callback_def split: outcome.splits)
  then show ?thesis using mic_periods_plain [OF _ assms(2)] by fastforce
qed

text \<open>
  C36: At 48 kHz nothing but slicing and encoding happens to the voice. However the audio system cuts
  the samples into callbacks, the packets that are sent encode, one per period, the consecutive
  periods of all samples, scaled up and down again; the rest stays buffered. In particular the
  denoiser, whatever it does, has no effect on what is sent.
\<close>

theorem mic_sends_raw_periods:
  assumes "mic_run lib calls st = Done st'" and "mi_resampler st = None"
    and "chunks_exact (samples_per_period (mi_rate st))
      (input_buf st @ concat (map (\<lambda>call. stereo (mi_channels st) (fst call)) calls)) = (cs, rest)"
  shows "input_buf st' = (if calls = [] then input_buf st else rest) \<and>
    (calls = [] \<or> (\<exists>packets.
      encode_all lib (mi_opus st) (map (up_and_down lib) cs) = Some (mi_opus st', packets) \<and>
      mi_sent st' = mi_sent st @ packets))"
  using assms
proof (induction lib calls st arbitrary: cs rest rule: mic_run.induct)
  case (2 lib data alive calls st)
  obtain st1 where st1: "data_callback lib alive data st = Done st1" "mic_run lib calls st1 = Done st'"
    using 2(2) by (auto split: outcome.splits)
  obtain cs1 rest1 where c1: "chunks_exact (samples_per_period (mi_rate st))
      (input_buf st @ stereo (mi_channels st) data) = (cs1, rest1)"
    by fastforce
  note call = data_callback_plain [OF st1(1) 2(3) c1]
  obtain cs2 rest2 where c2: "chunks_exact (samples_per_period (mi_rate st))
      (rest1 @ concat (map (\<lambda>call. stereo (mi_channels st) (fst call)) calls)) = (cs2, rest2)"
    by fastforce
  have both: "cs = cs1 @ cs2" "rest = rest2"
    using 2(4) c1 c2 chunks_exact_append [of "samples_per_period (mi_rate st)"
        "input_buf st @ stereo (mi_channels st) data"
        "concat (map (\<lambda>call. stereo (mi_channels st) (fst call)) calls)"]
    by simp_all
  show ?case
  proof (cases "calls = []")
    case True
    then have "cs2 = [] \<and> rest2 = rest1"
      using c1 c2 chunks_exact_append [of "samples_per_period (mi_rate st)"
        "input_buf st @ stereo (mi_channels st) data" "[]"] by simp
    then show ?thesis using call st1(2) True both by simp
  next
    case False
    have "input_buf st' = rest2 \<and> (\<exists>packets.
        encode_all lib (mi_opus st1) (map (up_and_down lib) cs2) = Some (mi_opus st', packets) \<and>
        mi_sent st' = mi_sent st1 @ packets)"
      using 2(1) [OF st1(1,2), of cs2 rest2] call c2 False by simp
    then show ?thesis using call both by (auto simp: encode_all_append)
  qed
qed simp

text \<open>Samples are numbers, the denoiser silences everything, the encoder sends the length.\<close>

definition demo_mic_lib :: "(nat, unit, unit, unit) mic_lib" where
  "demo_mic_lib = \<lparr>ml_zero = 0, ml_up = (\<lambda>x. x), ml_down = (\<lambda>x. x), ml_frames_in = (\<lambda>r. 960),
     ml_resample = (\<lambda>r x. None),
     ml_denoise = (\<lambda>n xs. (n, replicate (length xs) 0)),
     ml_encode = (\<lambda>e xs. Some (e, [of_nat (length xs), of_nat (hd xs)]))\<rparr>"

definition demo_mic :: "(nat, unit, unit, unit) mic_input" where
  "demo_mic = \<lparr>input_buf = [], mi_opus = (), mi_resampler = None, mi_channels = 1, mi_rate = 50,
     denoiser_l = (), denoiser_r = (), mi_sent = []\<rparr>"

theorem mic_sends_raw_periods_witness:
  "\<exists>st. mic_run demo_mic_lib [([7], True), ([8, 9], True)] demo_mic = Done st \<and>
     mi_sent st = [[2, 7], [2, 8], [2, 9]] \<and> input_buf st = []"
proof -
  have short: "chunks_exact 960 [a, b] = ([], [a, b])" "chunks_exact n [] = ([], [])"
    "chunks_exact 2 [a, b] = ([[a, b]], [])" "chunks_exact 2 [a, b, c, d] = ([[a, b], [c, d]], [])"
    for a b c d :: nat and n
    by (auto simp: chunks_exact.simps)
  have "\<exists>st. mic_run demo_mic_lib [([7], True), ([8, 9], True)] demo_mic = Done st"
    by (simp add: data_callback_def demo_mic_def samples_per_period_def stereo_def short mic_period_def
        plain_period_def demo_mic_lib_def)
  then obtain st where st: "mic_run demo_mic_lib [([7], True), ([8, 9], True)] demo_mic = Done st"
    by (elim exE) (rule that)
  have "chunks_exact (samples_per_period (mi_rate demo_mic)) (input_buf demo_mic @
      concat (map (\<lambda>call. stereo (mi_channels demo_mic) (fst call)) [([7], True), ([8, 9], True)])) =
      ([[7, 7], [8, 8], [9, 9]], [])"
    by (simp add: demo_mic_def samples_per_period_def stereo_def chunks_exact.simps)
  from mic_sends_raw_periods [OF st _ this]
  have "mi_sent st = [[2, 7], [2, 8], [2, 9]] \<and> input_buf st = []"
    by (simp add: demo_mic_def demo_mic_lib_def)
  then show ?thesis using st by blast
qed

text \<open>
  A sampling rate of 11025 Hz has periods of 441 samples, which is odd: taking them apart fails.
\<close>

lemma odd_period_panics:
  "samples_per_period 11025 = 441 \<and> 2 * (11025 div 50) \<noteq> (441 :: nat)"
  by (simp add: samples_per_period_def)

lemma resampled_period_panics:
  "length chunk \<noteq> 2 * (rate div 50) \<Longrightarrow> resampled_period lib rs rate dl dr chunk resampled = Panicked"
  by (simp add: resampled_period_def deinterleave_def)

end
