(* ===== verification/Client_Device.thy ===== *)
theory Client_Device
  imports Client_Mic
begin

text \<open>
  Opening the microphone, \<open>record\<close>, \<open>find_best_input\<close> and \<open>Input::new\<close> in \<open>client/src/mic.rs\<close>: which of
  the configurations of the device is used, and how the callback of \<open>Client_Mic\<close> fares with it. The
  audio system, the resampler and the encoder are third-party code: what they answer is a parameter.
\<close>

section \<open>Configurations\<close>

text \<open>Of the sample formats only one is looked at; the others are told apart by their size.\<close>

datatype sample_format = F32 | OtherFormat nat

definition sample_size :: "sample_format \<Rightarrow> nat" where
  "sample_size f = (case f of F32 \<Rightarrow> 4 | OtherFormat n \<Rightarrow> n)"

record config_range =
  cr_channels :: u16
  cr_min_rate :: u32
  cr_max_rate :: u32
  cr_format :: sample_format

datatype buffer_size = DefaultSize | FixedSize u32

record stream_config =
  sc_channels :: u16
  sc_rate :: u32
  sc_buffer :: buffer_size

text \<open>\<open>with_sample_rate\<close> panics outside the range.\<close>

definition with_sample_rate :: "u32 \<Rightarrow> config_range \<Rightarrow> stream_config outcome" where
  "with_sample_rate rate c = (if cr_min_rate c \<le> rate \<and> rate \<le> cr_max_rate c
     then Done \<lparr>sc_channels = cr_channels c, sc_rate = rate, sc_buffer = DefaultSize\<rparr> else Panicked)"

section \<open>The choice\<close>

definition accepted :: "config_range \<Rightarrow> bool" where
  "accepted c \<longleftrightarrow> cr_format c = F32 \<or> cr_channels c \<le> 2"

definition ideal :: "config_range \<Rightarrow> bool" where
  "ideal c \<longleftrightarrow> cr_max_rate c > 48000 \<and> cr_min_rate c < 48000 \<and> cr_channels c = 2"

definition better :: "config_range \<Rightarrow> config_range option \<Rightarrow> config_range" where
  "better c fallback = (case fallback of
      Some v \<Rightarrow> (if cr_channels c \<ge> cr_channels v \<and> cr_max_rate c > cr_max_rate v then c else v)
    | None \<Rightarrow> c)"

text \<open>The loop: the first ideal configuration, or the fallback at its end.\<close>

fun pick_input ::
  "config_range option \<Rightarrow> config_range list \<Rightarrow> config_range + config_range option" where
  "pick_input fallback [] = Inr fallback"
| "pick_input fallback (c # cs) =
     (if ideal c then Inl c else pick_input (Some (better c fallback)) cs)"

definition configured :: "u32 \<Rightarrow> config_range \<Rightarrow> (unit + stream_config \<times> sample_format) outcome" where
  "configured rate c = (case with_sample_rate rate c of
      Panicked \<Rightarrow> Panicked | Done cfg \<Rightarrow> Done (Inr (cfg, cr_format c)))"

definition find_best_input ::
  "config_range list option \<Rightarrow> (unit + stream_config \<times> sample_format) outcome" where
  "find_best_input supported = (case supported of
      None \<Rightarrow> Done (Inl ())
    | Some cfgs \<Rightarrow> (case pick_input None (filter accepted cfgs) of
        Inl c \<Rightarrow> configured 48000 c
      | Inr None \<Rightarrow> Done (Inl ())
      | Inr (Some c) \<Rightarrow> configured (min (cr_max_rate c) 48000) c))"

section \<open>Opening the stream\<close>

text \<open>What the libraries answer.\<close>

record ('r, 'n, 'e) mic_env =
  me_host_ok :: bool
  me_default_device :: bool
  me_name_ok :: bool
  me_configs :: "config_range list option"
  me_resampler_new :: "nat \<Rightarrow> nat \<Rightarrow> nat \<Rightarrow> nat \<Rightarrow> 'r option"
    \<comment> \<open>rates in and out, chunk size, channels\<close>
  me_opus_new :: "'e option"
  me_denoiser_new :: 'n
  me_build_ok :: "stream_config \<Rightarrow> bool"
  me_play_ok :: bool

definition input_new ::
  "('r, 'n, 'e) mic_env \<Rightarrow> u32 \<Rightarrow> u32 \<Rightarrow> ('f, 'r, 'n, 'e) mic_input option" where
  "input_new env channels rate =
     Option.bind (if rate \<noteq> 48000 then map_option Some (me_resampler_new env (unat rate) 48000 960 2)
       else Some None)
       (\<lambda>resampler. map_option (\<lambda>opus. \<lparr>input_buf = [], mi_opus = opus, mi_resampler = resampler,
          mi_channels = unat channels, mi_rate = unat rate, denoiser_l = me_denoiser_new env,
          denoiser_r = me_denoiser_new env, mi_sent = []\<rparr>) (me_opus_new env))"

definition record_mic ::
  "('r, 'n, 'e) mic_env \<Rightarrow> (unit + stream_config \<times> ('f, 'r, 'n, 'e) mic_input) outcome" where
  "record_mic env =
     (if \<not> me_host_ok env then Done (Inl ())
      else if \<not> me_default_device env \<or> \<not> me_name_ok env then Panicked
      else case find_best_input (me_configs env) of
        Panicked \<Rightarrow> Panicked
      | Done (Inl e) \<Rightarrow> Done (Inl e)
      | Done (Inr (cfg, fmt)) \<Rightarrow>
          (let bitrate = (sc_rate cfg * ucast (sc_channels cfg)) * of_nat (sample_size fmt);
               config = cfg\<lparr>sc_buffer := FixedSize (bitrate div 50)\<rparr>
           in case input_new env (ucast (sc_channels config)) (sc_rate config) of
                None \<Rightarrow> Done (Inl ())
              | Some input \<Rightarrow> (if me_build_ok env config \<and> me_play_ok env
                  then Done (Inr (config, input)) else Done (Inl ()))))"

section \<open>What is chosen\<close>

lemma pick_input_ideal:
  "pick_input fallback cs = Inl c \<Longrightarrow> c \<in> set cs \<and> ideal c"
  by (induction fallback cs rule: pick_input.induct) (auto split: if_splits)

lemma pick_input_fallback:
  "pick_input fallback cs = Inr (Some c) \<Longrightarrow> (\<forall>v. fallback = Some v \<longrightarrow> P v) \<Longrightarrow> \<forall>v \<in> set cs. P v \<Longrightarrow> P c"
  by (induction fallback cs rule: pick_input.induct)
    (auto simp: better_def split: if_splits option.splits)

lemma pick_input_no_ideal: "pick_input fallback cs = Inr f \<Longrightarrow> \<forall>c \<in> set cs. \<not> ideal c"
  by (induction fallback cs rule: pick_input.induct) (auto split: if_splits)

lemma configured_Done:
  "configured rate c = Done (Inr (cfg, fmt)) \<longleftrightarrow> cr_min_rate c \<le> rate \<and> rate \<le> cr_max_rate c \<and>
     cfg = \<lparr>sc_channels = cr_channels c, sc_rate = rate, sc_buffer = DefaultSize\<rparr> \<and> fmt = cr_format c"
  by (auto simp: configured_def with_sample_rate_def)

text \<open>
  The configuration the microphone is opened with is one the device offers: its channels and
  format are those of a configuration that was accepted, and its rate is in the range of that
  configuration and at most 48 kHz.
\<close>

theorem chosen_input_is_supported:
  assumes "find_best_input (Some cfgs) = Done (Inr (cfg, fmt))"
  shows "sc_rate cfg \<le> 48000 \<and> (\<exists>c \<in> set cfgs. accepted c \<and> sc_channels cfg = cr_channels c \<and>
    fmt = cr_format c \<and> cr_min_rate c \<le> sc_rate cfg \<and> sc_rate cfg \<le> cr_max_rate c)"
proof -
  obtain c rate where "configured rate c = Done (Inr (cfg, fmt))" "rate \<le> 48000"
      "c \<in> set (filter accepted cfgs)"
  proof (cases "pick_input None (filter accepted cfgs)")
    case (Inl c)
    then show thesis
      using assms pick_input_ideal [OF Inl] by (intro that [of 48000 c]) (simp_all add: find_best_input_def)
  next
    case (Inr f)
    then obtain c where c: "f = Some c"
      using assms by (cases f) (simp_all add: find_best_input_def)
    have "c \<in> set (filter accepted cfgs)"
      using pick_input_fallback [OF Inr [unfolded c], of "\<lambda>v. v \<in> set (filter accepted cfgs)"] by simp
    then show thesis
      using assms Inr c by (intro that [of "min (cr_max_rate c) 48000" c]) (simp_all add: find_best_input_def)
  qed
  then show ?thesis by (auto simp: configured_Done)
qed

theorem chosen_input_is_supported_witness:
  "\<exists>cfg fmt. find_best_input (Some [\<lparr>cr_channels = 1, cr_min_rate = 8000, cr_max_rate = 44100,
     cr_format = F32\<rparr>]) = Done (Inr (cfg, fmt)) \<and> sc_rate cfg \<le> 48000"
proof -
  have "find_best_input (Some [\<lparr>cr_channels = 1, cr_min_rate = 8000, cr_max_rate = 44100,
     cr_format = F32\<rparr>]) = Done (Inr (\<lparr>sc_channels = 1, sc_rate = 44100, sc_buffer = DefaultSize\<rparr>, F32))"
    by (simp add: find_best_input_def accepted_def ideal_def better_def configured_def
        with_sample_rate_def)
  then show ?thesis using chosen_input_is_supported by blast
qed

section \<open>How the callback fares\<close>

text \<open>
  What the resampler and the encoder document. A resampler made for chunks of some size needs at
  least as many frames for a call as that size, rounding up, and a call with fewer frames in a channel
  is an error. The encoder takes 20 milliseconds of stereo at 48 kHz, 1920 samples.
\<close>

definition resampler_documented :: "('r, 'n, 'e) mic_env \<Rightarrow> ('f, 'r, 'n, 'e) mic_lib \<Rightarrow> bool" where
  "resampler_documented env lib \<longleftrightarrow>
     (\<forall>rate_in rate_out chunk channels rs. me_resampler_new env rate_in rate_out chunk channels = Some rs \<longrightarrow>
        chunk \<le> ml_frames_in lib rs) \<and>
     (\<forall>rs l r. length l < ml_frames_in lib rs \<or> length r < ml_frames_in lib rs \<longrightarrow>
        ml_resample lib rs (l, r) = None)"

definition encoder_documented :: "('f, 'r, 'n, 'e) mic_lib \<Rightarrow> bool" where
  "encoder_documented lib \<longleftrightarrow> (\<forall>en xs. length xs = 1920 \<longrightarrow> ml_encode lib en xs \<noteq> None)"

lemma period_halves: "samples_per_period rate = 2 * (rate div 50) \<longleftrightarrow> rate mod 50 < 25"
proof -
  have "rate = rate mod 50 + 50 * (rate div 50)" by (metis mod_mult_div_eq)
  then have "2 * rate = 2 * (rate mod 50) + 50 * (2 * (rate div 50))" by linarith
  then have "(2 * rate) div 50 = 2 * (rate div 50) + 2 * (rate mod 50) div 50"
    by (metis div_mult_self2 zero_neq_numeral)
  moreover have "2 * (rate mod 50) div 50 = 0 \<longleftrightarrow> rate mod 50 < 25" by auto
  ultimately show ?thesis by (simp add: samples_per_period_def)
qed

text \<open>At 48 kHz nothing fails.\<close>

definition plain_setup :: "('f, 'r, 'n, 'e) mic_input \<Rightarrow> bool" where
  "plain_setup st \<longleftrightarrow> mi_resampler st = None \<and> mi_rate st = 48000"

lemma mic_period_at_48:
  assumes "encoder_documented lib" and "plain_setup st" and "length chunk = 1920"
  shows "\<exists>st' resampled'. mic_period lib True resampled st chunk = Done (st', resampled') \<and> plain_setup st'"
proof -
  obtain dl dr where plain: "plain_period lib (denoiser_l st) (denoiser_r st) (map (ml_up lib) chunk) =
      Done (dl, dr, map (ml_up lib) chunk)"
    using plain_period_same [of lib "denoiser_l st" "denoiser_r st" "map (ml_up lib) chunk"]
    by (elim exE) (rule that)
  have "ml_encode lib (mi_opus st) (up_and_down lib chunk) \<noteq> None"
    using assms(1,3) by (simp add: encoder_documented_def)
  then obtain en packet where "ml_encode lib (mi_opus st) (up_and_down lib chunk) = Some (en, packet)"
    by auto
  then show ?thesis using assms(2) plain by (simp add: mic_period_def plain_setup_def)
qed

lemma mic_periods_at_48:
  assumes "encoder_documented lib" and "plain_setup st" and "\<forall>c \<in> set cs. length c = 1920"
  shows "\<exists>st'. mic_periods lib True resampled st cs = Done st' \<and> plain_setup st'"
  using assms(2,3)
proof (induction cs arbitrary: resampled st)
  case (Cons c cs)
  obtain st1 res1 where st1: "mic_period lib True resampled st c = Done (st1, res1)" "plain_setup st1"
    using mic_period_at_48 [OF assms(1) Cons.prems(1), of c] Cons.prems(2) by fastforce
  then show ?case using Cons.IH [OF st1(2), of res1] Cons.prems(2) by simp
qed simp

lemma data_callback_at_48:
  assumes "encoder_documented lib" and "plain_setup st"
  shows "\<exists>st'. data_callback lib True data st = Done st' \<and> plain_setup st'"
proof -
  obtain cs rest where cs: "chunks_exact (samples_per_period (mi_rate st))
      (input_buf st @ stereo (mi_channels st) data) = (cs, rest)"
    by fastforce
  have "\<forall>c \<in> set cs. length c = 1920"
    using chunks_exact_concat [OF cs] assms(2) by (simp add: samples_per_period_def plain_setup_def)
  from mic_periods_at_48 [OF assms this, of "[]"] cs show ?thesis
    by (auto simp: data_callback_def plain_setup_def)
qed

lemma mic_run_at_48:
  assumes "encoder_documented lib" and "plain_setup st"
  shows "mic_run lib (map (\<lambda>data. (data, True)) datas) st \<noteq> Panicked"
  using assms(2)
proof (induction datas arbitrary: st)
  case (Cons data datas)
  obtain st1 where "data_callback lib True data st = Done st1" "plain_setup st1"
    using data_callback_at_48 [OF assms(1) Cons.prems] by blast
  then show ?case using Cons.IH by simp
qed simp

text \<open>
  With a resampler that needs more frames than a period has, every period fails: in \<open>deinterleave\<close>
  when the period is not twice \<open>buf_in\<close>, and in \<open>process\<close> otherwise.
\<close>

lemma length_halves:
  assumes "halves xs = (l, r)" and "even (length xs)"
  shows "length xs = 2 * length l" and "length r = length l"
proof -
  have "length xs = 2 * length l \<and> length r = length l"
    using assms by (induction xs arbitrary: l r rule: halves.induct) (auto split: prod.splits)
  then show "length xs = 2 * length l" and "length r = length l" by simp_all
qed

lemma mic_period_short:
  assumes "resampler_documented env lib" and "mi_resampler st = Some rs"
    and "mi_rate st div 50 < ml_frames_in lib rs"
  shows "mic_period lib alive resampled st chunk = Panicked"
proof -
  let ?up = "map (ml_up lib) chunk"
  have "resampled_period lib rs (mi_rate st) dl dr ?up resampled = Panicked" for dl dr
  proof (cases "length ?up = 2 * (mi_rate st div 50)")
    case True
    obtain l r where lr: "halves ?up = (l, r)" by fastforce
    have "length l = mi_rate st div 50" using length_halves [OF lr] True by simp
    then have "ml_resample lib rs (l, r) = None"
      using assms(1,3) by (simp add: resampler_documented_def)
    then show ?thesis using True lr by (simp add: resampled_period_def deinterleave_def)
  qed (simp add: resampled_period_def deinterleave_def)
  then show ?thesis using assms(2) by (simp add: mic_period_def)
qed

lemma data_callback_short:
  assumes "resampler_documented env lib" and "mi_resampler st = Some rs"
    and "mi_rate st div 50 < ml_frames_in lib rs" and "samples_per_period (mi_rate st) \<noteq> 0"
    and "samples_per_period (mi_rate st) \<le> length (input_buf st @ stereo (mi_channels st) data)"
  shows "data_callback lib alive data st = Panicked"
proof -
  let ?n = "samples_per_period (mi_rate st)"
  obtain cs rest where cs: "chunks_exact ?n (input_buf st @ stereo (mi_channels st) data) = (cs, rest)"
    by fastforce
  have "cs \<noteq> []"
    using cs assms(4,5) by (subst (asm) chunks_exact.simps) (auto split: prod.splits)
  then obtain c cs' where "cs = c # cs'" by (cases cs) simp_all
  then show ?thesis
    using cs mic_period_short [OF assms(1-3)] by (simp add: data_callback_def)
qed

lemma record_mic_input:
  assumes "record_mic env = Done (Inr (cfg, st))"
  shows "mi_rate st = unat (sc_rate cfg) \<and> input_buf st = [] \<and>
    (if sc_rate cfg = 48000 then mi_resampler st = None
     else \<exists>rs. mi_resampler st = Some rs \<and> me_resampler_new env (unat (sc_rate cfg)) 48000 960 2 = Some rs)"
    and "sc_rate cfg \<le> 48000"
proof -
  show "mi_rate st = unat (sc_rate cfg) \<and> input_buf st = [] \<and>
      (if sc_rate cfg = 48000 then mi_resampler st = None
       else \<exists>rs. mi_resampler st = Some rs \<and> me_resampler_new env (unat (sc_rate cfg)) 48000 960 2 = Some rs)"
    using assms
    by (auto simp: record_mic_def input_new_def Let_def bind_eq_Some_conv
        split: if_splits outcome.splits sum.splits option.splits) metis
  obtain cfg' fmt where "find_best_input (me_configs env) = Done (Inr (cfg', fmt))" "sc_rate cfg = sc_rate cfg'"
    using assms
    by (auto simp: record_mic_def Let_def split: if_splits outcome.splits sum.splits option.splits)
  then show "sc_rate cfg \<le> 48000" using chosen_input_is_supported
    by (cases "me_configs env") (auto simp: find_best_input_def)
qed

text \<open>
  C38: The microphone works at 48 kHz only. Once it has been opened, whatever the device offers, with a
  resampler and an encoder that behave as documented and a sending task that listens, a first
  callback that brings a whole period panics exactly when the rate it was opened with is not 48 kHz:
  the resampler is made for chunks of 960 frames, and a period of any lower rate is shorter. At 48
  kHz no sequence of callbacks panics.
\<close>

theorem microphone_works_at_48_khz_only:
  assumes opened: "record_mic env = Done (Inr (cfg, st))"
    and libs: "resampler_documented env lib" "encoder_documented lib"
    and period: "0 < samples_per_period (unat (sc_rate cfg))"
      "samples_per_period (unat (sc_rate cfg)) \<le> length (stereo (mi_channels st) first)"
  shows "mic_run lib (map (\<lambda>data. (data, True)) (first # later)) st = Panicked \<longleftrightarrow> sc_rate cfg \<noteq> 48000"
proof (cases "sc_rate cfg = 48000")
  case True
  then have "plain_setup st" using record_mic_input(1) [OF opened] by (simp add: plain_setup_def)
  then show ?thesis using mic_run_at_48 [OF libs(2), of st "first # later"] True by simp
next
  case False
  then obtain rs where rs: "mi_resampler st = Some rs" "960 \<le> ml_frames_in lib rs"
    using record_mic_input(1) [OF opened] libs(1) unfolding resampler_documented_def by metis
  have "sc_rate cfg < 48000" using record_mic_input(2) [OF opened] False by simp
  then have "unat (sc_rate cfg) < 48000" by (simp add: word_less_nat_alt)
  then have "mi_rate st div 50 < ml_frames_in lib rs"
    using rs(2) record_mic_input(1) [OF opened] by simp
  then have "data_callback lib True first st = Panicked"
    using data_callback_short [OF libs(1) rs(1)] period record_mic_input(1) [OF opened] by simp
  then show ?thesis using False by simp
qed

text \<open>
  A device that offers 44.1 kHz: the resampler for it needs 1029 frames, the period has 882. Its
  periods can be taken apart; it is the resampler that refuses them.
\<close>

definition demo_mic_env :: "u32 \<Rightarrow> u32 \<Rightarrow> (nat, unit, unit) mic_env" where
  "demo_mic_env lo hi = \<lparr>me_host_ok = True, me_default_device = True, me_name_ok = True,
     me_configs = Some [\<lparr>cr_channels = 2, cr_min_rate = lo, cr_max_rate = hi, cr_format = F32\<rparr>],
     me_resampler_new = (\<lambda>rate_in rate_out chunk channels. Some (chunk + 69)), me_opus_new = Some (),
     me_denoiser_new = (), me_build_ok = (\<lambda>c. True), me_play_ok = True\<rparr>"

definition strict_mic_lib :: "(nat, nat, unit, unit) mic_lib" where
  "strict_mic_lib = \<lparr>ml_zero = 0, ml_up = (\<lambda>x. x), ml_down = (\<lambda>x. x), ml_frames_in = (\<lambda>n. n),
     ml_resample = (\<lambda>n (l, r). if length l < n \<or> length r < n then None else Some (n, l, r)),
     ml_denoise = (\<lambda>n xs. (n, xs)), ml_encode = (\<lambda>e xs. Some (e, [of_nat (length xs)]))\<rparr>"

lemma opened_at:
  assumes "lo = 44100 \<and> hi = 44100 \<and> rate = 44100 \<or> lo = 8000 \<and> hi = 96000 \<and> rate = 48000"
  shows "\<exists>cfg st. record_mic (demo_mic_env lo hi) = Done (Inr (cfg, st :: (nat, nat, unit, unit) mic_input)) \<and>
    sc_rate cfg = rate \<and> mi_channels st = 2"
  using assms
  by (auto simp: record_mic_def demo_mic_env_def find_best_input_def accepted_def ideal_def better_def
      configured_def with_sample_rate_def input_new_def Let_def)

theorem microphone_works_at_48_khz_only_witness:
  "(\<exists>cfg st. record_mic (demo_mic_env 44100 44100) = Done (Inr (cfg, st)) \<and>
     mic_run strict_mic_lib [(replicate 1764 7, True)] st = Panicked) \<and>
   (\<exists>cfg st. record_mic (demo_mic_env 8000 96000) = Done (Inr (cfg, st)) \<and>
     mic_run strict_mic_lib [(replicate 1920 7, True)] st \<noteq> Panicked)"
proof -
  have libs: "resampler_documented (demo_mic_env lo hi) strict_mic_lib" "encoder_documented strict_mic_lib"
    for lo hi
    by (simp_all add: resampler_documented_def encoder_documented_def demo_mic_env_def strict_mic_lib_def)
  obtain cfg and st :: "(nat, nat, unit, unit) mic_input" where
    st: "record_mic (demo_mic_env 44100 44100) = Done (Inr (cfg, st))" "sc_rate cfg = 44100" "mi_channels st = 2"
    using opened_at [of 44100 44100 44100] by blast
  have bad: "mic_run strict_mic_lib [(replicate 1764 7, True)] st = Panicked"
    using microphone_works_at_48_khz_only [OF st(1) libs, of "replicate 1764 7" "[]"] st(2,3)
    by (simp add: samples_per_period_def stereo_def)
  obtain cfg' and st' :: "(nat, nat, unit, unit) mic_input" where
    st': "record_mic (demo_mic_env 8000 96000) = Done (Inr (cfg', st'))" "sc_rate cfg' = 48000" "mi_channels st' = 2"
    using opened_at [of 8000 96000 48000] by blast
  have good: "mic_run strict_mic_lib [(replicate 1920 7, True)] st' \<noteq> Panicked"
    using microphone_works_at_48_khz_only [OF st'(1) libs, of "replicate 1920 7" "[]"] st'(2,3)
    by (simp add: samples_per_period_def stereo_def)
  show ?thesis using st(1) bad st'(1) good by blast
qed

end
