(* ===== verification/Client_Player.thy ===== *)
theory Client_Player
  imports Client_Play "HOL-Library.Multiset"
begin

text \<open>
  The output of the client, \<open>Player\<close> and \<open>play\<close> in \<open>client/src/play.rs\<close>: requests are handed to a queue
  of ten by tasks spawned for each, so their order is open, and a thread adds streams to the mixer,
  sets the volume and rings a bell. Streams are named by numbers; what happens in one is the subject of
  \<open>Client_Play\<close>. The mixer, the sink and the decoder of the bell are third-party code.
\<close>

section \<open>Samples\<close>

text \<open>The source made of one decoded packet; \<open>n\<close> is the number of samples of each channel.\<close>

record 'f pcm_f32 =
  pcm_samples :: "'f list"
  pcm_len :: nat

definition pcm_new :: "'f list \<Rightarrow> nat \<Rightarrow> 'f pcm_f32" where
  "pcm_new samples n = \<lparr>pcm_samples = samples, pcm_len = n\<rparr>"

definition pcm_next :: "'f pcm_f32 \<Rightarrow> 'f pcm_f32 \<times> 'f option" where
  "pcm_next p = (case pcm_samples p of [] \<Rightarrow> (p, None) | x # xs \<Rightarrow> (p\<lparr>pcm_samples := xs\<rparr>, Some x))"

definition pcm_channels :: nat where "pcm_channels = 2"

definition pcm_rate :: nat where "pcm_rate = 48000"

definition current_frame_len :: "'f pcm_f32 \<Rightarrow> nat option" where
  "current_frame_len p = Some (pcm_len p div pcm_channels)"

section \<open>The thread\<close>

datatype 'v player_event = PeJoined nat bool | PeLeft bool | PeSetVolume 'v

text \<open>\<open>op_playing\<close>: the last bell, and whether its task has finished.\<close>

record 'v sound_out =
  op_streams :: "nat list"
  op_volume :: 'v
  op_playing :: "bool option"
  op_bells :: nat

definition output_new :: "'v \<Rightarrow> 'v sound_out" where
  "output_new v = \<lparr>op_streams = [], op_volume = v, op_playing = None, op_bells = 0\<rparr>"

definition ring :: "'v sound_out \<Rightarrow> 'v sound_out" where
  "ring o' = (if (case op_playing o' of None \<Rightarrow> True | Some finished \<Rightarrow> finished)
     then o'\<lparr>op_playing := Some False, op_bells := Suc (op_bells o')\<rparr> else o')"

definition play_event :: "'v player_event \<Rightarrow> 'v sound_out \<Rightarrow> 'v sound_out" where
  "play_event ev out =
     (let (out', quiet) = (case ev of
          PeJoined s quiet \<Rightarrow> (out\<lparr>op_streams := op_streams out @ [s]\<rparr>, quiet)
        | PeLeft quiet \<Rightarrow> (out, quiet)
        | PeSetVolume v \<Rightarrow> (out\<lparr>op_volume := v\<rparr>, True))
      in if quiet then out' else ring out')"

definition bell_ends :: "'v sound_out \<Rightarrow> 'v sound_out" where
  "bell_ends out = out\<lparr>op_playing := map_option (\<lambda>_. True) (op_playing out)\<rparr>"

section \<open>The handle\<close>

text \<open>\<open>pl_pending\<close>: the spawned tasks whose event is not yet in the queue.\<close>

record 'v player =
  pl_pending :: "'v player_event list"
  pl_queue :: "'v player_event list"
  pl_out :: "'v sound_out"

definition player_new :: "'v \<Rightarrow> 'v player" where
  "player_new v = \<lparr>pl_pending = [], pl_queue = [], pl_out = output_new v\<rparr>"

definition request :: "'v player_event \<Rightarrow> 'v player \<Rightarrow> 'v player" where
  "request ev p = p\<lparr>pl_pending := ev # pl_pending p\<rparr>"

definition new_stream :: "nat \<Rightarrow> bool \<Rightarrow> 'v player \<Rightarrow> 'v player" where
  "new_stream s announce_quiet = request (PeJoined s announce_quiet)"

definition stream_ended :: "bool \<Rightarrow> 'v player \<Rightarrow> 'v player" where
  "stream_ended quiet = request (PeLeft quiet)"

definition mute :: "'v \<Rightarrow> 'v player \<Rightarrow> 'v player" where
  "mute silence = request (PeSetVolume silence)"

definition hand_over :: "'v player_event \<Rightarrow> 'v player \<Rightarrow> 'v player" where
  "hand_over ev p =
     p\<lparr>pl_pending := remove1 ev (pl_pending p), pl_queue := pl_queue p @ [ev]\<rparr>"

definition take_event :: "'v player \<Rightarrow> 'v player" where
  "take_event p = (case pl_queue p of
      [] \<Rightarrow> p | ev # q \<Rightarrow> p\<lparr>pl_queue := q, pl_out := play_event ev (pl_out p)\<rparr>)"

definition bell_over :: "'v player \<Rightarrow> 'v player" where
  "bell_over p = p\<lparr>pl_out := bell_ends (pl_out p)\<rparr>"

text \<open>What can happen, with what has been requested and handled so far; \<open>v\<close> and \<open>silence\<close> are volumes.\<close>

inductive player_reach ::
  "'v \<Rightarrow> 'v \<Rightarrow> 'v player_event list \<Rightarrow> 'v player_event list \<Rightarrow> 'v player \<Rightarrow> bool" for v silence where
  new: "player_reach v silence [] [] (player_new v)"
| stream: "player_reach v silence reqs done' p \<Longrightarrow>
     player_reach v silence (reqs @ [PeJoined s quiet]) done' (new_stream s quiet p)"
| ended: "player_reach v silence reqs done' p \<Longrightarrow>
     player_reach v silence (reqs @ [PeLeft quiet]) done' (stream_ended quiet p)"
| mute: "player_reach v silence reqs done' p \<Longrightarrow>
     player_reach v silence (reqs @ [PeSetVolume silence]) done' (mute silence p)"
| hand_over: "player_reach v silence reqs done' p \<Longrightarrow> ev \<in> set (pl_pending p) \<Longrightarrow> length (pl_queue p) < 10 \<Longrightarrow>
     player_reach v silence reqs done' (hand_over ev p)"
| take: "player_reach v silence reqs done' p \<Longrightarrow> pl_queue p = ev # q \<Longrightarrow>
     player_reach v silence reqs (done' @ [ev]) (take_event p)"
| bell: "player_reach v silence reqs done' p \<Longrightarrow> player_reach v silence reqs done' (bell_over p)"

section \<open>What has been played\<close>

definition joined_streams :: "'v player_event list \<Rightarrow> nat list" where
  "joined_streams evs = List.map_filter (\<lambda>ev. case ev of PeJoined s quiet \<Rightarrow> Some s | _ \<Rightarrow> None) evs"

definition loud :: "'v player_event \<Rightarrow> bool" where
  "loud ev = (case ev of PeJoined s quiet \<Rightarrow> \<not> quiet | PeLeft quiet \<Rightarrow> \<not> quiet | PeSetVolume v \<Rightarrow> False)"

definition is_volume :: "'v player_event \<Rightarrow> bool" where
  "is_volume ev = (case ev of PeSetVolume v \<Rightarrow> True | _ \<Rightarrow> False)"

definition played :: "'v \<Rightarrow> 'v \<Rightarrow> 'v player_event list \<Rightarrow> 'v sound_out \<Rightarrow> bool" where
  "played v silence evs out \<longleftrightarrow> op_streams out = joined_streams evs \<and>
     op_volume out = (if \<exists>ev \<in> set evs. is_volume ev then silence else v) \<and>
     op_bells out \<le> length (filter loud evs) \<and>
     (op_bells out = 0 \<longleftrightarrow> \<not> (\<exists>ev \<in> set evs. loud ev)) \<and> (op_playing out = None \<longleftrightarrow> op_bells out = 0)"

lemma joined_streams_append [simp]: "joined_streams (xs @ ys) = joined_streams xs @ joined_streams ys"
  by (simp add: joined_streams_def List.map_filter_def)

lemma joined_streams_simps [simp]:
  "joined_streams [] = []" "joined_streams [PeJoined s quiet] = [s]" "joined_streams [PeLeft quiet] = []"
  "joined_streams [PeSetVolume w] = []"
  by (simp_all add: joined_streams_def List.map_filter_def)

lemma ring_facts:
  "op_streams (ring out) = op_streams out" "op_volume (ring out) = op_volume out"
  "op_bells (ring out) \<le> Suc (op_bells out)" "op_playing (ring out) \<noteq> None"
  "(op_playing out = None \<longleftrightarrow> op_bells out = 0) \<Longrightarrow> op_bells (ring out) \<noteq> 0"
  by (auto simp: ring_def split: option.splits)

lemma played_event:
  assumes "played v silence evs out" and "\<And>w. ev = PeSetVolume w \<Longrightarrow> w = silence"
  shows "played v silence (evs @ [ev]) (play_event ev out)"
proof (cases ev)
  case (PeJoined s quiet)
  have "played v silence (evs @ [ev]) (out\<lparr>op_streams := op_streams out @ [s]\<rparr>)" if quiet
    using assms(1) PeJoined that by (auto simp: played_def loud_def is_volume_def)
  moreover have "played v silence (evs @ [ev]) (ring (out\<lparr>op_streams := op_streams out @ [s]\<rparr>))" if "\<not> quiet"
    using assms(1) PeJoined that ring_facts [of "out\<lparr>op_streams := op_streams out @ [s]\<rparr>"]
    by (auto simp: played_def loud_def is_volume_def)
  ultimately show ?thesis using PeJoined by (simp add: play_event_def)
next
  case (PeLeft quiet)
  have "played v silence (evs @ [ev]) out" if quiet
    using assms(1) PeLeft that by (auto simp: played_def loud_def is_volume_def)
  moreover have "played v silence (evs @ [ev]) (ring out)" if "\<not> quiet"
    using assms(1) PeLeft that ring_facts [of out] by (auto simp: played_def loud_def is_volume_def)
  ultimately show ?thesis using PeLeft by (simp add: play_event_def)
next
  case (PeSetVolume w)
  then show ?thesis
    using assms by (auto simp: play_event_def played_def loud_def is_volume_def)
qed

definition player_inv ::
  "'v \<Rightarrow> 'v \<Rightarrow> 'v player_event list \<Rightarrow> 'v player_event list \<Rightarrow> 'v player \<Rightarrow> bool" where
  "player_inv v silence reqs evs p \<longleftrightarrow>
     mset reqs = mset (pl_pending p) + mset (pl_queue p) + mset evs \<and> length (pl_queue p) \<le> 10 \<and>
     (\<forall>w. PeSetVolume w \<in> set reqs \<longrightarrow> w = silence) \<and> played v silence evs (pl_out p)"

lemma played_bell: "played v silence evs out \<Longrightarrow> played v silence evs (bell_ends out)"
  by (auto simp: played_def bell_ends_def)

lemma player_inv_reach: "player_reach v silence reqs evs p \<Longrightarrow> player_inv v silence reqs evs p"
proof (induction rule: player_reach.induct)
  case new
  then show ?case by (simp add: player_inv_def player_new_def output_new_def played_def)
next
  case (hand_over reqs evs p ev)
  then show ?case by (auto simp: player_inv_def hand_over_def)
next
  case (take reqs evs p ev q)
  have "ev \<in> set reqs"
  proof -
    have "ev \<in># mset reqs" using take by (auto simp: player_inv_def)
    then show ?thesis by simp
  qed
  then have "played v silence (evs @ [ev]) (play_event ev (pl_out p))"
    using take by (intro played_event) (auto simp: player_inv_def)
  then show ?case using take by (auto simp: player_inv_def take_event_def)
next
  case (bell reqs evs p)
  then show ?case using played_bell by (auto simp: player_inv_def bell_over_def)
qed (auto simp: player_inv_def new_stream_def stream_ended_def mute_def request_def)

text \<open>
  Every request to the player is waiting, queued or handled exactly once, and at most ten are
  queued. What the output plays follows from what was handled, in order: the streams that joined,
  silence once it was muted and never again another volume, and a bell for a join or a departure that
  was to be announced, fewer when they come while a bell rings, but at least one.
\<close>

theorem player_handles_requests_once:
  assumes "player_reach v silence reqs evs p"
  shows "mset reqs = mset (pl_pending p) + mset (pl_queue p) + mset evs \<and> length (pl_queue p) \<le> 10 \<and>
    op_streams (pl_out p) = joined_streams evs \<and>
    op_volume (pl_out p) = (if \<exists>ev \<in> set evs. is_volume ev then silence else v) \<and>
    op_bells (pl_out p) \<le> length (filter loud evs) \<and>
    (op_bells (pl_out p) = 0 \<longleftrightarrow> \<not> (\<exists>ev \<in> set evs. loud ev))"
  using player_inv_reach [OF assms] by (simp add: player_inv_def played_def)

text \<open>A stream is announced and leaves again, handled the other way round: one bell for both.\<close>

theorem player_handles_requests_once_witness:
  "\<exists>p. player_reach (1 :: nat) 0 [PeJoined 7 False, PeLeft False] [PeLeft False, PeJoined 7 False] p \<and>
     op_bells (pl_out p) = 1 \<and> op_streams (pl_out p) = [7]"
proof -
  let ?p = "hand_over (PeJoined 7 False) (hand_over (PeLeft False)
    (stream_ended False (new_stream 7 False (player_new (1 :: nat)))))"
  have r2: "player_reach (1 :: nat) 0 [PeJoined 7 False, PeLeft False] []
      (stream_ended False (new_stream 7 False (player_new 1)))"
    using player_reach.ended [OF player_reach.stream [OF player_reach.new]] by simp
  have r3: "player_reach (1 :: nat) 0 [PeJoined 7 False, PeLeft False] []
      (hand_over (PeLeft False) (stream_ended False (new_stream 7 False (player_new 1))))"
    by (rule player_reach.hand_over [OF r2])
      (simp_all add: stream_ended_def new_stream_def request_def player_new_def)
  have r4: "player_reach (1 :: nat) 0 [PeJoined 7 False, PeLeft False] [] ?p"
    by (rule player_reach.hand_over [OF r3])
      (simp_all add: hand_over_def stream_ended_def new_stream_def request_def player_new_def)
  have q: "pl_queue ?p = PeLeft False # [PeJoined 7 False]"
    by (simp add: hand_over_def stream_ended_def new_stream_def request_def player_new_def)
  have r5: "player_reach (1 :: nat) 0 [PeJoined 7 False, PeLeft False] [PeLeft False] (take_event ?p)"
    using player_reach.take [OF r4 q] by simp
  have q2: "pl_queue (take_event ?p) = PeJoined 7 False # []"
    using q by (simp add: take_event_def)
  have r6: "player_reach (1 :: nat) 0 [PeJoined 7 False, PeLeft False]
      [PeLeft False, PeJoined 7 False] (take_event (take_event ?p))"
    using player_reach.take [OF r5 q2] by simp
  have "op_streams (pl_out (take_event (take_event ?p))) = [7]"
    using player_handles_requests_once [OF r6] by (simp add: joined_streams_def List.map_filter_def)
  moreover have "op_bells (pl_out (take_event (take_event ?p))) = 1"
    by (simp add: take_event_def play_event_def ring_def hand_over_def stream_ended_def new_stream_def
        request_def player_new_def output_new_def)
  ultimately show ?thesis using r6 by blast
qed

end
