(* ===== verification/Voice_Path.thy ===== *)
theory Voice_Path
  imports Forwarder Client_Udp
begin

text \<open>
  The way of a voice: the sending task of one client, the forwarder with the two connections, and the
  receiving task of another client put together.
\<close>

section \<open>Through the forwarder\<close>

text \<open>A connection that exchanges voices, with the address of its client and its variables.\<close>

definition exchanging :: "forwarder \<Rightarrow> u32 \<Rightarrow> conn \<Rightarrow> peered_vars \<Rightarrow> bool" where
  "exchanging f s c p \<longleftrightarrow> map_of (connections f) s = Some c \<and> conn_task_id c < length (procs f) \<and>
     vc_phase (procs f ! conn_task_id c) = Exchanging p \<and> vc_source_id (procs f ! conn_task_id c) = s"

abbreviation conn_key :: "forwarder \<Rightarrow> conn \<Rightarrow> u8 list" where
  "conn_key f c \<equiv> vc_crypt_key (procs f ! conn_task_id c)"

lemma exchanging_apart:
  assumes "exchanging f s c p" and "exchanging f s' c' p'" and "s \<noteq> s'"
  shows "conn_task_id c \<noteq> conn_task_id c'"
proof
  assume "conn_task_id c = conn_task_id c'"
  then have "vc_source_id (procs f ! conn_task_id c) = s'" using assms(2) by (simp add: exchanging_def)
  then show False using assms(1,3) by (simp add: exchanging_def)
qed

lemma datagram_enters:
  assumes "status f = Running" and "exchanging f (source_id w) c p" and "length (inboxes f) = length (procs f)"
    and "conn_addr c = Some addr" and "same_addr addr from_addr" and "inboxes f ! conn_task_id c = []"
  shows "fst (fwd_step io now (EvDatagram from_addr (client_voice w)) f) =
    f\<lparr>inboxes := (inboxes f)[conn_task_id c := [MVoice w]], idle_from := now\<rparr>"
  using assms
  by (simp add: fwd_step_def socket_msg_def client_voice_def client_message_new_def forward_def
      conn_forward_def forwarded_def exchanging_def)

lemma voice_is_broadcast:
  assumes "status f = Running" and "exchanging f s c p" and "length (inboxes f) = length (procs f)"
    and "inboxes f ! conn_task_id c = [MVoice w]"
    and "voice_decrypt (dec io) (conn_key f c) (payload w) (sequence w) (stream_time w) = Some plain"
  shows "\<exists>t. vc_source_id t = s \<and> fst (fwd_step io now (EvTask (conn_task_id c) TMsg) f) =
    f\<lparr>procs := (procs f)[conn_task_id c := t], inboxes := (inboxes f)[conn_task_id c := []],
      voice_bus := voice_bus f @ [(s, w\<lparr>payload := plain\<rparr>)]\<rparr>"
  using assms
  by (intro exI [of _ "set_vars (procs f ! conn_task_id c)
      (p\<lparr>pv_received := pv_received p + 1, pv_seq := sequence w\<rparr>)"])
    (simp add: fwd_step_def task_step_def task_sees_def conn_step_def peered_step_def Let_def
      exchanging_def bcasts_def List.map_filter_def lifecycle_def)

lemma voice_is_sent:
  assumes "status f = Running" and "exchanging f s c p" and "voice_bus f = bus @ [(s', v)]" and "s \<noteq> s'"
    and "pv_cursor p = length bus"
    and "voice_encrypt (enc io) (conn_key f c) (payload v) (sequence v) (stream_time v) = Some secret"
    and "udp_ok io (server_voice (v\<lparr>payload := secret\<rparr>)) (pv_addr p)"
  shows "snd (fwd_step io now (EvTask (conn_task_id c) TBus) f) =
    [FSend (server_voice (v\<lparr>payload := secret\<rparr>)) (pv_addr p)]"
  using assms
  by (auto simp: fwd_step_def task_step_def task_sees_def conn_step_def peered_step_def peered_bus_def
      Let_def exchanging_def out_sends_def List.map_filter_def)

section \<open>Into the client\<close>

lemma voice_reaches_stream:
  assumes "rx_status rx = RxRunning" and "map_of (rx_current rx) (source_id v) = Some i"
    and "i < length (rx_plays rx)" and "ps_running (rx_plays rx ! i)" and "length (ps_inbox (rx_plays rx ! i)) < 3"
    and "udp_recv uio (Inr bs) = Inr (server_voice (v\<lparr>payload := secret\<rparr>))"
    and "voice_decrypt (uio_dec uio) key secret (sequence v) (stream_time v) = Some (payload v)"
  shows "rx_plays (udp_rx_step uio key debug d (RxSock clock (Inr bs)) rx) ! i =
    (rx_plays rx ! i)\<lparr>ps_inbox := ps_inbox (rx_plays rx ! i) @ [v]\<rparr>"
  using assms
  by (auto simp: udp_rx_step_def rx_message_def server_voice_def server_message_new_def rx_send_def
      play_tx_send_def)

section \<open>From the microphone to the stream\<close>

text \<open>
  C4: A frame that one client speaks is heard by the other. Client \<open>a\<close> encrypts a frame of its
  microphone and sends it from its address; the forwarder hands it to the connection of \<open>a\<close>,
  which decrypts it and puts it on the bus; the connection of \<open>b\<close> encrypts it and sends it to the
  address of \<open>b\<close>. The datagram that leaves is one that puts, when \<open>b\<close> receives it, the frame
  as it was spoken, with the sequence number and time of \<open>a\<close>, into the stream that \<open>b\<close> plays for
  \<open>a\<close>.
\<close>

theorem spoken_frame_is_heard:
  assumes f: "fwd_reach io f" "status f = Running"
    and ciphers: "aead_inverse (enc io) (dec io)" "uio_enc ua = enc io" "uio_dec ub = dec io"
    and a: "exchanging f sa ca pa" "conn_addr ca = Some addr_a" "same_addr addr_a from_addr"
      "inboxes f ! conn_task_id ca = []"
    and b: "exchanging f sb cb pb" "sa \<noteq> sb" "pv_cursor pb = length (voice_bus f)"
    and spoken: "udp_tx_step ua (conn_key f ca) sa False (TxVoice frame) tx = (tx', [msg])"
    and sealed: "voice_encrypt (enc io) (conn_key f cb) frame (tx_sequence tx) (tx_stream_time tx) = Some secret"
    and sends: "\<And>m. udp_ok io m (pv_addr pb)"
    and rx: "rx_status rx = RxRunning" "map_of (rx_current rx) sa = Some i" "i < length (rx_plays rx)"
      "ps_running (rx_plays rx ! i)" "length (ps_inbox (rx_plays rx ! i)) < 3"
    and v: "v = \<lparr>sequence = tx_sequence tx, stream_time = tx_stream_time tx, source_id = sa, payload = frame\<rparr>"
    and arrives: "udp_recv ub (Inr bs) = Inr (server_voice (v\<lparr>payload := secret\<rparr>))"
  shows "snd (fwd_step io t3 (EvTask (conn_task_id cb) TBus)
      (fst (fwd_step io t2 (EvTask (conn_task_id ca) TMsg)
        (fst (fwd_step io t1 (EvDatagram from_addr msg) f))))) =
      [FSend (server_voice (v\<lparr>payload := secret\<rparr>)) (pv_addr pb)] \<and>
    rx_plays (udp_rx_step ub (conn_key f cb) debug d (RxSock clock (Inr bs)) rx) ! i =
      (rx_plays rx ! i)\<lparr>ps_inbox := ps_inbox (rx_plays rx ! i) @ [v]\<rparr>"
proof -
  obtain w where w: "msg = client_voice w" "sequence w = tx_sequence tx" "stream_time w = tx_stream_time tx"
      "source_id w = sa"
      "voice_encrypt (enc io) (conn_key f ca) frame (tx_sequence tx) (tx_stream_time tx) = Some (payload w)"
    using spoken ciphers(2) tx_voice_facts [of ua "conn_key f ca" sa frame tx tx' "[msg]"]
    by (auto simp: udp_tx_step_def split: if_splits)
  have w_plain: "w\<lparr>payload := frame\<rparr> = v" using w v by (cases w) simp
  have boxes: "length (inboxes f) = length (procs f)"
    using fwd_reach_inv [OF f(1)] by (simp add: fwd_inv_def boxes_ok_def)
  note apart = exchanging_apart [OF a(1) b(1,2)]
  define f1 where "f1 = f\<lparr>inboxes := (inboxes f)[conn_task_id ca := [MVoice w]], idle_from := t1\<rparr>"
  have f1: "fst (fwd_step io t1 (EvDatagram from_addr msg) f) = f1"
    using datagram_enters [OF f(2) _ boxes a(2-4), of w pa] a(1) w(1,4) by (simp add: f1_def)
  have ex1: "exchanging f1 sa ca pa" "exchanging f1 sb cb pb" "status f1 = Running"
      "length (inboxes f1) = length (procs f1)" "inboxes f1 ! conn_task_id ca = [MVoice w]"
    using a(1) b(1) f(2) boxes by (simp_all add: f1_def exchanging_def)
  have opens: "voice_decrypt (dec io) (conn_key f1 ca) (payload w) (sequence w) (stream_time w) = Some frame"
    using voice_decrypt_encrypt [OF ciphers(1) w(5)] w(2,3) by (simp add: f1_def)
  obtain t where t: "fst (fwd_step io t2 (EvTask (conn_task_id ca) TMsg) f1) =
      f1\<lparr>procs := (procs f1)[conn_task_id ca := t], inboxes := (inboxes f1)[conn_task_id ca := []],
        voice_bus := voice_bus f1 @ [(sa, w\<lparr>payload := frame\<rparr>)]\<rparr>" (is "_ = ?f2")
    using voice_is_broadcast [OF ex1(3,1,4,5) opens, of t2] by blast
  have ex2: "exchanging ?f2 sb cb pb" "status ?f2 = Running" "voice_bus ?f2 = voice_bus f @ [(sa, v)]"
      "conn_key ?f2 cb = conn_key f cb"
    using ex1 apart w_plain by (simp_all add: exchanging_def f1_def)
  have "snd (fwd_step io t3 (EvTask (conn_task_id cb) TBus) ?f2) =
      [FSend (server_voice (v\<lparr>payload := secret\<rparr>)) (pv_addr pb)]"
    using voice_is_sent [OF ex2(2,1,3) b(2) [symmetric] b(3), of io secret t3] sealed sends ex2(4) v by simp
  moreover have "rx_plays (udp_rx_step ub (conn_key f cb) debug d (RxSock clock (Inr bs)) rx) ! i =
      (rx_plays rx ! i)\<lparr>ps_inbox := ps_inbox (rx_plays rx ! i) @ [v]\<rparr>"
    using voice_reaches_stream [of rx v i ub bs secret "conn_key f cb" debug d clock] rx arrives
      voice_decrypt_encrypt [OF ciphers(1) sealed] ciphers(3) v by simp
  ultimately show ?thesis unfolding f1 t by blast
qed

text \<open>Ann (source 9) speaks two bytes, Bob (source 5) plays her stream.\<close>

definition path_udp :: udp_io where
  "path_udp = \<lparr>uio_encode = (\<lambda>m. [1]),
     uio_decode = (\<lambda>bs. Some (server_voice \<lparr>sequence = 3, stream_time = 4, source_id = 9, payload = bs\<rparr>)),
     uio_os_send = (\<lambda>bs. None), uio_enc = enc demo_io, uio_dec = dec demo_io\<rparr>"

definition bobs_rx :: "unit udp_rx" where
  "bobs_rx = rx_register () 0 9 udp_rx_new"

theorem spoken_frame_is_heard_witness:
  "snd (fwd_step demo_io 4 (EvTask 1 TBus) (fst (fwd_step demo_io 3 (EvTask 0 TMsg)
      (fst (fwd_step demo_io 2 (EvDatagram (SocketV4 100 4000)
        (client_voice \<lparr>sequence = 3, stream_time = 4, source_id = 9, payload = [8, 6, 1]\<rparr>)) demo_fwd))))) =
     [FSend (server_voice \<lparr>sequence = 3, stream_time = 4, source_id = 9, payload = [8, 6, 2]\<rparr>)
        (SocketV4 200 5000)] \<and>
   ps_inbox (rx_plays (udp_rx_step path_udp [2] False () (RxSock 0 (Inr [8, 6, 2])) bobs_rx) ! 0) =
     [\<lparr>sequence = 3, stream_time = 4, source_id = 9, payload = [8, 6]\<rparr>]"
proof -
  let ?tx = "udp_tx_new 0 3 4"
  let ?ca = "\<lparr>conn_task_id = 0, user_name = ''ann'', conn_addr = Some (SocketV4 100 4000)\<rparr>"
  let ?cb = "\<lparr>conn_task_id = 1, user_name = ''bob'', conn_addr = Some (SocketV4 200 5000)\<rparr>"
  let ?p = "\<lambda>a. \<lparr>pv_addr = a, pv_seq = 0, pv_sent = 0, pv_received = 0, pv_deadline = 15001, pv_cursor = 0\<rparr>"
  let ?msg = "client_voice \<lparr>sequence = 3, stream_time = 4, source_id = 9, payload = [8, 6, 1]\<rparr>"
  have a: "exchanging demo_fwd 9 ?ca (?p (SocketV4 100 4000))"
    and b: "exchanging demo_fwd 5 ?cb (?p (SocketV4 200 5000))"
    and keys: "conn_key demo_fwd ?ca = [1]" "conn_key demo_fwd ?cb = [2]"
    and rest: "status demo_fwd = Running" "inboxes demo_fwd ! 0 = []" "voice_bus demo_fwd = []"
    by (simp_all add: demo_fwd_eq exchanging_def)
  have cipher: "uio_enc path_udp = enc demo_io" "uio_dec path_udp = dec demo_io"
    by (simp_all add: path_udp_def)
  have same: "same_addr (SocketV4 100 4000) (SocketV4 100 4000)"
    by (simp add: same_addr_def)
  have spoken: "udp_tx_step path_udp (conn_key demo_fwd ?ca) 9 False (TxVoice [8, 6]) ?tx =
      (?tx\<lparr>tx_sequence := 4, tx_stream_time := 964\<rparr>, [?msg])"
    using keys(1) by (simp add: udp_tx_step_def udp_tx_new_def tx_voice_def voice_encrypt_def path_udp_def
        demo_io_def udp_send_def DEFAULT_BUF_SIZE_def Let_def)
  have sealed: "voice_encrypt (enc demo_io) (conn_key demo_fwd ?cb) [8, 6] (tx_sequence ?tx)
      (tx_stream_time ?tx) = Some [8, 6, 2]"
    using keys(2) by (simp add: voice_encrypt_def demo_io_def)
  have rx: "rx_status bobs_rx = RxRunning" "map_of (rx_current bobs_rx) 9 = Some 0" "0 < length (rx_plays bobs_rx)"
      "ps_running (rx_plays bobs_rx ! 0)" "ps_inbox (rx_plays bobs_rx ! 0) = []"
    by (simp_all add: bobs_rx_def rx_register_def udp_rx_new_def hang_up_def play_rx_new_def Let_def)
  have room: "length (ps_inbox (rx_plays bobs_rx ! 0)) < 3" using rx(5) by simp
  have arrives: "udp_recv path_udp (Inr [8, 6, 2]) =
      Inr (server_voice (\<lparr>sequence = tx_sequence ?tx, stream_time = tx_stream_time ?tx, source_id = 9,
        payload = [8, 6]\<rparr>\<lparr>payload := [8, 6, 2]\<rparr>))"
    by (simp add: udp_recv_def path_udp_def udp_tx_new_def DEFAULT_BUF_SIZE_def)
  show ?thesis
    using spoken_frame_is_heard [OF demo_fwd_reach rest(1) demo_cipher_ok cipher a _ same _ b _ _ spoken sealed _
      rx(1-4) room refl arrives, of 4 3 2 False "()" 0] rest keys rx(5)
    by (simp add: demo_io_def udp_tx_new_def)
qed

end
