(* ===== verification/Tonic.thy ===== *)
theory Tonic
  imports Channels_Grpc
begin

text \<open>
  What the generated gRPC code (\<open>voice_server.v1.rs\<close>, \<open>voice_channels.v1.rs\<close>) asks of the \<open>tonic\<close>
  library. The library is a parameter: requests and responses of HTTP are of any type, and so is how
  messages are written to them. The generated code tells it the path of a method, the kinds of its
  messages and limits of their size.
\<close>

section \<open>The library\<close>

text \<open>
  \<open>'k\<close> are the methods, which determine the types of the messages, \<open>'q\<close> and \<open>'p\<close> the messages that
  are sent and answered, \<open>'s\<close> the state of the service.
\<close>

record ('k, 'q, 'p, 'rq, 'rs, 's) tonic =
  tn_request :: "nat option \<Rightarrow> string \<Rightarrow> 'q \<Rightarrow> grpc_status + 'rq"
  tn_path :: "'rq \<Rightarrow> string"
  tn_unary :: "nat option \<Rightarrow> nat option \<Rightarrow> 'k \<Rightarrow> ('q \<Rightarrow> 's \<Rightarrow> 's \<times> (grpc_status + 'p)) \<Rightarrow> 'rq \<Rightarrow> 's \<Rightarrow> 's \<times> 'rs"
  tn_response :: "nat \<Rightarrow> (string \<times> string) list \<Rightarrow> 'rs"
  tn_answer :: "nat option \<Rightarrow> 'k \<Rightarrow> 'rs \<Rightarrow> grpc_status + 'p"
  tn_request_size :: "'q \<Rightarrow> nat"
  tn_response_size :: "'p \<Rightarrow> nat"

text \<open>The limits: four megabytes for what is decoded unless set, none for what is encoded.\<close>

record limits =
  max_decode :: "nat option"
  max_encode :: "nat option"

definition default_limits :: limits where
  "default_limits = \<lparr>max_decode = None, max_encode = None\<rparr>"

definition max_decoding_message_size :: "nat \<Rightarrow> limits \<Rightarrow> limits" where
  "max_decoding_message_size n l = l\<lparr>max_decode := Some n\<rparr>"

definition max_encoding_message_size :: "nat \<Rightarrow> limits \<Rightarrow> limits" where
  "max_encoding_message_size n l = l\<lparr>max_encode := Some n\<rparr>"

definition decodable :: "nat option \<Rightarrow> nat \<Rightarrow> bool" where
  "decodable lim n \<longleftrightarrow> n \<le> (case lim of None \<Rightarrow> 4 * 1024 * 1024 | Some k \<Rightarrow> k)"

definition encodable :: "nat option \<Rightarrow> nat \<Rightarrow> bool" where
  "encodable lim n \<longleftrightarrow> (case lim of None \<Rightarrow> True | Some k \<Rightarrow> n \<le> k)"

definition unimplemented :: "(string \<times> string) list" where
  "unimplemented = [(''grpc-status'', ''12''), (''content-type'', ''application/grpc'')]"

text \<open>
  What is documented of it: a request carries its path; a message within the limit is decoded to
  what was sent and handed to the method, whose answer or status the client gets back; a message
  beyond it ends in an error without the method being called; and so does status 12.
\<close>

definition answers :: "('k, 'q, 'p, 'rq, 'rs, 's) tonic \<Rightarrow> ('p \<Rightarrow> 'k) \<Rightarrow> nat option \<Rightarrow> 'k \<Rightarrow> grpc_status + 'p \<Rightarrow>
    'rs \<Rightarrow> bool" where
  "answers t kp enc_lim k r rs \<longleftrightarrow> (\<forall>lim. case r of
      Inl st \<Rightarrow> tn_answer t lim k rs = Inl st
    | Inr x \<Rightarrow> kp x = k \<and> encodable enc_lim (tn_response_size t x) \<and> decodable lim (tn_response_size t x) \<longrightarrow>
        tn_answer t lim k rs = Inr x)"

definition tonic_ok :: "('k, 'q, 'p, 'rq, 'rs, 's) tonic \<Rightarrow> ('q \<Rightarrow> 'k) \<Rightarrow> ('p \<Rightarrow> 'k) \<Rightarrow> bool" where
  "tonic_ok t kq kp \<longleftrightarrow>
     (\<forall>lim p q. encodable lim (tn_request_size t q) \<longrightarrow> (\<exists>rq. tn_request t lim p q = Inr rq)) \<and>
     (\<forall>lim p q rq. tn_request t lim p q = Inr rq \<longrightarrow> tn_path t rq = p \<and> (\<forall>d e f s.
        (if decodable d (tn_request_size t q)
         then fst (tn_unary t d e (kq q) f rq s) = fst (f q s) \<and>
           answers t kp e (kq q) (snd (f q s)) (snd (tn_unary t d e (kq q) f rq s))
         else fst (tn_unary t d e (kq q) f rq s) = s \<and>
           (\<forall>c. \<exists>st. tn_answer t c (kq q) (snd (tn_unary t d e (kq q) f rq s)) = Inl st)))) \<and>
     (\<forall>c k. \<exists>st. tn_answer t c k (tn_response t 200 unimplemented) = Inl st)"

section \<open>A method of a client\<close>

text \<open>
  Every generated method waits until the connection is ready, \<open>busy\<close> being what it says otherwise,
  and makes a unary call to its path.
\<close>

definition call_method ::
  "('k, 'q, 'p, 'rq, 'rs, 's) tonic \<Rightarrow> limits \<Rightarrow> string option \<Rightarrow> net \<Rightarrow> string \<Rightarrow> 'k \<Rightarrow>
     ('rq \<Rightarrow> 's \<Rightarrow> 's \<times> 'rs) \<Rightarrow> 'q \<Rightarrow> 's \<Rightarrow> 's \<times> (grpc_status + 'p)" where
  "call_method t c busy net path k service q s = (case busy of
      Some e \<Rightarrow> (s, Inl \<lparr>st_code = CodeOther, st_message = ''Service was not ready: '' @ e\<rparr>)
    | None \<Rightarrow> (case tn_request t (max_encode c) path q of
        Inl st \<Rightarrow> (s, Inl st)
      | Inr rq \<Rightarrow> over_network net
          (\<lambda>s. case service rq s of (s', rs) \<Rightarrow> (s', tn_answer t (max_decode c) k rs)) s))"

section \<open>Calls that arrive\<close>

text \<open>A reply that passes the limits of both sides, as every status does.\<close>

definition reply_fits ::
  "('k, 'q, 'p, 'rq, 'rs, 's) tonic \<Rightarrow> ('p \<Rightarrow> 'k) \<Rightarrow> limits \<Rightarrow> limits \<Rightarrow> 'k \<Rightarrow> grpc_status + 'p \<Rightarrow> bool" where
  "reply_fits t kp g c k r \<longleftrightarrow> (case r of Inl st \<Rightarrow> True | Inr x \<Rightarrow> kp x = k \<and>
     encodable (max_encode g) (tn_response_size t x) \<and> decodable (max_decode c) (tn_response_size t x))"

definition request_fits ::
  "('k, 'q, 'p, 'rq, 'rs, 's) tonic \<Rightarrow> limits \<Rightarrow> limits \<Rightarrow> 'q \<Rightarrow> bool" where
  "request_fits t g c q \<longleftrightarrow> encodable (max_encode c) (tn_request_size t q) \<and>
     decodable (max_decode g) (tn_request_size t q)"

lemma call_method_arrives:
  assumes ok: "tonic_ok t kq kp"
    and route: "\<And>rq. tn_path t rq = path \<Longrightarrow>
      service rq = tn_unary t (max_decode g) (max_encode g) (kq q) f rq"
    and fits: "request_fits t g c q" and reply: "reply_fits t kp g c (kq q) (snd (f q s))"
  shows "call_method t c None net path (kq q) service q s = over_network net (f q) s"
proof -
  obtain rq where rq: "tn_request t (max_encode c) path q = Inr rq"
    using ok fits unfolding tonic_ok_def request_fits_def by blast
  let ?u = "tn_unary t (max_decode g) (max_encode g) (kq q) f rq s"
  have path: "tn_path t rq = path" and state: "fst ?u = fst (f q s)"
    and ans: "answers t kp (max_encode g) (kq q) (snd (f q s)) (snd ?u)"
    using ok fits rq unfolding tonic_ok_def request_fits_def by auto
  have "tn_answer t (max_decode c) (kq q) (snd ?u) = snd (f q s)"
    using ans reply by (auto simp: answers_def reply_fits_def split: sum.splits)
  then have "(case ?u of (s', rs) \<Rightarrow> (s', tn_answer t (max_decode c) (kq q) rs)) = f q s"
    using state by (simp add: case_prod_beta prod_eq_iff)
  then show ?thesis
    using rq route [OF path] by (simp add: call_method_def over_network_def split: net.splits)
qed

text \<open>A request beyond the limit of the server does not reach the method.\<close>

lemma call_method_refused:
  assumes ok: "tonic_ok t kq kp"
    and route: "\<And>rq. tn_path t rq = path \<Longrightarrow>
      service rq = tn_unary t (max_decode g) (max_encode g) (kq q) f rq"
    and large: "\<not> decodable (max_decode g) (tn_request_size t q)"
  shows "\<exists>st. call_method t c busy net path (kq q) service q s = (s, Inl st)"
proof (cases busy)
  case None
  show ?thesis
  proof (cases "tn_request t (max_encode c) path q")
    case (Inr rq)
    let ?u = "tn_unary t (max_decode g) (max_encode g) (kq q) f rq s"
    have "tn_path t rq = path \<and> fst ?u = s \<and> (\<exists>st. tn_answer t (max_decode c) (kq q) (snd ?u) = Inl st)"
      using ok large Inr unfolding tonic_ok_def by simp
    then show ?thesis
      using None Inr route [of rq]
      by (cases net; cases ?u) (auto simp: call_method_def over_network_def)
  qed (simp add: None call_method_def)
qed (simp add: call_method_def)

section \<open>A library for the witnesses\<close>

text \<open>Requests carry path and message, responses the result; the size of messages is given.\<close>

definition plain_tonic ::
  "('q \<Rightarrow> nat) \<Rightarrow> ('k, 'q, 'p, string \<times> 'q, grpc_status + 'p, 's) tonic" where
  "plain_tonic size_of = \<lparr>tn_request = (\<lambda>lim p q. if encodable lim (size_of q) then Inr (p, q)
       else Inl (internal ''too large'')),
     tn_path = fst,
     tn_unary = (\<lambda>d e k f rq s. if decodable d (size_of (snd rq)) then f (snd rq) s
       else (s, Inl (internal ''too large''))),
     tn_response = (\<lambda>n hs. Inl (internal ''unimplemented'')),
     tn_answer = (\<lambda>lim k rs. rs), tn_request_size = size_of, tn_response_size = (\<lambda>x. 0)\<rparr>"

lemma plain_tonic_ok: "tonic_ok (plain_tonic size_of) kq kp"
  by (auto simp: tonic_ok_def plain_tonic_def answers_def split: sum.splits if_splits)

end
