(* ===== verification/Voice_Wire.thy ===== *)
theory Voice_Wire
  imports Tonic
begin

text \<open>
  The generated code of the voice service: the server of \<open>server/voice/grpc/src/voice_server.v1.rs\<close>,
  which picks a handler by the path of a request, and the client of
  \<open>server/gateway/src/voice_instance/voice_server.v1.rs\<close>.
\<close>

section \<open>Messages and methods\<close>

datatype voice_method = OpenConnectionM | EstablishSessionM | LeaveM | UserStatusM | StatusM | AssignChannelM

datatype voice_request =
    VOpenConnection pb_open_request
  | VEstablishSession pb_establish_request
  | VLeave pb_user_request
  | VUserStatus pb_user_request
  | VStatus string
  | VAssignChannel string

datatype voice_response =
    PvOpenConnection pb_open_response
  | PvEstablishSession pb_establish_response
  | PvLeave
  | PvUserStatus "pb_user_status option"
  | PvStatus "pb_client_info list"
  | PvAssignChannel

fun request_method :: "voice_request \<Rightarrow> voice_method" where
  "request_method (VOpenConnection r) = OpenConnectionM"
| "request_method (VEstablishSession r) = EstablishSessionM"
| "request_method (VLeave r) = LeaveM"
| "request_method (VUserStatus r) = UserStatusM"
| "request_method (VStatus r) = StatusM"
| "request_method (VAssignChannel r) = AssignChannelM"

fun response_method :: "voice_response \<Rightarrow> voice_method" where
  "response_method (PvOpenConnection r) = OpenConnectionM"
| "response_method (PvEstablishSession r) = EstablishSessionM"
| "response_method PvLeave = LeaveM"
| "response_method (PvUserStatus r) = UserStatusM"
| "response_method (PvStatus r) = StatusM"
| "response_method PvAssignChannel = AssignChannelM"

type_synonym ('rq, 'rs) voice_tonic =
  "(voice_method, voice_request, voice_response, 'rq, 'rs, voice_server) tonic"

section \<open>The server\<close>

text \<open>The surroundings of a call, as the handlers take them.\<close>

record call_env =
  ce_env :: request_env
  ce_before :: "(instant \<times> fwd_event) list"
  ce_bind_ok :: "port_ref \<Rightarrow> bool"
  ce_now :: instant

text \<open>
  One arm of the \<open>match\<close> for each method: the service with the types of its messages. The library only
  hands over messages of the type of the method, the other equations are never used.
\<close>

definition wrong_type :: "'s \<Rightarrow> 's \<times> (grpc_status + 'p)" where
  "wrong_type s = (s, Inl (internal ''wrong type''))"

definition open_connection_svc :: "texts \<Rightarrow> call_env \<Rightarrow> voice_request \<Rightarrow> voice_server \<Rightarrow>
    voice_server \<times> (grpc_status + voice_response)" where
  "open_connection_svc tx ce q s = (case q of
      VOpenConnection r \<Rightarrow> map_prod id (map_sum id PvOpenConnection) (grpc_open_connection tx (ce_env ce) r s)
    | _ \<Rightarrow> wrong_type s)"

definition establish_session_svc :: "texts \<Rightarrow> call_env \<Rightarrow> voice_request \<Rightarrow> voice_server \<Rightarrow>
    voice_server \<times> (grpc_status + voice_response)" where
  "establish_session_svc tx ce q s = (case q of
      VEstablishSession r \<Rightarrow>
        map_prod id (map_sum id PvEstablishSession) (grpc_establish_session tx (ce_env ce) r s)
    | _ \<Rightarrow> wrong_type s)"

definition leave_svc :: "texts \<Rightarrow> call_env \<Rightarrow> voice_request \<Rightarrow> voice_server \<Rightarrow>
    voice_server \<times> (grpc_status + voice_response)" where
  "leave_svc tx ce q s = (case q of
      VLeave r \<Rightarrow> map_prod id (map_sum id (\<lambda>_. PvLeave)) (grpc_leave tx (ce_env ce) r s)
    | _ \<Rightarrow> wrong_type s)"

definition user_status_svc :: "texts \<Rightarrow> call_env \<Rightarrow> voice_request \<Rightarrow> voice_server \<Rightarrow>
    voice_server \<times> (grpc_status + voice_response)" where
  "user_status_svc tx ce q s = (case q of
      VUserStatus r \<Rightarrow> map_prod id (map_sum id PvUserStatus) (grpc_user_status tx (ce_env ce) r s)
    | _ \<Rightarrow> wrong_type s)"

definition status_svc :: "texts \<Rightarrow> call_env \<Rightarrow> voice_request \<Rightarrow> voice_server \<Rightarrow>
    voice_server \<times> (grpc_status + voice_response)" where
  "status_svc tx ce q s = (case q of
      VStatus r \<Rightarrow> map_prod id (map_sum id PvStatus) (grpc_status_of_room tx (ce_env ce) (ce_before ce) r s)
    | _ \<Rightarrow> wrong_type s)"

definition assign_channel_svc :: "texts \<Rightarrow> call_env \<Rightarrow> voice_request \<Rightarrow> voice_server \<Rightarrow>
    voice_server \<times> (grpc_status + voice_response)" where
  "assign_channel_svc tx ce q s = (case q of
      VAssignChannel r \<Rightarrow> map_prod id (map_sum id (\<lambda>_. PvAssignChannel))
        (grpc_assign_channel tx (ce_bind_ok ce) (ce_now ce) r s)
    | _ \<Rightarrow> wrong_type s)"

definition voice_server_call ::
  "('rq, 'rs) voice_tonic \<Rightarrow> limits \<Rightarrow> texts \<Rightarrow> call_env \<Rightarrow> 'rq \<Rightarrow> voice_server \<Rightarrow> voice_server \<times> 'rs" where
  "voice_server_call t g tx ce rq =
     (let unary = (\<lambda>k svc. tn_unary t (max_decode g) (max_encode g) k (svc tx ce) rq); path = tn_path t rq
      in if path = ''/voice_server.v1.VoiceServer/OpenConnection''
           then unary OpenConnectionM open_connection_svc
         else if path = ''/voice_server.v1.VoiceServer/EstablishSession''
           then unary EstablishSessionM establish_session_svc
         else if path = ''/voice_server.v1.VoiceServer/Leave'' then unary LeaveM leave_svc
         else if path = ''/voice_server.v1.VoiceServer/UserStatus'' then unary UserStatusM user_status_svc
         else if path = ''/voice_server.v1.VoiceServer/Status'' then unary StatusM status_svc
         else if path = ''/voice_server.v1.VoiceServer/AssignChannel''
           then unary AssignChannelM assign_channel_svc
         else (\<lambda>s. (s, tn_response t 200 unimplemented)))"

section \<open>The client\<close>

text \<open>A client with what is at the other end: the library, limits, readiness and network, the server.\<close>

record ('rq, 'rs) voice_client =
  vl_tonic :: "('rq, 'rs) voice_tonic"
  vl_limits :: limits
  vl_busy :: "string option"
  vl_net :: net
  vl_service :: "'rq \<Rightarrow> voice_server \<Rightarrow> voice_server \<times> 'rs"

definition voice_call ::
  "('rq, 'rs) voice_client \<Rightarrow> string \<Rightarrow> voice_method \<Rightarrow> voice_request \<Rightarrow> voice_server \<Rightarrow>
     voice_server \<times> (grpc_status + voice_response)" where
  "voice_call c path k = call_method (vl_tonic c) (vl_limits c) (vl_busy c) (vl_net c) path k (vl_service c)"

definition client_open_connection :: "('rq, 'rs) voice_client \<Rightarrow> pb_open_request \<Rightarrow> voice_server \<Rightarrow>
    voice_server \<times> (grpc_status + voice_response)" where
  "client_open_connection c r =
     voice_call c ''/voice_server.v1.VoiceServer/OpenConnection'' OpenConnectionM (VOpenConnection r)"

definition client_establish_session :: "('rq, 'rs) voice_client \<Rightarrow> pb_establish_request \<Rightarrow> voice_server \<Rightarrow>
    voice_server \<times> (grpc_status + voice_response)" where
  "client_establish_session c r =
     voice_call c ''/voice_server.v1.VoiceServer/EstablishSession'' EstablishSessionM (VEstablishSession r)"

definition client_leave :: "('rq, 'rs) voice_client \<Rightarrow> pb_user_request \<Rightarrow> voice_server \<Rightarrow>
    voice_server \<times> (grpc_status + voice_response)" where
  "client_leave c r = voice_call c ''/voice_server.v1.VoiceServer/Leave'' LeaveM (VLeave r)"

definition client_user_status :: "('rq, 'rs) voice_client \<Rightarrow> pb_user_request \<Rightarrow> voice_server \<Rightarrow>
    voice_server \<times> (grpc_status + voice_response)" where
  "client_user_status c r = voice_call c ''/voice_server.v1.VoiceServer/UserStatus'' UserStatusM (VUserStatus r)"

definition client_status :: "('rq, 'rs) voice_client \<Rightarrow> string \<Rightarrow> voice_server \<Rightarrow>
    voice_server \<times> (grpc_status + voice_response)" where
  "client_status c r = voice_call c ''/voice_server.v1.VoiceServer/Status'' StatusM (VStatus r)"

definition client_assign_channel :: "('rq, 'rs) voice_client \<Rightarrow> string \<Rightarrow> voice_server \<Rightarrow>
    voice_server \<times> (grpc_status + voice_response)" where
  "client_assign_channel c r =
     voice_call c ''/voice_server.v1.VoiceServer/AssignChannel'' AssignChannelM (VAssignChannel r)"

text \<open>The method for a request, and what the handler of the service does with it.\<close>

fun client_method :: "('rq, 'rs) voice_client \<Rightarrow> voice_request \<Rightarrow> voice_server \<Rightarrow>
    voice_server \<times> (grpc_status + voice_response)" where
  "client_method c (VOpenConnection r) = client_open_connection c r"
| "client_method c (VEstablishSession r) = client_establish_session c r"
| "client_method c (VLeave r) = client_leave c r"
| "client_method c (VUserStatus r) = client_user_status c r"
| "client_method c (VStatus r) = client_status c r"
| "client_method c (VAssignChannel r) = client_assign_channel c r"

fun voice_handler :: "texts \<Rightarrow> call_env \<Rightarrow> voice_request \<Rightarrow> voice_server \<Rightarrow>
    voice_server \<times> (grpc_status + voice_response)" where
  "voice_handler tx ce (VOpenConnection r) s =
     map_prod id (map_sum id PvOpenConnection) (grpc_open_connection tx (ce_env ce) r s)"
| "voice_handler tx ce (VEstablishSession r) s =
     map_prod id (map_sum id PvEstablishSession) (grpc_establish_session tx (ce_env ce) r s)"
| "voice_handler tx ce (VLeave r) s = map_prod id (map_sum id (\<lambda>_. PvLeave)) (grpc_leave tx (ce_env ce) r s)"
| "voice_handler tx ce (VUserStatus r) s =
     map_prod id (map_sum id PvUserStatus) (grpc_user_status tx (ce_env ce) r s)"
| "voice_handler tx ce (VStatus r) s =
     map_prod id (map_sum id PvStatus) (grpc_status_of_room tx (ce_env ce) (ce_before ce) r s)"
| "voice_handler tx ce (VAssignChannel r) s = map_prod id (map_sum id (\<lambda>_. PvAssignChannel))
     (grpc_assign_channel tx (ce_bind_ok ce) (ce_now ce) r s)"

lemmas client_defs = client_open_connection_def client_establish_session_def client_leave_def
  client_user_status_def client_status_def client_assign_channel_def voice_call_def

text \<open>The server sends the path a client uses to an arm that calls the handler of the request.\<close>

lemma voice_routed:
  obtains path f where
    "client_method c q = call_method (vl_tonic c) (vl_limits c) (vl_busy c) (vl_net c) path
       (request_method q) (vl_service c) q"
    and "\<And>(t :: ('rq, 'rs) voice_tonic) g rq. tn_path t rq = path \<Longrightarrow> voice_server_call t g tx ce rq =
       tn_unary t (max_decode g) (max_encode g) (request_method q) f rq"
    and "f q = voice_handler tx ce q"
proof (cases q)
  case (VOpenConnection r)
  then show thesis
    by (intro that [of "''/voice_server.v1.VoiceServer/OpenConnection''" "open_connection_svc tx ce"])
      (simp_all add: client_defs voice_server_call_def open_connection_svc_def fun_eq_iff)
next
  case (VEstablishSession r)
  then show thesis
    by (intro that [of "''/voice_server.v1.VoiceServer/EstablishSession''" "establish_session_svc tx ce"])
      (simp_all add: client_defs voice_server_call_def establish_session_svc_def fun_eq_iff)
next
  case (VLeave r)
  then show thesis
    by (intro that [of "''/voice_server.v1.VoiceServer/Leave''" "leave_svc tx ce"])
      (simp_all add: client_defs voice_server_call_def leave_svc_def fun_eq_iff)
next
  case (VUserStatus r)
  then show thesis
    by (intro that [of "''/voice_server.v1.VoiceServer/UserStatus''" "user_status_svc tx ce"])
      (simp_all add: client_defs voice_server_call_def user_status_svc_def fun_eq_iff)
next
  case (VStatus r)
  then show thesis
    by (intro that [of "''/voice_server.v1.VoiceServer/Status''" "status_svc tx ce"])
      (simp_all add: client_defs voice_server_call_def status_svc_def fun_eq_iff)
next
  case (VAssignChannel r)
  then show thesis
    by (intro that [of "''/voice_server.v1.VoiceServer/AssignChannel''" "assign_channel_svc tx ce"])
      (simp_all add: client_defs voice_server_call_def assign_channel_svc_def fun_eq_iff)
qed

text \<open>
  C39: The generated client and the generated server of the voice service fit together. A call on a
  connection that is ready, whose messages are within the limits of both sides, does what the
  handler of the same name does with the request, as far as the network delivers it; a request that
  is larger than the server decodes changes nothing and ends in an error.
\<close>

theorem voice_calls_reach_their_handlers:
  assumes "tonic_ok (vl_tonic c) request_method response_method"
    and "vl_service c = voice_server_call (vl_tonic c) g tx ce" and "vl_busy c = None"
  shows "(request_fits (vl_tonic c) g (vl_limits c) q \<and> reply_fits (vl_tonic c) response_method g
        (vl_limits c) (request_method q) (snd (voice_handler tx ce q s)) \<longrightarrow>
      client_method c q s = over_network (vl_net c) (voice_handler tx ce q) s) \<and>
    (\<not> decodable (max_decode g) (tn_request_size (vl_tonic c) q) \<longrightarrow>
      (\<exists>st. client_method c q s = (s, Inl st)))"
proof -
  obtain path f where client: "client_method c q = call_method (vl_tonic c) (vl_limits c) (vl_busy c) (vl_net c)
        path (request_method q) (vl_service c) q"
    and route: "\<And>rq. tn_path (vl_tonic c) rq = path \<Longrightarrow> voice_server_call (vl_tonic c) g tx ce rq =
      tn_unary (vl_tonic c) (max_decode g) (max_encode g) (request_method q) f rq"
    and f: "f q = voice_handler tx ce q"
    using voice_routed [of c q tx ce] by metis
  note arrives = call_method_arrives [OF assms(1) route, where c = "vl_limits c" and s = s and net = "vl_net c"]
  note refused = call_method_refused [OF assms(1) route, where c = "vl_limits c" and busy = "vl_busy c" and net = "vl_net c" and s = s]
  show ?thesis
    unfolding client assms(2) using arrives refused f assms(3) by simp
qed

text \<open>A delivered call to a server without rooms, and one whose request is too large.\<close>

definition demo_client :: "nat \<Rightarrow> (string \<times> voice_request, grpc_status + voice_response) voice_client" where
  "demo_client n = \<lparr>vl_tonic = plain_tonic (\<lambda>q. n), vl_limits = default_limits, vl_busy = None,
     vl_net = Delivered, vl_service = voice_server_call (plain_tonic (\<lambda>q. n)) default_limits tally_texts
       \<lparr>ce_env = demo_env, ce_before = [], ce_bind_ok = (\<lambda>r. True), ce_now = 0\<rparr>\<rparr>"

theorem voice_calls_reach_their_handlers_witness:
  "snd (client_method (demo_client 10) (VLeave \<lparr>pu_user_id = ''x'', pu_channel_id = ''xx''\<rparr>) empty_server) =
     Inl (not_found ''channel not hosted here'') \<and>
   (\<exists>st. client_method (demo_client 5000000) (VStatus ''x'') empty_server = (empty_server, Inl st))"
proof -
  let ?ce = "\<lparr>ce_env = demo_env, ce_before = [], ce_bind_ok = (\<lambda>r. True), ce_now = 0\<rparr>"
  let ?q = "VLeave \<lparr>pu_user_id = ''x'', pu_channel_id = ''xx''\<rparr>"
  have ok: "tonic_ok (vl_tonic (demo_client n)) request_method response_method" for n
    by (simp add: demo_client_def plain_tonic_ok)
  have srv: "vl_service (demo_client n) =
      voice_server_call (vl_tonic (demo_client n)) default_limits tally_texts ?ce" for n
    by (simp add: demo_client_def)
  have ready: "vl_busy (demo_client n) = None" for n
    by (simp add: demo_client_def)
  have handler: "snd (voice_handler tally_texts ?ce ?q empty_server) = Inl (not_found ''channel not hosted here'')"
    by (simp add: grpc_leave_def serve_def user_request_from_pb_def parse_field_def tally_texts_def
        Voice_Server.leave_def Voice_Server.get_channel_def empty_server_def voice_server_new_def
        map_voice_error_def)
  have "client_method (demo_client 10) ?q empty_server =
      over_network (vl_net (demo_client 10)) (voice_handler tally_texts ?ce ?q) empty_server"
    using voice_calls_reach_their_handlers [OF ok srv ready, of 10 ?q empty_server] handler
    by (simp add: request_fits_def reply_fits_def demo_client_def plain_tonic_def encodable_def
        decodable_def default_limits_def)
  then have "snd (client_method (demo_client 10) ?q empty_server) = Inl (not_found ''channel not hosted here'')"
    using handler by (simp add: demo_client_def over_network_def)
  moreover have "\<exists>st. client_method (demo_client 5000000) (VStatus ''x'') empty_server = (empty_server, Inl st)"
    using voice_calls_reach_their_handlers [OF ok srv ready, of 5000000 "VStatus ''x''" empty_server]
    by (simp add: demo_client_def plain_tonic_def decodable_def default_limits_def)
  ultimately show ?thesis by blast
qed

end
