(* ===== verification/Channels_Wire.thy ===== *)
theory Channels_Wire
  imports Tonic
begin

text \<open>
  The generated code of the channel registry: the server of
  \<open>server/channels/grpc/src/voice_channels.v1.rs\<close>, and its clients in the gateway
  (\<open>channel_registry/voice_channels.v1.rs\<close>) and in the voice server, which calls two of the methods
  (\<open>server/voice/grpc/src/registry/voice_channels.v1.rs\<close>).
\<close>

section \<open>Messages and methods\<close>

datatype channels_method = CreateServerM | GetServerM | GetServersM | CreateChannelM | GetChannelM
  | AssignChannelM | UnassignChannelM | RegisterVoiceServerM | CleanupStaleVoiceServersM

datatype channels_request =
    CCreateServer string
  | CGetServer string
  | CGetServers "int option" "int option"
  | CCreateChannel string string
  | CGetChannel string
  | CAssignChannel string bool
  | CUnassignChannel string string
  | CRegisterVoiceServer string string
  | CCleanupStaleVoiceServers

datatype channels_response =
    CcCreateServer string
  | CcGetServer pb_server_response
  | CcGetServers "pb_server_info list" int
  | CcCreateChannel string
  | CcGetChannel pb_channel_response
  | CcAssignChannel string
  | CcUnassignChannel
  | CcRegisterVoiceServer timestamp
  | CcCleanupStaleVoiceServers "string list"

fun request_channels :: "channels_request \<Rightarrow> channels_method" where
  "request_channels (CCreateServer r) = CreateServerM"
| "request_channels (CGetServer r) = GetServerM"
| "request_channels (CGetServers n page) = GetServersM"
| "request_channels (CCreateChannel sid name) = CreateChannelM"
| "request_channels (CGetChannel r) = GetChannelM"
| "request_channels (CAssignChannel cid reassign) = AssignChannelM"
| "request_channels (CUnassignChannel cid sid) = UnassignChannelM"
| "request_channels (CRegisterVoiceServer vid addr) = RegisterVoiceServerM"
| "request_channels CCleanupStaleVoiceServers = CleanupStaleVoiceServersM"

fun response_channels :: "channels_response \<Rightarrow> channels_method" where
  "response_channels (CcCreateServer x) = CreateServerM"
| "response_channels (CcGetServer x) = GetServerM"
| "response_channels (CcGetServers xs pages) = GetServersM"
| "response_channels (CcCreateChannel x) = CreateChannelM"
| "response_channels (CcGetChannel x) = GetChannelM"
| "response_channels (CcAssignChannel x) = AssignChannelM"
| "response_channels CcUnassignChannel = UnassignChannelM"
| "response_channels (CcRegisterVoiceServer x) = RegisterVoiceServerM"
| "response_channels (CcCleanupStaleVoiceServers x) = CleanupStaleVoiceServersM"

type_synonym ('rq, 'rs) channels_tonic =
  "(channels_method, channels_request, channels_response, 'rq, 'rs, db) tonic"

section \<open>The server\<close>

text \<open>What the handlers take besides: the clock, a fresh id, and how ties are broken.\<close>

record channels_env =
  cv_now :: instant
  cv_new_id :: uuid
  cv_tie :: nat

text \<open>
  One arm of the \<open>match\<close> for each method. The library only hands over messages of the type of the
  method, the other equations are never used.
\<close>

definition mistyped :: "'s \<Rightarrow> 's \<times> (grpc_status + 'p)" where
  "mistyped s = (s, Inl (internal ''wrong type''))"

definition create_server_svc :: "url_texts \<Rightarrow> channels_env \<Rightarrow> channels_request \<Rightarrow> db \<Rightarrow>
    db \<times> (grpc_status + channels_response)" where
  "create_server_svc tx cv q d = (case q of
      CCreateServer r \<Rightarrow> map_prod id (map_sum id CcCreateServer)
        (grpc_create_server (base_texts tx) (cv_new_id cv) r d)
    | _ \<Rightarrow> mistyped d)"

definition get_server_svc :: "url_texts \<Rightarrow> channels_env \<Rightarrow> channels_request \<Rightarrow> db \<Rightarrow>
    db \<times> (grpc_status + channels_response)" where
  "get_server_svc tx cv q d = (case q of
      CGetServer r \<Rightarrow> map_prod id (map_sum id CcGetServer)
        (d, grpc_get_server (base_texts tx) r d)
    | _ \<Rightarrow> mistyped d)"

definition get_servers_svc :: "url_texts \<Rightarrow> channels_env \<Rightarrow> channels_request \<Rightarrow> db \<Rightarrow>
    db \<times> (grpc_status + channels_response)" where
  "get_servers_svc tx cv q d = (case q of
      CGetServers n page \<Rightarrow> map_prod id (map_sum id (case_prod CcGetServers))
        (d, grpc_get_servers (base_texts tx) page n d)
    | _ \<Rightarrow> mistyped d)"

definition create_channel_svc :: "url_texts \<Rightarrow> channels_env \<Rightarrow> channels_request \<Rightarrow> db \<Rightarrow>
    db \<times> (grpc_status + channels_response)" where
  "create_channel_svc tx cv q d = (case q of
      CCreateChannel sid name \<Rightarrow> map_prod id (map_sum id CcCreateChannel)
        (grpc_create_channel (base_texts tx) (cv_now cv) (cv_new_id cv) sid name d)
    | _ \<Rightarrow> mistyped d)"

definition get_channel_svc :: "url_texts \<Rightarrow> channels_env \<Rightarrow> channels_request \<Rightarrow> db \<Rightarrow>
    db \<times> (grpc_status + channels_response)" where
  "get_channel_svc tx cv q d = (case q of
      CGetChannel r \<Rightarrow> map_prod id (map_sum id CcGetChannel)
        (d, grpc_get_channel (base_texts tx) (cv_now cv) r d)
    | _ \<Rightarrow> mistyped d)"

definition assign_channel_svc :: "url_texts \<Rightarrow> channels_env \<Rightarrow> channels_request \<Rightarrow> db \<Rightarrow>
    db \<times> (grpc_status + channels_response)" where
  "assign_channel_svc tx cv q d = (case q of
      CAssignChannel cid reassign \<Rightarrow> map_prod id (map_sum id CcAssignChannel)
        (grpc_assign (base_texts tx) (cv_tie cv) (cv_now cv) cid reassign d)
    | _ \<Rightarrow> mistyped d)"

definition unassign_channel_svc :: "url_texts \<Rightarrow> channels_env \<Rightarrow> channels_request \<Rightarrow> db \<Rightarrow>
    db \<times> (grpc_status + channels_response)" where
  "unassign_channel_svc tx cv q d = (case q of
      CUnassignChannel cid sid \<Rightarrow> map_prod id (map_sum id (\<lambda>_. CcUnassignChannel))
        (grpc_unassign (base_texts tx) (cv_now cv) cid sid d)
    | _ \<Rightarrow> mistyped d)"

definition register_voice_server_svc :: "url_texts \<Rightarrow> channels_env \<Rightarrow> channels_request \<Rightarrow> db \<Rightarrow>
    db \<times> (grpc_status + channels_response)" where
  "register_voice_server_svc tx cv q d = (case q of
      CRegisterVoiceServer vid addr \<Rightarrow> map_prod id (map_sum id CcRegisterVoiceServer)
        (grpc_register tx (cv_now cv) vid addr d)
    | _ \<Rightarrow> mistyped d)"

definition cleanup_stale_voice_servers_svc :: "url_texts \<Rightarrow> channels_env \<Rightarrow> channels_request \<Rightarrow> db \<Rightarrow>
    db \<times> (grpc_status + channels_response)" where
  "cleanup_stale_voice_servers_svc tx cv q d = (case q of
      CCleanupStaleVoiceServers \<Rightarrow> map_prod id (map_sum id CcCleanupStaleVoiceServers)
        (grpc_cleanup (base_texts tx) (cv_now cv) d)
    | _ \<Rightarrow> mistyped d)"

definition channels_server_call ::
  "('rq, 'rs) channels_tonic \<Rightarrow> limits \<Rightarrow> url_texts \<Rightarrow> channels_env \<Rightarrow> 'rq \<Rightarrow> db \<Rightarrow> db \<times> 'rs" where
  "channels_server_call t g tx cv rq =
     (let unary = (\<lambda>k svc. tn_unary t (max_decode g) (max_encode g) k (svc tx cv) rq); path = tn_path t rq
      in if path = ''/voice_channels.v1.Channels/CreateServer''
           then unary CreateServerM create_server_svc
         else if path = ''/voice_channels.v1.Channels/GetServer''
           then unary GetServerM get_server_svc
         else if path = ''/voice_channels.v1.Channels/GetServers''
           then unary GetServersM get_servers_svc
         else if path = ''/voice_channels.v1.Channels/CreateChannel''
           then unary CreateChannelM create_channel_svc
         else if path = ''/voice_channels.v1.Channels/GetChannel''
           then unary GetChannelM get_channel_svc
         else if path = ''/voice_channels.v1.Channels/AssignChannel''
           then unary AssignChannelM assign_channel_svc
         else if path = ''/voice_channels.v1.Channels/UnassignChannel''
           then unary UnassignChannelM unassign_channel_svc
         else if path = ''/voice_channels.v1.Channels/RegisterVoiceServer''
           then unary RegisterVoiceServerM register_voice_server_svc
         else if path = ''/voice_channels.v1.Channels/CleanupStaleVoiceServers''
           then unary CleanupStaleVoiceServersM cleanup_stale_voice_servers_svc
         else (\<lambda>d. (d, tn_response t 200 unimplemented)))"

section \<open>The clients\<close>

record ('rq, 'rs) channels_client =
  nl_tonic :: "('rq, 'rs) channels_tonic"
  nl_limits :: limits
  nl_busy :: "string option"
  nl_net :: net
  nl_service :: "'rq \<Rightarrow> db \<Rightarrow> db \<times> 'rs"

definition channels_call ::
  "('rq, 'rs) channels_client \<Rightarrow> string \<Rightarrow> channels_method \<Rightarrow> channels_request \<Rightarrow> db \<Rightarrow>
     db \<times> (grpc_status + channels_response)" where
  "channels_call c path k = call_method (nl_tonic c) (nl_limits c) (nl_busy c) (nl_net c) path k (nl_service c)"

definition client_create_server :: "('rq, 'rs) channels_client \<Rightarrow> string \<Rightarrow> db \<Rightarrow>
    db \<times> (grpc_status + channels_response)" where
  "client_create_server c r =
     channels_call c ''/voice_channels.v1.Channels/CreateServer'' CreateServerM (CCreateServer r)"

definition client_get_server :: "('rq, 'rs) channels_client \<Rightarrow> string \<Rightarrow> db \<Rightarrow>
    db \<times> (grpc_status + channels_response)" where
  "client_get_server c r =
     channels_call c ''/voice_channels.v1.Channels/GetServer'' GetServerM (CGetServer r)"

definition client_get_servers :: "('rq, 'rs) channels_client \<Rightarrow> int option \<Rightarrow> int option \<Rightarrow> db \<Rightarrow>
    db \<times> (grpc_status + channels_response)" where
  "client_get_servers c n page =
     channels_call c ''/voice_channels.v1.Channels/GetServers'' GetServersM (CGetServers n page)"

definition client_create_channel :: "('rq, 'rs) channels_client \<Rightarrow> string \<Rightarrow> string \<Rightarrow> db \<Rightarrow>
    db \<times> (grpc_status + channels_response)" where
  "client_create_channel c sid name =
     channels_call c ''/voice_channels.v1.Channels/CreateChannel'' CreateChannelM (CCreateChannel sid name)"

definition client_get_channel :: "('rq, 'rs) channels_client \<Rightarrow> string \<Rightarrow> db \<Rightarrow>
    db \<times> (grpc_status + channels_response)" where
  "client_get_channel c r =
     channels_call c ''/voice_channels.v1.Channels/GetChannel'' GetChannelM (CGetChannel r)"

definition client_assign_channel :: "('rq, 'rs) channels_client \<Rightarrow> string \<Rightarrow> bool \<Rightarrow> db \<Rightarrow>
    db \<times> (grpc_status + channels_response)" where
  "client_assign_channel c cid reassign =
     channels_call c ''/voice_channels.v1.Channels/AssignChannel'' AssignChannelM (CAssignChannel cid reassign)"

definition client_unassign_channel :: "('rq, 'rs) channels_client \<Rightarrow> string \<Rightarrow> string \<Rightarrow> db \<Rightarrow>
    db \<times> (grpc_status + channels_response)" where
  "client_unassign_channel c cid sid =
     channels_call c ''/voice_channels.v1.Channels/UnassignChannel'' UnassignChannelM (CUnassignChannel cid sid)"

definition client_register_voice_server :: "('rq, 'rs) channels_client \<Rightarrow> string \<Rightarrow> string \<Rightarrow> db \<Rightarrow>
    db \<times> (grpc_status + channels_response)" where
  "client_register_voice_server c vid addr =
     channels_call c ''/voice_channels.v1.Channels/RegisterVoiceServer'' RegisterVoiceServerM (CRegisterVoiceServer vid addr)"

definition client_cleanup_stale_voice_servers :: "('rq, 'rs) channels_client \<Rightarrow> db \<Rightarrow>
    db \<times> (grpc_status + channels_response)" where
  "client_cleanup_stale_voice_servers c =
     channels_call c ''/voice_channels.v1.Channels/CleanupStaleVoiceServers'' CleanupStaleVoiceServersM CCleanupStaleVoiceServers"

text \<open>The copy in the voice server, which uses two of its methods.\<close>

definition registry_unassign_channel :: "('rq, 'rs) channels_client \<Rightarrow> string \<Rightarrow> string \<Rightarrow> db \<Rightarrow>
    db \<times> (grpc_status + channels_response)" where
  "registry_unassign_channel c cid sid =
     channels_call c ''/voice_channels.v1.Channels/UnassignChannel'' UnassignChannelM (CUnassignChannel cid sid)"

definition registry_register_voice_server :: "('rq, 'rs) channels_client \<Rightarrow> string \<Rightarrow> string \<Rightarrow> db \<Rightarrow>
    db \<times> (grpc_status + channels_response)" where
  "registry_register_voice_server c vid addr =
     channels_call c ''/voice_channels.v1.Channels/RegisterVoiceServer'' RegisterVoiceServerM (CRegisterVoiceServer vid addr)"

text \<open>The method for a request, and what the handler of the service does with it.\<close>

fun channels_client_method :: "('rq, 'rs) channels_client \<Rightarrow> channels_request \<Rightarrow> db \<Rightarrow>
    db \<times> (grpc_status + channels_response)" where
  "channels_client_method c (CCreateServer r) = client_create_server c r"
| "channels_client_method c (CGetServer r) = client_get_server c r"
| "channels_client_method c (CGetServers n page) = client_get_servers c n page"
| "channels_client_method c (CCreateChannel sid name) = client_create_channel c sid name"
| "channels_client_method c (CGetChannel r) = client_get_channel c r"
| "channels_client_method c (CAssignChannel cid reassign) = client_assign_channel c cid reassign"
| "channels_client_method c (CUnassignChannel cid sid) = client_unassign_channel c cid sid"
| "channels_client_method c (CRegisterVoiceServer vid addr) = client_register_voice_server c vid addr"
| "channels_client_method c CCleanupStaleVoiceServers = client_cleanup_stale_voice_servers c"

fun channels_handler :: "url_texts \<Rightarrow> channels_env \<Rightarrow> channels_request \<Rightarrow> db \<Rightarrow>
    db \<times> (grpc_status + channels_response)" where
  "channels_handler tx cv (CCreateServer r) d =
     map_prod id (map_sum id CcCreateServer) (grpc_create_server (base_texts tx) (cv_new_id cv) r d)"
| "channels_handler tx cv (CGetServer r) d =
     map_prod id (map_sum id CcGetServer) (d, grpc_get_server (base_texts tx) r d)"
| "channels_handler tx cv (CGetServers n page) d =
     map_prod id (map_sum id (case_prod CcGetServers)) (d, grpc_get_servers (base_texts tx) page n d)"
| "channels_handler tx cv (CCreateChannel sid name) d =
     map_prod id (map_sum id CcCreateChannel) (grpc_create_channel (base_texts tx) (cv_now cv) (cv_new_id cv) sid name d)"
| "channels_handler tx cv (CGetChannel r) d =
     map_prod id (map_sum id CcGetChannel) (d, grpc_get_channel (base_texts tx) (cv_now cv) r d)"
| "channels_handler tx cv (CAssignChannel cid reassign) d =
     map_prod id (map_sum id CcAssignChannel) (grpc_assign (base_texts tx) (cv_tie cv) (cv_now cv) cid reassign d)"
| "channels_handler tx cv (CUnassignChannel cid sid) d =
     map_prod id (map_sum id (\<lambda>_. CcUnassignChannel)) (grpc_unassign (base_texts tx) (cv_now cv) cid sid d)"
| "channels_handler tx cv (CRegisterVoiceServer vid addr) d =
     map_prod id (map_sum id CcRegisterVoiceServer) (grpc_register tx (cv_now cv) vid addr d)"
| "channels_handler tx cv CCleanupStaleVoiceServers d =
     map_prod id (map_sum id CcCleanupStaleVoiceServers) (grpc_cleanup (base_texts tx) (cv_now cv) d)"

lemmas channels_client_defs = client_create_server_def client_get_server_def client_get_servers_def client_create_channel_def client_get_channel_def client_assign_channel_def client_unassign_channel_def client_register_voice_server_def client_cleanup_stale_voice_servers_def
  channels_call_def

text \<open>The server sends the path a client uses to an arm that calls the handler of the request.\<close>

lemma channels_routed:
  obtains path f where
    "channels_client_method c q = call_method (nl_tonic c) (nl_limits c) (nl_busy c) (nl_net c) path
       (request_channels q) (nl_service c) q"
    and "\<And>(t :: ('rq, 'rs) channels_tonic) g rq. tn_path t rq = path \<Longrightarrow> channels_server_call t g tx cv rq =
       tn_unary t (max_decode g) (max_encode g) (request_channels q) f rq"
    and "f q = channels_handler tx cv q"
proof (cases q)
  case (CCreateServer r)
  then show thesis
    by (intro that [of "''/voice_channels.v1.Channels/CreateServer''" "create_server_svc tx cv"])
      (simp_all add: channels_client_defs channels_server_call_def create_server_svc_def fun_eq_iff)
next
  case (CGetServer r)
  then show thesis
    by (intro that [of "''/voice_channels.v1.Channels/GetServer''" "get_server_svc tx cv"])
      (simp_all add: channels_client_defs channels_server_call_def get_server_svc_def fun_eq_iff)
next
  case (CGetServers n page)
  then show thesis
    by (intro that [of "''/voice_channels.v1.Channels/GetServers''" "get_servers_svc tx cv"])
      (simp_all add: channels_client_defs channels_server_call_def get_servers_svc_def fun_eq_iff)
next
  case (CCreateChannel sid name)
  then show thesis
    by (intro that [of "''/voice_channels.v1.Channels/CreateChannel''" "create_channel_svc tx cv"])
      (simp_all add: channels_client_defs channels_server_call_def create_channel_svc_def fun_eq_iff)
next
  case (CGetChannel r)
  then show thesis
    by (intro that [of "''/voice_channels.v1.Channels/GetChannel''" "get_channel_svc tx cv"])
      (simp_all add: channels_client_defs channels_server_call_def get_channel_svc_def fun_eq_iff)
next
  case (CAssignChannel cid reassign)
  then show thesis
    by (intro that [of "''/voice_channels.v1.Channels/AssignChannel''" "assign_channel_svc tx cv"])
      (simp_all add: channels_client_defs channels_server_call_def assign_channel_svc_def fun_eq_iff)
next
  case (CUnassignChannel cid sid)
  then show thesis
    by (intro that [of "''/voice_channels.v1.Channels/UnassignChannel''" "unassign_channel_svc tx cv"])
      (simp_all add: channels_client_defs channels_server_call_def unassign_channel_svc_def fun_eq_iff)
next
  case (CRegisterVoiceServer vid addr)
  then show thesis
    by (intro that [of "''/voice_channels.v1.Channels/RegisterVoiceServer''" "register_voice_server_svc tx cv"])
      (simp_all add: channels_client_defs channels_server_call_def register_voice_server_svc_def fun_eq_iff)
next
  case CCleanupStaleVoiceServers
  then show thesis
    by (intro that [of "''/voice_channels.v1.Channels/CleanupStaleVoiceServers''" "cleanup_stale_voice_servers_svc tx cv"])
      (simp_all add: channels_client_defs channels_server_call_def cleanup_stale_voice_servers_svc_def fun_eq_iff)
qed

text \<open>
  The generated clients and the generated server of the channel registry fit together. A call on
  a connection that is ready, whose messages are within the limits of both sides, does what the
  handler of the same name does with the request, as far as the network delivers it; a request that
  is larger than the server decodes changes nothing and ends in an error; and the copy of the client
  in the voice server makes the same calls.
\<close>

theorem registry_calls_reach_their_handlers:
  assumes "tonic_ok (nl_tonic c) request_channels response_channels"
    and "nl_service c = channels_server_call (nl_tonic c) g tx cv" and "nl_busy c = None"
  shows "(request_fits (nl_tonic c) g (nl_limits c) q \<and> reply_fits (nl_tonic c) response_channels g
        (nl_limits c) (request_channels q) (snd (channels_handler tx cv q d)) \<longrightarrow>
      channels_client_method c q d = over_network (nl_net c) (channels_handler tx cv q) d) \<and>
    (\<not> decodable (max_decode g) (tn_request_size (nl_tonic c) q) \<longrightarrow>
      (\<exists>st. channels_client_method c q d = (d, Inl st))) \<and>
    registry_register_voice_server c vid addr = channels_client_method c (CRegisterVoiceServer vid addr) \<and>
    registry_unassign_channel c cid sid = channels_client_method c (CUnassignChannel cid sid)"
proof -
  obtain path f where client: "channels_client_method c q = call_method (nl_tonic c) (nl_limits c) (nl_busy c)
        (nl_net c) path (request_channels q) (nl_service c) q"
    and route: "\<And>rq. tn_path (nl_tonic c) rq = path \<Longrightarrow> channels_server_call (nl_tonic c) g tx cv rq =
      tn_unary (nl_tonic c) (max_decode g) (max_encode g) (request_channels q) f rq"
    and f: "f q = channels_handler tx cv q"
    using channels_routed [of c q tx cv] by metis
  note arrives = call_method_arrives [OF assms(1) route, where c = "nl_limits c" and s = d and net = "nl_net c"]
  note refused = call_method_refused [OF assms(1) route, where c = "nl_limits c" and busy = "nl_busy c" and net = "nl_net c" and s = d]
  have "registry_register_voice_server c vid addr = channels_client_method c (CRegisterVoiceServer vid addr) \<and>
    registry_unassign_channel c cid sid = channels_client_method c (CUnassignChannel cid sid)"
    by (simp add: registry_register_voice_server_def registry_unassign_channel_def
        client_register_voice_server_def client_unassign_channel_def)
  then show ?thesis
    unfolding client assms(2) using arrives refused f assms(3) by simp
qed

text \<open>A call that is delivered, and one whose request is too large.\<close>

definition wire_urls :: url_texts where
  "wire_urls = texts.extend tally_texts \<lparr>url_parse = Some, uri_ok = (\<lambda>s. True)\<rparr>"

definition wire_env :: channels_env where
  "wire_env = \<lparr>cv_now = 0, cv_new_id = 9, cv_tie = 0\<rparr>"

definition demo_channels_client ::
  "nat \<Rightarrow> (string \<times> channels_request, grpc_status + channels_response) channels_client" where
  "demo_channels_client n = \<lparr>nl_tonic = plain_tonic (\<lambda>q. n), nl_limits = default_limits, nl_busy = None,
     nl_net = Delivered,
     nl_service = channels_server_call (plain_tonic (\<lambda>q. n)) default_limits wire_urls wire_env\<rparr>"

theorem registry_calls_reach_their_handlers_witness:
  "snd (channels_client_method (demo_channels_client 10) (CGetServer ''xxxxx'') sample_db) =
     Inr (CcGetServer \<lparr>psr_server_id = ''xxxxx'', psr_name = ''s'',
       psr_channels = [\<lparr>pbc_channel_id = ''xxxxxxx'', pbc_name = ''c''\<rparr>]\<rparr>) \<and>
   (\<exists>st. channels_client_method (demo_channels_client 5000000) (CGetServer ''x'') sample_db =
     (sample_db, Inl st))"
proof -
  have ok: "tonic_ok (nl_tonic (demo_channels_client n)) request_channels response_channels" for n
    by (simp add: demo_channels_client_def plain_tonic_ok)
  have srv: "nl_service (demo_channels_client n) =
      channels_server_call (nl_tonic (demo_channels_client n)) default_limits wire_urls wire_env" for n
    by (simp add: demo_channels_client_def)
  have ready: "nl_busy (demo_channels_client n) = None" for n
    by (simp add: demo_channels_client_def)
  have ids: "replicate 5 CHR ''x'' = ''xxxxx''" "replicate 7 CHR ''x'' = ''xxxxxxx''"
    by (simp_all add: numeral_eq_Suc)
  have handler: "channels_handler wire_urls wire_env (CGetServer ''xxxxx'') sample_db = (sample_db,
      Inr (CcGetServer \<lparr>psr_server_id = ''xxxxx'', psr_name = ''s'',
        psr_channels = [\<lparr>pbc_channel_id = ''xxxxxxx'', pbc_name = ''c''\<rparr>]\<rparr>))"
    by (simp add: grpc_get_server_def parse_field_def base_texts_def wire_urls_def texts.defs tally_texts_def
        get_server_def server_get_def server_channels_def info_of_def sample_db_value server_to_pb_def
        channel_info_to_pb_def ids)
  have "channels_client_method (demo_channels_client 10) (CGetServer ''xxxxx'') sample_db = over_network
      (nl_net (demo_channels_client 10)) (channels_handler wire_urls wire_env (CGetServer ''xxxxx'')) sample_db"
    using registry_calls_reach_their_handlers [OF ok srv ready, of 10 "CGetServer ''xxxxx''" sample_db] handler
    by (simp add: request_fits_def reply_fits_def demo_channels_client_def plain_tonic_def encodable_def
        decodable_def default_limits_def)
  then have "snd (channels_client_method (demo_channels_client 10) (CGetServer ''xxxxx'') sample_db) =
      Inr (CcGetServer \<lparr>psr_server_id = ''xxxxx'', psr_name = ''s'',
        psr_channels = [\<lparr>pbc_channel_id = ''xxxxxxx'', pbc_name = ''c''\<rparr>]\<rparr>)"
    using handler by (simp add: demo_channels_client_def over_network_def)
  moreover have "\<exists>st. channels_client_method (demo_channels_client 5000000) (CGetServer ''x'') sample_db =
      (sample_db, Inl st)"
    using registry_calls_reach_their_handlers [OF ok srv ready, of 5000000 "CGetServer ''x''" sample_db]
    by (simp add: demo_channels_client_def plain_tonic_def decodable_def default_limits_def)
  ultimately show ?thesis by blast
qed

end
