(* ===== verification/Spec2Isabelle.thy ===== *)
theory Spec2Isabelle
  imports Startup Client_Device Client_Player Voice_Path Voice_Wire Channels_Wire
begin

text \<open>
  \<^bold>\<open>The program.\<close> \<open>voices\<close> is a voice chat. A client talks to a \<^emph>\<open>gateway\<close> over a WebSocket (join a
  channel, hear who joins and leaves) and to a \<^emph>\<open>voice server\<close> over encrypted UDP datagrams (what is
  said). A \<^emph>\<open>channel registry\<close> in PostgreSQL knows the servers, their channels, and which voice server a
  channel is placed on. In the standalone set-up the gateway embeds a voice server and the registry;
  in the distributed one they are processes of their own behind gRPC, and gateways share the members
  and events of a channel through Redis.

  A client joins a channel: its session in the gateway asks the registry for the voice host of the
  channel, enters the channel's presence, opens a connection at the voice host, tells the client the
  UDP address, learns the client's own address, establishes the voice session and sends \<open>Ready\<close> with the
  key. From then on the client's datagrams are accepted from that address, decrypted, put on the bus
  of the channel, encrypted for each of the others and sent to them.

  \<^bold>\<open>Theories and code.\<close> Each theory has the definitions of one part, in the order and with the names
  of the code, then its invariants and lemmas, then its properties (numbered \<open>C1\<close>, \<open>C2\<close>, \dots over the
  whole development), each with a theorem \<open>..._witness\<close> that applies it to a concrete case where it has
  hypotheses. Paths are below \<open>src/\<close>.

  \<^item> \<open>Voices_Prelude\<close>: machine integers, ids and instants, maps as the code has them (\<open>BTreeMap\<close> as a
    sorted list, \<open>HashMap\<close> as a list with distinct keys) and their interface \<open>finite_map\<close>.
  \<^item> The voice server, \<open>server/voice\<close>. \<open>Ports\<close> (\<open>core/src/ports.rs\<close>), \<open>Net_Addr\<close> (\<open>Conn::same_addr\<close>),
    \<open>Voice_Crypto\<close> (\<open>crypto\<close>), \<open>Voice_Proto\<close> (\<open>proto\<close>, \<open>models\<close>), \<open>Voice_Connection\<close> (the task of one
    connection, \<open>core/src/channel/connection.rs\<close>), \<open>Forwarder\<close> (the task of one channel with all its
    connections, \<open>core/src/channel/mod.rs\<close>), \<open>Voice_Server\<close> (\<open>core/src/lib.rs\<close> with the configuration).
  \<^item> The gateway, \<open>server/gateway\<close>. \<open>Presence\<close> (\<open>src/server/channels/mod.rs\<close>, \<open>state/local.rs\<close>),
    \<open>Ws_Stream\<close> (the messages of \<open>server/ws-proto\<close> and the stream tasks of gateway and client),
    \<open>Session\<close> (\<open>src/server/session.rs\<close>), \<open>Session_World\<close> (what many sessions hold, whatever answers
    their calls), \<open>Gateway\<close> (the standalone gateway: channel map, integrated voice host and registry, all
    sessions together), \<open>Rest_Api\<close> (\<open>src/rest_api.rs\<close> and the client's
    \<open>channels_api.rs\<close>), \<open>Redis_Channel\<close> (\<open>src/server/channels/state/distributed.rs\<close>).
  \<^item> \<open>Distributed_Gateway\<close>: the distributed set-up as one system, the gateways with their channel maps, all
    their sessions, the channel states over Redis and the voice servers found through the registry.
  \<^item> The registry, \<open>server/channels\<close>. \<open>Registry\<close> (\<open>core\<close>: queries over lists of rows).
  \<^item> gRPC. \<open>Voice_Grpc\<close> (service of the voice server and \<open>RemoteVoiceHost\<close>), \<open>Channels_Grpc\<close> (service of
    the registry and the distributed registry of a gateway), \<open>Distributed\<close> (placing a room on one of
    many voice servers, heartbeat, end notification), \<open>Tonic\<close>, \<open>Voice_Wire\<close> and \<open>Channels_Wire\<close> (the
    generated clients and servers \<open>voice_server.v1.rs\<close> and \<open>voice_channels.v1.rs\<close>).
  \<^item> The client, \<open>client/src\<close>. \<open>Client_Main\<close> (\<open>main.rs\<close> and the control stream of \<open>ws-proto\<close>), \<open>Client_Udp\<close>
    (\<open>udp.rs\<close> and \<open>udp-proto\<close>), \<open>Client_Play\<close> (jitter buffer and stream task of \<open>play.rs\<close>),
    \<open>Client_Player\<close> (the output thread of \<open>play.rs\<close>), \<open>Client_Mic\<close> and \<open>Client_Device\<close> (\<open>mic.rs\<close>).
  \<^item> \<open>Voice_Path\<close>: a frame on its way from the microphone of one client through the voice server into
    the stream of another. \<open>Control_Path\<close>: the set-up of a voice connection with both its ends, the
    client program and its session. \<open>Client_Program\<close>: the client program as a whole (\<open>main.rs\<close>), from the
    choice of a channel to the streams it plays.
  \<^item> \<open>Startup\<close>: configurations and their defaults, and how gateway, registry and voice server start
    (\<open>lib.rs\<close> of the gateway, \<open>main.rs\<close> and \<open>server.rs\<close> of the other two).

  \<^bold>\<open>State and steps.\<close> A structure of the code is a record, an enumeration a datatype, an operation a
  function that returns the changed state. A task with a \<open>select!\<close> loop is a function of one event, or a
  step relation where the choice is open; its invariants hold in every state that can be reached
  (\<open>fwd_reach\<close>, \<open>srv_reach\<close>, \<open>chan_single\<close>, \<open>play_reach\<close>, \<open>rx_reach\<close>, \<open>player_reach\<close>, \<open>redis_reach\<close> and so
  on). Errors are values (\<open>Inl\<close>, \<open>None\<close>, \<open>Panicked\<close>); panics of the code are outcomes too. A session is a
  tree of calls to its surroundings (\<open>Session\<close>), which \<open>Gateway\<close> and \<open>Distributed_Gateway\<close> answer with the
  models of the channel maps and the voice hosts. Unsigned integers of the code are words and wrap as in a release build.

  \<^bold>\<open>Interfaces.\<close> What one part relies on of another is a locale, interpreted on the code's model in the
  theory of the part that provides it: \<open>finite_map\<close> (\<open>bt\<close>, \<open>hm\<close>), \<open>slot_pool\<close> (\<open>pp\<close>, ports), \<open>task_pool\<close>
  (\<open>tp\<close>, tasks that keep their identity and only move forward), \<open>channel_state\<close> (\<open>lc\<close>, presence),
  \<open>session_monitor\<close> (\<open>owns\<close>, \<open>earns\<close>, \<open>view\<close>, \<open>doom\<close>, \<open>given\<close>, \<open>dialogue\<close>: what holds along every run of a session),
  \<open>session_world\<close> (\<open>rooms\<close>, \<open>shared\<close>: what sessions need of the gateway that answers them),
  \<open>min_queue\<close> (\<open>heap\<close>, the jitter buffer's queue).

  \<^bold>\<open>What the lemmas show.\<close> Refinement: control requests act on the forwarder as on
  a plain roster of clients, and requests to the server as on the rosters of its rooms. Invariants:
  well-formed forwarders, distinct ports, references of the registry, agreement of rooms and sessions
  in the standalone and the distributed gateway, streams of the client. Safety: datagrams are accepted
  from the bound address only, rooms never share ports, a session drops every room handle it is given
  and leaves every connection it has reported as ready (the one of a set-up that fails before is left
  behind, a finding), nonces are never used twice, members listed in Redis have sessions. Equivalence: the remote voice host, the
  distributed registry, the REST client and the generated gRPC code behave as what they stand for.
  Liveness and termination: keep-alive deadlines, a client that is alive and its gateway, the end of
  idle channels five seconds after the last event of their history, rooms for a voice server that has
  started and for as long as it is seen, the client's choice and discovery. Error behaviour: what
  crashes, what is never cleaned up, and that the microphone works at 48 kHz only. The end to end properties put parts together: the tasks of two clients and a voice
  server, a client and its session, the members of a room and the streams of a client.

  \<^bold>\<open>Recursion and bounds.\<close> The functions are total; loops over lists recurse on the list. Two loops of
  the client may not end, reading a choice and discovering the address: they are partial functions
  with \<open>None\<close> for not returning, and when they return is proved. Bounds of the code are kept at their
  values: ten messages in a connection's queue, three in a stream's, three packets in the jitter buffer,
  1600 bytes of a datagram, four megabytes of a gRPC message.

  \<^bold>\<open>Parameters.\<close> Code outside the repository is a parameter with what is documented of it as a
  hypothesis, shown to be satisfiable by the witnesses: the cipher (decryption inverts encryption,
  \<open>aead_inverse\<close>), protobuf and JSON (reading gives back what was written), texts of UUIDs, addresses and
  URLs (\<open>texts_ok\<close>), base64, the resolver, codec, resampler, denoiser and audio system, the tonic library
  (\<open>tonic_ok\<close>), what the network does to a call (\<open>net\<close>). Of the resampler it is taken that it needs at
  least as many frames as the chunks it was made for and refuses fewer (\<open>resampler_documented\<close>), of the
  encoder that it takes 20 milliseconds at 48 kHz (\<open>encoder_documented\<close>). Random source ids are taken to be new in a
  channel (\<open>fresh_source\<close>).

  \<^bold>\<open>Simplifications.\<close> What a lock protects is one step, and so are the steps right after it where nothing
  is waited for: entering a channel's presence with its subscription and announcement, and an assignment
  in the registry, whose choice of a server and update are two queries in the code. Cleaning up a room
  frees its port, while the code frees it with the last handle of the channel; a room is unhealthy
  once its forwarder has ended, in the code once the notification was sent. A stream of the client
  has its decoder and its player when it is registered; that these, or the UDP socket of the client,
  cannot be made is left out. The capacity of the in-memory broadcast of a distributed channel is not
  modelled. A control request to a connection's task and
  its answer are one step, as the forwarder waits for the answer. Waiting on a full queue is not
  modelled: a datagram is considered when there is room (\<open>has_room\<close>). Clocks count milliseconds, wall
  clock and monotonic clock do not drift apart. Rows come in the order of their creation where a query
  does not order them. Failures of the database connection are not modelled. A Redis command is atomic
  and any of them may fail; its topics deliver in order while the connection lasts.

  \<^bold>\<open>Not modelled.\<close> Reading of the command line, tracing, the database schema and its migrations, build
  scripts, tests. Compression and interceptors of gRPC, which the program does not
  set. Sounds: mixing, decoding, the bell. Gateways that die are in
  \<open>Redis_Channel\<close> but not in \<open>Distributed_Gateway\<close>. Confidentiality, which rests on the cipher alone.
\<close>

end
